(* ===== verification/Prelude.thy ===== *)
theory Prelude
  imports
    Main
    "HOL-Library.Word"
    "HOL-Library.Char_ord"
    "HOL-Library.List_Lexorder"
    "HOL-Library.Sublist"
begin

text \<open>
  What the components share: the types that stand for Rust's integers and byte strings,
  the byte-level string operations of the Rust standard library the sources call
  (\<open>split_once\<close>, \<open>trim_matches\<close>, \<open>rfind\<close>, \<open>to_ascii_lowercase\<close>, \<open>strip_prefix\<close>),
  checked and saturating arithmetic on machine words, the result of code that may panic,
  and the generic lemmas on them.  A Rust \<open>str\<close> is modelled by its bytes: a
  \<^typ>\<open>string\<close> is a list of 8-bit characters, and all separators the sources search for
  are ASCII, so searching bytes and searching characters agree.
\<close>

section \<open>Types and hint collections\<close>

type_synonym u64 = "64 word"
type_synonym i64 = "64 word" \<comment> \<open>two's complement, read with \<open>sint\<close>\<close>
type_synonym bytes = string

named_theorems std_simps "equations of the modelled standard library"
named_theorems result_iff "when a computation that may fail succeeds"

text \<open>A computation that may unwind: \<open>catch_unwind\<close> turns \<open>Panic\<close> into its error branch.\<close>

datatype 'a outcome = Ret 'a | Panic

definition outcome_bind :: "'a outcome \<Rightarrow> ('a \<Rightarrow> 'b outcome) \<Rightarrow> 'b outcome" where
  "outcome_bind m f = (case m of Ret a \<Rightarrow> f a | Panic \<Rightarrow> Panic)"

lemma outcome_bind_simps [simp]:
  "outcome_bind (Ret a) f = f a"
  "outcome_bind Panic f = Panic"
  by (simp_all add: outcome_bind_def)

text \<open>\<open>Result::and_then\<close>, the chaining that the question mark operator performs.\<close>

definition res_bind :: "'e + 'a \<Rightarrow> ('a \<Rightarrow> 'e + 'b) \<Rightarrow> 'e + 'b" where
  "res_bind m f = (case m of Inl e \<Rightarrow> Inl e | Inr a \<Rightarrow> f a)"

lemma res_bind_simps [simp]:
  "res_bind (Inl e) f = Inl e"
  "res_bind (Inr a) f = f a"
  by (simp_all add: res_bind_def)

lemma res_bind_Inr_iff [result_iff]:
  "res_bind m f = Inr b \<longleftrightarrow> (\<exists>a. m = Inr a \<and> f a = Inr b)"
  by (cases m) auto

section \<open>Checked and saturating arithmetic\<close>

definition checked_add :: "'a::len word \<Rightarrow> 'a word \<Rightarrow> 'a word option" where
  "checked_add a b = (if unat a + unat b < 2 ^ LENGTH('a) then Some (a + b) else None)"

definition checked_mul :: "'a::len word \<Rightarrow> 'a word \<Rightarrow> 'a word option" where
  "checked_mul a b = (if unat a * unat b < 2 ^ LENGTH('a) then Some (a * b) else None)"

definition saturating_add :: "'a::len word \<Rightarrow> 'a word \<Rightarrow> 'a word" where
  "saturating_add a b = (if unat a + unat b < 2 ^ LENGTH('a) then a + b else - 1)"

lemma checked_add_Some_iff [result_iff]:
  "checked_add a b = Some c \<longleftrightarrow> unat c = unat a + unat b"
  by (auto simp: checked_add_def unat_word_ariths word_unat_eq_iff)
    (metis unsigned_less)+

lemma checked_add_None_iff:
  fixes a b :: "'a::len word"
  shows "checked_add a b = None \<longleftrightarrow> 2 ^ LENGTH('a) \<le> unat a + unat b"
  by (auto simp: checked_add_def)

lemma checked_mul_Some_iff [result_iff]:
  "checked_mul a b = Some c \<longleftrightarrow> unat c = unat a * unat b"
  by (auto simp: checked_mul_def unat_word_ariths word_unat_eq_iff)
    (metis unsigned_less)+

lemma unat_saturating_add:
  fixes a b :: "'a::len word"
  shows "unat (saturating_add a b) = min (unat a + unat b) (2 ^ LENGTH('a) - 1)"
  by (auto simp: saturating_add_def unat_word_ariths unsigned_minus_1_eq_mask mask_eq_exp_minus_1)

section \<open>Byte strings\<close>

text \<open>A C string carries no NUL byte; \<open>CString::new\<close> fails exactly on a value that has one.\<close>

definition nul_free :: "string \<Rightarrow> bool" where
  "nul_free s \<longleftrightarrow> CHR 0x00 \<notin> set s"

definition cstring_new :: "string \<Rightarrow> string option" where
  "cstring_new s = (if nul_free s then Some s else None)"

lemma nul_free_simps [simp]:
  "nul_free []"
  "nul_free (c # s) \<longleftrightarrow> c \<noteq> CHR 0x00 \<and> nul_free s"
  "nul_free (s @ t) \<longleftrightarrow> nul_free s \<and> nul_free t"
  by (auto simp: nul_free_def)

lemma cstring_new_Some_iff [result_iff]: "cstring_new s = Some t \<longleftrightarrow> t = s \<and> nul_free s"
  by (auto simp: cstring_new_def)

lemma of_char_less_256: "(of_char c :: nat) < 256"
proof -
  have "(of_char c :: nat) mod 256 = of_char c" by (rule of_char_mod_256)
  then show ?thesis by (metis mod_less_divisor zero_less_numeral)
qed

definition is_ascii :: "char \<Rightarrow> bool" where
  "is_ascii c \<longleftrightarrow> (of_char c :: nat) < 128"

definition to_lower :: "char \<Rightarrow> char" where
  "to_lower c = (if CHR ''A'' \<le> c \<and> c \<le> CHR ''Z'' then char_of (of_char c + (32 :: nat)) else c)"

definition ascii_lowercase :: "string \<Rightarrow> string" where
  "ascii_lowercase s = map to_lower s"

definition replace_byte :: "char \<Rightarrow> char \<Rightarrow> string \<Rightarrow> string" where
  "replace_byte a b s = map (\<lambda>c. if c = a then b else c) s"

fun split_once_char :: "char \<Rightarrow> string \<Rightarrow> (string \<times> string) option" where
  "split_once_char c [] = None"
| "split_once_char c (x # s) =
     (if x = c then Some ([], s) else map_option (apfst ((#) x)) (split_once_char c s))"

fun split_once_str :: "string \<Rightarrow> string \<Rightarrow> (string \<times> string) option" where
  "split_once_str p [] = (if p = [] then Some ([], []) else None)"
| "split_once_str p (x # s) =
     (if prefix p (x # s) then Some ([], drop (length p) (x # s))
      else map_option (apfst ((#) x)) (split_once_str p s))"

fun contains_str :: "string \<Rightarrow> string \<Rightarrow> bool" where
  "contains_str p [] \<longleftrightarrow> p = []"
| "contains_str p (x # s) \<longleftrightarrow> prefix p (x # s) \<or> contains_str p s"

fun split_char :: "char \<Rightarrow> string \<Rightarrow> string list" where
  "split_char c [] = [[]]"
| "split_char c (x # s) =
     (if x = c then [] # split_char c s
      else case split_char c s of [] \<Rightarrow> [[x]] | w # ws \<Rightarrow> (x # w) # ws)"

fun join_with :: "string \<Rightarrow> string list \<Rightarrow> string" where
  "join_with sep [] = []"
| "join_with sep [w] = w"
| "join_with sep (w # v # ws) = w @ sep @ join_with sep (v # ws)"

definition trim_start_char :: "char \<Rightarrow> string \<Rightarrow> string" where
  "trim_start_char c s = dropWhile (\<lambda>x. x = c) s"

definition trim_end_char :: "char \<Rightarrow> string \<Rightarrow> string" where
  "trim_end_char c s = rev (dropWhile (\<lambda>x. x = c) (rev s))"

definition trim_char :: "char \<Rightarrow> string \<Rightarrow> string" where
  "trim_char c s = trim_end_char c (trim_start_char c s)"

definition strip_prefix :: "string \<Rightarrow> string \<Rightarrow> string option" where
  "strip_prefix p s = (if prefix p s then Some (drop (length p) s) else None)"

definition strip_suffix :: "string \<Rightarrow> string \<Rightarrow> string option" where
  "strip_suffix p s = (if suffix p s then Some (take (length s - length p) s) else None)"

fun position :: "(char \<Rightarrow> bool) \<Rightarrow> string \<Rightarrow> nat option" where
  "position P [] = None"
| "position P (x # s) = (if P x then Some 0 else map_option Suc (position P s))"

fun rfind_char :: "char \<Rightarrow> string \<Rightarrow> nat option" where
  "rfind_char c [] = None"
| "rfind_char c (x # s) =
     (case rfind_char c s of Some i \<Rightarrow> Some (Suc i) | None \<Rightarrow> if x = c then Some 0 else None)"

subsection \<open>Facts about the searches\<close>

lemma split_once_char_Some_iff [result_iff]:
  "split_once_char c s = Some (a, b) \<longleftrightarrow> s = a @ c # b \<and> c \<notin> set a"
proof (induction s arbitrary: a)
  case Nil
  show ?case by simp
next
  case (Cons x s)
  then show ?case by (cases a) (auto simp: apfst_def map_prod_def split: prod.splits)
qed

lemma split_once_char_None_iff: "split_once_char c s = None \<longleftrightarrow> c \<notin> set s"
  by (induction s) auto

lemma position_Some_iff [result_iff]:
  "position P s = Some i \<longleftrightarrow> i < length s \<and> P (s ! i) \<and> (\<forall>x \<in> set (take i s). \<not> P x)"
proof (induction s arbitrary: i)
  case Nil
  show ?case by simp
next
  case (Cons x s)
  then show ?case by (cases i) auto
qed

lemma position_None_iff: "position P s = None \<longleftrightarrow> (\<forall>x \<in> set s. \<not> P x)"
  by (induction s) auto

lemma rfind_char_None_iff: "rfind_char c s = None \<longleftrightarrow> c \<notin> set s"
  by (induction s) (auto split: option.splits)

lemma rfind_char_SomeD:
  "rfind_char c s = Some i \<Longrightarrow> i < length s \<and> s ! i = c \<and> c \<notin> set (drop (Suc i) s)"
proof (induction s arbitrary: i)
  case Nil
  then show ?case by simp
next
  case (Cons x s)
  show ?case
  proof (cases "rfind_char c s")
    case None
    with Cons.prems show ?thesis by (auto simp: rfind_char_None_iff split: if_splits)
  next
    case (Some j)
    with Cons.prems Cons.IH show ?thesis by auto
  qed
qed

lemma strip_prefix_Some_iff [result_iff]: "strip_prefix p s = Some t \<longleftrightarrow> s = p @ t"
  by (auto simp: strip_prefix_def prefix_def)

lemma join_split_char: "join_with [c] (split_char c s) = s"
proof (induction s)
  case Nil
  show ?case by simp
next
  case (Cons x s)
  moreover have "split_char c s \<noteq> []"
    by (cases s) (auto split: list.splits)
  ultimately show ?case
    by (cases "split_char c s"; cases "tl (split_char c s)") auto
qed

lemma trim_start_char_eq: "\<exists>k. s = replicate k c @ trim_start_char c s"
proof (induction s)
  case Nil
  show ?case by (simp add: trim_start_char_def)
next
  case (Cons x s)
  then obtain k where "s = replicate k c @ trim_start_char c s" by blast
  then have "x # s = replicate (Suc k) c @ trim_start_char c (x # s)" if "x = c"
    using that by (simp add: trim_start_char_def)
  moreover have "x # s = replicate 0 c @ trim_start_char c (x # s)" if "x \<noteq> c"
    using that by (simp add: trim_start_char_def)
  ultimately show ?case by (cases "x = c") blast+
qed

end
