(* ===== verification/F32.thy ===== *)
theory F32
  imports Prelude
begin

text \<open>
  Rust's \<open>f32\<close> as far as \<open>opendal/src/config\<close> uses it: \<open>str::parse::<f32>\<close>, \<open>is_finite\<close>
  and the comparison with \<open>1.0\<close>.  A finite value is a sign, a mantissa and an exponent
  (\<open>m * 2 ^ e\<close>); parsing reads the decimal exactly and rounds to nearest, ties to even, with
  24 bits of precision, gradual underflow at \<open>2 ^ -149\<close> and overflow to infinity.
\<close>

datatype f32 = NaN | Infinite bool | Finite bool nat int

definition f32_is_finite :: "f32 \<Rightarrow> bool" where
  "f32_is_finite f = (case f of Finite _ _ _ \<Rightarrow> True | _ \<Rightarrow> False)"

definition f32_lt_one :: "f32 \<Rightarrow> bool" where
  "f32_lt_one f =
     (case f of NaN \<Rightarrow> False | Infinite neg \<Rightarrow> neg
      | Finite neg m e \<Rightarrow> neg \<or> m = 0 \<or> (e < 0 \<and> m < 2 ^ nat (- e)))"

section \<open>Reading a decimal\<close>

definition is_digit :: "char \<Rightarrow> bool" where
  "is_digit c \<longleftrightarrow> CHR ''0'' \<le> c \<and> c \<le> CHR ''9''"

definition digit_value :: "char \<Rightarrow> nat" where
  "digit_value c = of_char c - 48"

fun digits_value :: "nat \<Rightarrow> string \<Rightarrow> nat" where
  "digits_value acc [] = acc"
| "digits_value acc (c # s) = digits_value (10 * acc + digit_value c) s"

text \<open>Digits, an optional fraction, an optional exponent: (digits, scale) with the value
  \<open>digits * 10 ^ scale\<close>.  At least one digit before the exponent and, if there is an
  exponent, at least one in it.\<close>

definition parse_exponent :: "string \<Rightarrow> int option" where
  "parse_exponent s =
     (case s of [] \<Rightarrow> Some 0
      | c # t \<Rightarrow>
          if c \<noteq> CHR ''e'' \<and> c \<noteq> CHR ''E'' then None
          else let neg = (t \<noteq> [] \<and> hd t = CHR ''-'');
                   u = (if t \<noteq> [] \<and> hd t \<in> set ''+-'' then tl t else t)
               in if u = [] \<or> \<not> list_all is_digit u then None
                  else Some (if neg then - int (digits_value 0 u) else int (digits_value 0 u)))"

definition parse_decimal :: "string \<Rightarrow> (nat \<times> int) option" where
  "parse_decimal s =
     (let whole = takeWhile is_digit s;
          s1 = dropWhile is_digit s;
          dot = (s1 \<noteq> [] \<and> hd s1 = CHR ''.'');
          frac = (if dot then takeWhile is_digit (tl s1) else []);
          s2 = (if dot then dropWhile is_digit (tl s1) else s1)
      in if whole = [] \<and> frac = [] then None
         else map_option (\<lambda>e. (digits_value 0 (whole @ frac), e - int (length frac)))
           (parse_exponent s2))"

section \<open>Rounding\<close>

fun bit_length :: "nat \<Rightarrow> nat" where
  "bit_length n = (if n = 0 then 0 else Suc (bit_length (n div 2)))"

declare bit_length.simps [simp del]

definition scale_up :: "nat \<Rightarrow> int \<Rightarrow> nat" where
  "scale_up n e = (if 0 \<le> e then n * 2 ^ nat e else n)"

text \<open>The exponent of the leading bit of \<open>n / d\<close>, for positive \<open>n\<close> and \<open>d\<close>.\<close>

definition floor_log2 :: "nat \<Rightarrow> nat \<Rightarrow> int" where
  "floor_log2 n d =
     (let g = int (bit_length n) - int (bit_length d)
      in if scale_up d g \<le> scale_up n (- g) then g else g - 1)"

definition round_half_even :: "nat \<Rightarrow> nat \<Rightarrow> nat" where
  "round_half_even n d =
     (let q = n div d; r = n mod d
      in if 2 * r < d \<or> (2 * r = d \<and> even q) then q else q + 1)"

definition round_f32 :: "bool \<Rightarrow> nat \<Rightarrow> nat \<Rightarrow> f32" where
  "round_f32 neg n d =
     (if n = 0 then Finite neg 0 0
      else let e = max (- 149) (floor_log2 n d - 23);
               m = round_half_even (scale_up n (- e)) (scale_up d e)
           in if 2 ^ 128 \<le> scale_up m e \<and> 0 \<le> e then Infinite neg else Finite neg m e)"

definition decimal_to_f32 :: "bool \<Rightarrow> nat \<Rightarrow> int \<Rightarrow> f32" where
  "decimal_to_f32 neg m e =
     (if 0 \<le> e then round_f32 neg (m * 10 ^ nat e) 1 else round_f32 neg m (10 ^ nat (- e)))"

definition parse_f32 :: "string \<Rightarrow> f32 option" where
  "parse_f32 s =
     (let neg = (s \<noteq> [] \<and> hd s = CHR ''-'');
          t = (if s \<noteq> [] \<and> hd s \<in> set ''+-'' then tl s else s);
          low = ascii_lowercase t
      in case parse_decimal t of Some (m, e) \<Rightarrow> Some (decimal_to_f32 neg m e)
         | None \<Rightarrow>
             if low = ''nan'' then Some NaN
             else if low = ''inf'' \<or> low = ''infinity'' then Some (Infinite neg)
             else None)"

end
