(* ===== verification/Opendal.thy ===== *)
theory Opendal
  imports F32
begin

text \<open>
  The OpenDAL crate as the sources see it.  OpenDAL is not part of the repository: its types
  appear here with the names and accessors the sources use, and its behaviour is an
  environment, a parameter of every definition that calls it.  The environment answers each
  call from the history of all calls made so far, so it stands for any stateful service; a
  reply is a value, an OpenDAL error, or a panic.  The history is threaded explicitly, which
  makes the order of the calls part of what the model computes.
\<close>

section \<open>Errors, metadata, options\<close>

datatype error_kind =
  KNotFound | KPermissionDenied | KNotADirectory | KIsADirectory | KAlreadyExists
| KConfigInvalid | KUnsupported | KUnexpected | KOther nat

text \<open>An \<open>opendal::Error\<close>: its kind and what \<open>to_string\<close> displays.\<close>

record oerror =
  kind :: error_kind
  display :: string

datatype entry_mode = FILE | DIR | UnknownMode

record metadata =
  mode :: entry_mode
  content_length :: u64
  cache_control :: "string option"
  content_disposition :: "string option"
  content_md5 :: "string option"
  content_type :: "string option"
  content_encoding :: "string option"
  etag :: "string option"
  version :: "string option"
  last_modified :: "i64 option" \<comment> \<open>in milliseconds\<close>
  is_current :: "bool option"
  is_deleted :: bool
  user_metadata :: "(string \<times> string) list option" \<comment> \<open>in the hash map's iteration order\<close>

definition is_file :: "metadata \<Rightarrow> bool" where
  "is_file m \<longleftrightarrow> mode m = FILE"

definition is_dir :: "metadata \<Rightarrow> bool" where
  "is_dir m \<longleftrightarrow> mode m = DIR"

type_synonym entry = "string \<times> metadata"

record stat_opts =
  so_version :: "string option"
  so_if_match :: "string option"
  so_if_none_match :: "string option"
  so_if_modified_since :: "i64 option"
  so_if_unmodified_since :: "i64 option"

record list_opts =
  lo_start_after :: "string option"
  lo_recursive :: bool
  lo_versions :: bool
  lo_deleted :: bool

record copy_opts =
  co_if_not_exists :: bool
  co_if_match :: "string option"
  co_source_version :: "string option"
  co_hint :: "u64 option"
  co_concurrent :: u64
  co_chunk :: "u64 option"

record reader_opts =
  ro_version :: "string option"
  ro_hint :: "u64 option"
  ro_concurrent :: u64
  ro_chunk :: "u64 option"

record write_opts =
  wo_if_not_exists :: bool
  wo_if_match :: "string option"
  wo_concurrent :: u64
  wo_chunk :: "u64 option"

definition default_stat_opts :: stat_opts where
  "default_stat_opts =
     \<lparr>so_version = None, so_if_match = None, so_if_none_match = None,
      so_if_modified_since = None, so_if_unmodified_since = None\<rparr>"

definition default_list_opts :: list_opts where
  "default_list_opts =
     \<lparr>lo_start_after = None, lo_recursive = False, lo_versions = False, lo_deleted = False\<rparr>"

section \<open>Capabilities\<close>

record capability =
  cap_stat :: bool
  cap_stat_with_version :: bool
  cap_stat_with_if_match :: bool
  cap_stat_with_if_none_match :: bool
  cap_stat_with_if_modified_since :: bool
  cap_stat_with_if_unmodified_since :: bool
  cap_read :: bool
  cap_read_with_version :: bool
  cap_write :: bool
  cap_write_with_if_not_exists :: bool
  cap_write_with_if_match :: bool
  cap_create_dir :: bool
  cap_delete :: bool
  cap_copy :: bool
  cap_copy_with_if_not_exists :: bool
  cap_copy_with_if_match :: bool
  cap_copy_with_source_version :: bool
  cap_rename :: bool
  cap_list :: bool
  cap_list_with_start_after :: bool
  cap_list_with_versions :: bool
  cap_list_with_deleted :: bool

section \<open>Operators, layers and the calls on them\<close>

text \<open>A \<open>std::time::Duration\<close>, as its length in nanoseconds.\<close>

type_synonym duration = nat

record retry_layer =
  rl_max_times :: "u64 option"
  rl_factor :: "f32 option"
  rl_jitter :: bool
  rl_min_delay :: "duration option"
  rl_max_delay :: "duration option"

record timeout_layer =
  tl_timeout :: "duration option"
  tl_io_timeout :: "duration option"

text \<open>The size range of the cache layer: from a least size up to, where given, an excluded bound.\<close>

record size_limit =
  sl_from :: u64
  sl_below :: "u64 option"

datatype layer =
  RetryLayer retry_layer
| TimeoutLayer timeout_layer
| ConcurrentLimitLayer u64
| FoyerLayer nat size_limit

text \<open>An operator: the service behind it and the layers put on it, the last one outermost.\<close>

record operator =
  service :: nat
  layers :: "layer list"

definition add_layer :: "operator \<Rightarrow> layer \<Rightarrow> operator" where
  "add_layer op l = op\<lparr>layers := layers op @ [l]\<rparr>"

text \<open>The calls the sources make; opened readers, writers, listers and copiers are handles.\<close>

datatype call =
  Stat operator string stat_opts
| Exists operator string
| ListWith operator string bool
| ListOptions operator string list_opts
| ListerWith operator string
| ListerOptions operator string list_opts
| ListerNext nat
| ReaderWith operator string "u64 option" "u64 option"
| ReaderOptions operator string reader_opts
| ReadInto nat u64 u64
| ReadRange nat u64 u64
| WriterWith operator string "u64 option" "u64 option"
| WriterOptions operator string write_opts
| WriteAll operator string bytes
| Write nat bytes
| CloseWriter nat
| AbortWriter nat
| CreateDir operator string
| Delete operator string
| DeleteRecursive operator string
| Rename operator string string
| Copy operator string string
| CopierOptions operator string string copy_opts
| CopierNext nat
| CopierAbort nat
| CopierClose nat
| CreateDirAll string
| FsDevice string u64
| CacheBuild u64 u64 "(nat \<times> u64) option"
| BuildOperator string "(string \<times> string) list"

type_synonym history = "call list"

datatype 'a reply = ROk 'a | RErr oerror | RPanic

record env =
  on_metadata :: "history \<Rightarrow> metadata reply"
  on_bool :: "history \<Rightarrow> bool reply"
  on_entries :: "history \<Rightarrow> entry list reply"
  on_entry :: "history \<Rightarrow> entry option reply"
  on_handle :: "history \<Rightarrow> nat reply"
  on_bytes :: "history \<Rightarrow> bytes reply"
  on_progress :: "history \<Rightarrow> u64 option reply"
  on_unit :: "history \<Rightarrow> unit reply"
  with_context :: "oerror \<Rightarrow> string \<Rightarrow> string \<Rightarrow> oerror"
  new_error :: "error_kind \<Rightarrow> string \<Rightarrow> oerror"
  get_basename :: "string \<Rightarrow> string"
  timestamp_from_ms :: "i64 \<Rightarrow> string + i64"

text \<open>Making a call: the history grows by it, and the reply depends on the whole history.\<close>

definition invoke :: "(history \<Rightarrow> 'a reply) \<Rightarrow> call \<Rightarrow> history \<Rightarrow> 'a reply \<times> history" where
  "invoke f c h = (f (h @ [c]), h @ [c])"

lemma invoke_history [simp]: "snd (invoke f c h) = h @ [c]"
  by (simp add: invoke_def)

lemma invoke_eq_iff [result_iff]: "invoke f c h = (r, h') \<longleftrightarrow> h' = h @ [c] \<and> r = f h'"
  by (auto simp: invoke_def)

section \<open>A service that answers\<close>

text \<open>A plain object and an environment in which every call succeeds, for concrete runs.\<close>

definition plain_file :: metadata where
  "plain_file = \<lparr>mode = FILE, content_length = 3, cache_control = None, content_disposition = None,
     content_md5 = None, content_type = None, content_encoding = None, etag = None, version = None,
     last_modified = None, is_current = None, is_deleted = False, user_metadata = None\<rparr>"

definition calm_env :: env where
  "calm_env = \<lparr>on_metadata = \<lambda>_. ROk plain_file, on_bool = \<lambda>_. ROk True, on_entries = \<lambda>_. ROk [],
     on_entry = \<lambda>_. ROk None, on_handle = \<lambda>h. ROk (length h), on_bytes = \<lambda>_. ROk [],
     on_progress = \<lambda>_. ROk None, on_unit = \<lambda>_. ROk (), with_context = \<lambda>e _ _. e,
     new_error = \<lambda>k m. \<lparr>kind = k, display = m\<rparr>, get_basename = \<lambda>p. p, timestamp_from_ms = Inr\<rparr>"

lemma calm_env_simps [simp]:
  "on_metadata calm_env h = ROk plain_file" "on_bool calm_env h = ROk True"
  "on_entries calm_env h = ROk []" "on_entry calm_env h = ROk None"
  "on_handle calm_env h = ROk (length h)" "on_bytes calm_env h = ROk []"
  "on_progress calm_env h = ROk None" "on_unit calm_env h = ROk ()"
  "timestamp_from_ms calm_env t = Inr t"
  by (simp_all add: calm_env_def)

end
