(* ===== verification/Utf8.thy ===== *)
theory Utf8
  imports Prelude
begin

text \<open>
  The UTF-8 check behind Rust's \<open>CStr::to_str\<close>, \<open>str::from_utf8\<close> and
  \<open>decode_utf8\<close>: well-formed byte sequences of the Unicode standard (no overlong
  forms, no surrogates, nothing above U+10FFFF).  A valid string is also available as the
  list of its characters (each a list of one to four bytes), which is what character
  searches (\<open>trim\<close>, \<open>rfind(char::is_numeric)\<close>) and char-boundary panics of slicing need.
\<close>

section \<open>Well-formed byte sequences\<close>

definition byte_in :: "nat \<Rightarrow> nat \<Rightarrow> char \<Rightarrow> bool" where
  "byte_in lo hi c \<longleftrightarrow> lo \<le> of_char c \<and> of_char c \<le> hi"

definition utf8_two :: "char \<Rightarrow> char \<Rightarrow> bool" where
  "utf8_two a b \<longleftrightarrow> byte_in 0xC2 0xDF a \<and> byte_in 0x80 0xBF b"

definition utf8_three :: "char \<Rightarrow> char \<Rightarrow> char \<Rightarrow> bool" where
  "utf8_three a b c \<longleftrightarrow>
     (byte_in 0xE0 0xE0 a \<and> byte_in 0xA0 0xBF b
      \<or> byte_in 0xE1 0xEC a \<and> byte_in 0x80 0xBF b
      \<or> byte_in 0xED 0xED a \<and> byte_in 0x80 0x9F b
      \<or> byte_in 0xEE 0xEF a \<and> byte_in 0x80 0xBF b) \<and> byte_in 0x80 0xBF c"

definition utf8_four :: "char \<Rightarrow> char \<Rightarrow> char \<Rightarrow> char \<Rightarrow> bool" where
  "utf8_four a b c d \<longleftrightarrow>
     (byte_in 0xF0 0xF0 a \<and> byte_in 0x90 0xBF b
      \<or> byte_in 0xF1 0xF3 a \<and> byte_in 0x80 0xBF b
      \<or> byte_in 0xF4 0xF4 a \<and> byte_in 0x80 0x8F b) \<and> byte_in 0x80 0xBF c \<and> byte_in 0x80 0xBF d"

text \<open>The length of the well-formed character a string starts with, if it starts with one.\<close>

fun utf8_first :: "string \<Rightarrow> nat option" where
  "utf8_first [] = None"
| "utf8_first [a] = (if is_ascii a then Some 1 else None)"
| "utf8_first [a, b] =
     (if is_ascii a then Some 1 else if utf8_two a b then Some 2 else None)"
| "utf8_first [a, b, c] =
     (if is_ascii a then Some 1 else if utf8_two a b then Some 2
      else if utf8_three a b c then Some 3 else None)"
| "utf8_first (a # b # c # d # s) =
     (if is_ascii a then Some 1 else if utf8_two a b then Some 2
      else if utf8_three a b c then Some 3 else if utf8_four a b c d then Some 4 else None)"

lemma utf8_first_bounds: "utf8_first s = Some n \<Longrightarrow> 0 < n \<and> n \<le> length s \<and> n \<le> 4"
  by (induction s rule: utf8_first.induct) (auto split: if_splits)

lemma utf8_first_append: "utf8_first s = Some n \<Longrightarrow> utf8_first (s @ t) = Some n"
  by (cases t; cases "tl t"; cases "tl (tl t)"; induction s rule: utf8_first.induct)
    (auto split: if_splits)

lemma utf8_first_ascii: "is_ascii c \<Longrightarrow> utf8_first (c # s) = Some 1"
  by (cases s; cases "tl s"; cases "tl (tl s)") auto

function utf8_chars :: "string \<Rightarrow> string list option" where
  "utf8_chars s =
     (if s = [] then Some []
      else case utf8_first s of None \<Rightarrow> None
        | Some n \<Rightarrow> map_option ((#) (take n s)) (utf8_chars (drop n s)))"
  by pat_completeness auto
termination
  by (relation "measure length") (auto dest: utf8_first_bounds)

declare utf8_chars.simps [simp del]

definition utf8_valid :: "string \<Rightarrow> bool" where
  "utf8_valid s \<longleftrightarrow> utf8_chars s \<noteq> None"

text \<open>The code point of one character, read from its bytes.\<close>

fun code_point :: "string \<Rightarrow> nat" where
  "code_point [a] = of_char a"
| "code_point [a, b] = (of_char a mod 32) * 64 + of_char b mod 64"
| "code_point [a, b, c] = (of_char a mod 16) * 4096 + (of_char b mod 64) * 64 + of_char c mod 64"
| "code_point [a, b, c, d] =
     (of_char a mod 8) * 262144 + (of_char b mod 64) * 4096 + (of_char c mod 64) * 64 + of_char d mod 64"
| "code_point _ = 0"

text \<open>Unicode \<open>White_Space\<close>, what \<open>str::trim\<close> removes at both ends.\<close>

definition is_whitespace :: "nat \<Rightarrow> bool" where
  "is_whitespace n \<longleftrightarrow>
     9 \<le> n \<and> n \<le> 13 \<or> n = 0x20 \<or> n = 0x85 \<or> n = 0xA0 \<or> n = 0x1680
     \<or> 0x2000 \<le> n \<and> n \<le> 0x200A \<or> n = 0x2028 \<or> n = 0x2029 \<or> n = 0x202F \<or> n = 0x205F \<or> n = 0x3000"

definition trim_chars :: "string list \<Rightarrow> string list" where
  "trim_chars cs =
     rev (dropWhile (\<lambda>c. is_whitespace (code_point c))
       (rev (dropWhile (\<lambda>c. is_whitespace (code_point c)) cs)))"

section \<open>Facts\<close>

lemma utf8_chars_Nil [simp]: "utf8_chars [] = Some []"
  by (simp add: utf8_chars.simps)

lemma utf8_chars_ascii [simp]:
  "is_ascii c \<Longrightarrow> utf8_chars (c # s) = map_option ((#) [c]) (utf8_chars s)"
  by (subst utf8_chars.simps) (simp add: utf8_first_ascii)

lemma utf8_chars_concat: "utf8_chars s = Some cs \<Longrightarrow> concat cs = s"
proof (induction s arbitrary: cs rule: utf8_chars.induct)
  case (1 s)
  then show ?case
    by (subst (asm) (2) utf8_chars.simps) (auto split: if_splits option.splits)
qed

lemma utf8_valid_simps [simp]:
  "utf8_valid []"
  "is_ascii c \<Longrightarrow> utf8_valid (c # s) \<longleftrightarrow> utf8_valid s"
  by (auto simp: utf8_valid_def)

lemma utf8_chars_append:
  "utf8_chars s = Some cs \<Longrightarrow> utf8_chars (s @ t) = map_option ((@) cs) (utf8_chars t)"
proof (induction s arbitrary: cs rule: utf8_chars.induct)
  case (1 s)
  show ?case
  proof (cases "s = []")
    case True
    with "1.prems" show ?thesis by (simp add: option.map_ident)
  next
    case False
    with "1.prems" obtain n ds where n: "utf8_first s = Some n"
      and ds: "utf8_chars (drop n s) = Some ds" and cs: "cs = take n s # ds"
      by (subst (asm) utf8_chars.simps) (auto split: option.splits)
    have "utf8_chars (drop n s @ t) = map_option ((@) ds) (utf8_chars t)"
      using "1.IH" False n ds by blast
    moreover have "n \<le> length s" using utf8_first_bounds [OF n] by simp
    ultimately show ?thesis
      using False n cs
      by (subst utf8_chars.simps; cases "utf8_chars t") (simp_all add: utf8_first_append)
  qed
qed

lemma utf8_valid_append: "utf8_valid s \<Longrightarrow> utf8_valid t \<Longrightarrow> utf8_valid (s @ t)"
  by (auto simp: utf8_valid_def utf8_chars_append)

lemma utf8_valid_ascii: "list_all is_ascii s \<Longrightarrow> utf8_valid s"
  by (induction s) auto

text \<open>Replacing ASCII bytes by ASCII bytes keeps a string valid.\<close>

lemma byte_in_map:
  assumes "\<And>c. is_ascii c \<Longrightarrow> is_ascii (f c)" "\<And>c. \<not> is_ascii c \<Longrightarrow> f c = c" "128 \<le> lo"
  shows "byte_in lo hi (f c) = byte_in lo hi c"
proof (cases "is_ascii c")
  case True
  with assms(1) [of c] assms(3) show ?thesis by (simp add: byte_in_def is_ascii_def)
next
  case False
  with assms(2) show ?thesis by simp
qed

lemma utf8_first_map:
  assumes "\<And>c. is_ascii c \<Longrightarrow> is_ascii (f c)" "\<And>c. \<not> is_ascii c \<Longrightarrow> f c = c"
  shows "utf8_first (map f s) = utf8_first s"
proof -
  note b = byte_in_map [of f, OF assms]
  have "utf8_two (f x) (f y) = utf8_two x y" "utf8_three (f x) (f y) (f z) = utf8_three x y z"
    "utf8_four (f x) (f y) (f z) (f w) = utf8_four x y z w" for x y z w
    by (simp_all only: utf8_two_def utf8_three_def utf8_four_def b) (simp_all add: b)
  moreover have "is_ascii (f c) = is_ascii c" for c using assms by metis
  ultimately show ?thesis
    by (induction s rule: utf8_first.induct) simp_all
qed

lemma utf8_valid_map:
  assumes "\<And>c. is_ascii c \<Longrightarrow> is_ascii (f c)" "\<And>c. \<not> is_ascii c \<Longrightarrow> f c = c"
  shows "utf8_valid (map f s) = utf8_valid s"
proof (induction s rule: utf8_chars.induct)
  case (1 s)
  then show ?case
    by (simp add: utf8_valid_def, subst (1 2) utf8_chars.simps)
      (auto simp: utf8_first_map [of f, OF assms] drop_map split: option.splits)
qed

end
