(* ===== verification/Errors.thy ===== *)
theory Errors
  imports Opendal Utf8
begin

text \<open>
  The error type of the C boundary (\<open>opendal/src/error.rs\<close>) and the plumbing every entry point
  shares (\<open>opendal/src/ffi.rs\<close>): the out-parameter \<open>OdError\<close>, its three setters, the mapping
  of OpenDAL error kinds to codes, the panic guard, and the decoding of C strings.  A pointer
  that may be null is an option; a pointer whose identity matters is a \<open>ptr\<close> with an address.
\<close>

section \<open>error.rs\<close>

datatype od_error_code =
  CodeOk | CodeNotFound | CodePermissionDenied | CodeNotADirectory | CodeIsADirectory
| CodeAlreadyExists | CodeInvalidInput | CodeUnsupported | CodeUnexpected | CodePanic | CodeOther

fun code_number :: "od_error_code \<Rightarrow> nat" where
  "code_number CodeOk = 0"
| "code_number CodeNotFound = 1"
| "code_number CodePermissionDenied = 2"
| "code_number CodeNotADirectory = 3"
| "code_number CodeIsADirectory = 4"
| "code_number CodeAlreadyExists = 5"
| "code_number CodeInvalidInput = 6"
| "code_number CodeUnsupported = 7"
| "code_number CodeUnexpected = 8"
| "code_number CodePanic = 98"
| "code_number CodeOther = 99"

record od_error =
  err_code :: od_error_code
  err_message :: "string option"

type_synonym err_slot = "od_error option"

definition error_ok :: od_error where
  "error_ok = \<lparr>err_code = CodeOk, err_message = None\<rparr>"

definition set_error :: "err_slot \<Rightarrow> od_error_code \<Rightarrow> string \<Rightarrow> err_slot" where
  "set_error out c msg =
     (case out of None \<Rightarrow> None
      | Some _ \<Rightarrow> Some \<lparr>err_code = c,
          err_message = Some (case cstring_new msg of Some m \<Rightarrow> m
                              | None \<Rightarrow> ''<error message contained NUL>'')\<rparr>)"

definition set_ok :: "err_slot \<Rightarrow> err_slot" where
  "set_ok out = (case out of None \<Rightarrow> None | Some _ \<Rightarrow> Some error_ok)"

definition opendal_error_code :: "oerror \<Rightarrow> od_error_code" where
  "opendal_error_code e =
     (case kind e of
        KNotFound \<Rightarrow> CodeNotFound
      | KPermissionDenied \<Rightarrow> CodePermissionDenied
      | KNotADirectory \<Rightarrow> CodeNotADirectory
      | KIsADirectory \<Rightarrow> CodeIsADirectory
      | KAlreadyExists \<Rightarrow> CodeAlreadyExists
      | KConfigInvalid \<Rightarrow> CodeInvalidInput
      | KUnsupported \<Rightarrow> CodeUnsupported
      | _ \<Rightarrow> CodeUnexpected)"

definition set_opendal_error :: "err_slot \<Rightarrow> oerror \<Rightarrow> err_slot" where
  "set_opendal_error out e = set_error out (opendal_error_code e) (display e)"

section \<open>ffi.rs\<close>

datatype 'a ptr = Null | Ptr nat 'a

definition is_null :: "'a ptr \<Rightarrow> bool" where
  "is_null p \<longleftrightarrow> (case p of Null \<Rightarrow> True | Ptr _ _ \<Rightarrow> False)"

definition same_address :: "'a ptr \<Rightarrow> 'a ptr \<Rightarrow> bool" where
  "same_address p q \<longleftrightarrow>
     (case (p, q) of (Null, Null) \<Rightarrow> True | (Ptr a _, Ptr b _) \<Rightarrow> a = b | _ \<Rightarrow> False)"

text \<open>A C string argument is its bytes up to the terminator, or null.\<close>

type_synonym c_str = "string option"

definition cstr :: "c_str \<Rightarrow> string option" where
  "cstr p = (case p of None \<Rightarrow> None | Some s \<Rightarrow> if utf8_valid s then Some s else None)"

definition set_panic :: "err_slot \<Rightarrow> string \<Rightarrow> err_slot" where
  "set_panic err msg = set_error err CodePanic msg"

text \<open>
  The guard of every entry point: a body that unwinds becomes an error with code \<open>Panic\<close> and
  the fallback value; what the body wrote before (other outputs, calls made) stays.
\<close>

definition ffi_guard ::
  "string \<Rightarrow> 'r \<Rightarrow> 'r outcome \<times> err_slot \<times> 'x \<Rightarrow> 'r \<times> err_slot \<times> 'x" where
  "ffi_guard ctx fallback res =
     (case res of (Ret v, err, x) \<Rightarrow> (v, err, x)
      | (Panic, err, x) \<Rightarrow> (fallback, set_panic err (''panic in '' @ ctx), x))"

section \<open>The contract of an entry point\<close>

text \<open>
  An error slot is well-formed when success carries no message and failure a C string; an
  entry point keeps its contract when it leaves the slot's presence alone, leaves it
  well-formed, and returns its failure value exactly when the code is not \<open>Ok\<close>.
\<close>

definition slot_ok :: "err_slot \<Rightarrow> bool" where
  "slot_ok e \<longleftrightarrow>
     (case e of None \<Rightarrow> True
      | Some x \<Rightarrow> (case err_message x of None \<Rightarrow> err_code x = CodeOk
                  | Some m \<Rightarrow> err_code x \<noteq> CodeOk \<and> nul_free m))"

definition failed :: "err_slot \<Rightarrow> bool" where
  "failed e \<longleftrightarrow> (case e of None \<Rightarrow> False | Some x \<Rightarrow> err_code x \<noteq> CodeOk)"

definition reports :: "err_slot \<Rightarrow> bool \<Rightarrow> err_slot \<Rightarrow> bool" where
  "reports e0 bad e \<longleftrightarrow>
     (e = None \<longleftrightarrow> e0 = None) \<and> slot_ok e \<and> (e \<noteq> None \<longrightarrow> (failed e \<longleftrightarrow> bad))"

named_theorems reports_intro "ways an entry point keeps its contract"

lemma opendal_error_code_not_ok [simp]: "opendal_error_code e \<noteq> CodeOk"
  by (simp add: opendal_error_code_def split: error_kind.split)

lemma code_number_inj: "code_number a = code_number b \<longleftrightarrow> a = b"
  by (cases a; cases b) simp_all

lemma set_error_reports [reports_intro]: "c \<noteq> CodeOk \<Longrightarrow> reports e True (set_error e c msg)"
  by (auto simp: reports_def set_error_def slot_ok_def failed_def cstring_new_def split: option.splits)

lemma set_ok_reports [reports_intro]: "reports e False (set_ok e)"
  by (auto simp: reports_def set_ok_def slot_ok_def failed_def error_ok_def split: option.splits)

lemma set_opendal_error_reports [reports_intro]: "reports e True (set_opendal_error e err)"
  by (simp add: set_opendal_error_def set_error_reports)

lemma set_panic_reports [reports_intro]: "reports e True (set_panic e msg)"
  by (simp add: set_panic_def set_error_reports)

lemma set_error_None [simp]: "set_error None c m = None"
  by (simp add: set_error_def)

lemma set_ok_None [simp]: "set_ok None = None"
  by (simp add: set_ok_def)

lemma set_error_Some_code [simp]:
  "e \<noteq> None \<Longrightarrow> map_option err_code (set_error e c m) = Some c"
  by (auto simp: set_error_def)

section \<open>Guarded entry points\<close>

text \<open>
  The interface between an entry point's body and its guard.  A body promises that it reports
  failure exactly when it returns the fallback value, and, when it unwinds, that the error slot
  is still there; the guarded entry point then keeps the contract whatever the body does.
\<close>

locale ffi_entry =
  fixes body :: "'i \<Rightarrow> err_slot \<Rightarrow> 'r outcome \<times> err_slot \<times> 'x"
    and fallback :: 'r
  assumes body_returns: "body i e0 = (Ret v, e, x) \<Longrightarrow> reports e0 (v = fallback) e"
    and body_unwinds: "body i e0 = (Panic, e, x) \<Longrightarrow> e = None \<longleftrightarrow> e0 = None"
begin

lemma entry_reports:
  assumes "ffi_guard ctx fallback (body i e0) = (v, e, x)"
  shows "reports e0 (v = fallback) e"
proof -
  obtain r e1 x1 where b: "body i e0 = (r, e1, x1)" by (metis surj_pair)
  show ?thesis
  proof (cases r)
    case (Ret w)
    with b assms body_returns show ?thesis by (auto simp: ffi_guard_def)
  next
    case Panic
    with b body_unwinds have "e1 = None \<longleftrightarrow> e0 = None" by blast
    with b Panic assms set_panic_reports [of e1] show ?thesis
      by (auto simp: ffi_guard_def reports_def)
  qed
qed

lemma entry_contract:
  "reports e0 (fst (ffi_guard ctx fallback (body i e0)) = fallback) (fst (snd (ffi_guard ctx fallback (body i e0))))"
  by (rule entry_reports [of ctx i e0 _ _ "snd (snd (ffi_guard ctx fallback (body i e0)))"]) simp

text \<open>A failure value always comes with a message in the slot.\<close>

lemma entry_message:
  assumes "ffi_guard ctx fallback (body i (Some o0)) = (fallback, e, x)"
  shows "\<exists>c m. e = Some \<lparr>err_code = c, err_message = Some m\<rparr> \<and> c \<noteq> CodeOk \<and> nul_free m"
proof (cases e)
  case None
  with entry_reports [OF assms] show ?thesis by (simp add: reports_def)
next
  case (Some x)
  with entry_reports [OF assms] show ?thesis
    by (cases x) (auto simp: reports_def slot_ok_def failed_def split: option.splits)
qed

end

lemma set_error_present [simp]: "set_error e c m = None \<longleftrightarrow> e = None"
  by (simp add: set_error_def split: option.split)

lemma set_ok_present [simp]: "set_ok e = None \<longleftrightarrow> e = None"
  by (simp add: set_ok_def split: option.split)

lemma set_opendal_error_present [simp]: "set_opendal_error e x = None \<longleftrightarrow> e = None"
  by (simp add: set_opendal_error_def)

end
