(* ===== verification/Btree.thy ===== *)
theory Btree
  imports Prelude
begin

text \<open>
  Rust's \<open>BTreeMap\<close>, which the option sections (\<open>config/mod.rs\<close>) and the \<open>du\<close> roll-up
  (\<open>table.rs\<close>) rely on: an interface with its laws, the facts its clients need, and an
  implementation by association lists sorted by key.
\<close>

section \<open>The interface\<close>

locale ordered_map =
  fixes empty :: "'m"
    and insert :: "'k::linorder \<Rightarrow> 'v \<Rightarrow> 'm \<Rightarrow> 'm"
    and lookup :: "'m \<Rightarrow> 'k \<Rightarrow> 'v option"
    and entries :: "'m \<Rightarrow> ('k \<times> 'v) list"
    and invar :: "'m \<Rightarrow> bool"
  assumes invar_empty: "invar empty"
    and invar_insert: "invar m \<Longrightarrow> invar (insert k v m)"
    and lookup_empty: "lookup empty k = None"
    and lookup_insert: "invar m \<Longrightarrow> lookup (insert k v m) k' = (if k' = k then Some v else lookup m k')"
    and entries_sorted: "invar m \<Longrightarrow> sorted_wrt (<) (map fst (entries m))"
    and entries_lookup: "invar m \<Longrightarrow> map_of (entries m) k = lookup m k"
begin

definition of_list :: "('k \<times> 'v) list \<Rightarrow> 'm" where
  "of_list kvs = fold (\<lambda>(k, v). insert k v) kvs empty"

lemma fold_insert:
  "invar m \<Longrightarrow> invar (fold (\<lambda>(k, v). insert k v) kvs m)
     \<and> lookup (fold (\<lambda>(k, v). insert k v) kvs m) k =
         (case map_of (rev kvs) k of Some v \<Rightarrow> Some v | None \<Rightarrow> lookup m k)"
proof (induction kvs arbitrary: m)
  case Nil
  then show ?case by simp
next
  case (Cons kv kvs)
  obtain a b where kv: "kv = (a, b)" by fastforce
  have "invar (insert a b m)" using Cons.prems by (rule invar_insert)
  from Cons.IH [OF this] Cons.prems kv show ?case
    by (auto simp: lookup_insert map_add_def split: option.splits)
qed

text \<open>The last value given for a key wins.\<close>

lemma of_list_lookup: "invar (of_list kvs)" "lookup (of_list kvs) k = map_of (rev kvs) k"
  using fold_insert [OF invar_empty, of kvs k]
  by (auto simp: of_list_def lookup_empty split: option.splits)

text \<open>Iteration depends on the bindings only, not on the order of the insertions.\<close>

lemma entries_unique:
  assumes "invar m" "invar m'" "\<And>k. lookup m k = lookup m' k"
  shows "entries m = entries m'"
proof -
  have s: "sorted_wrt (<) (map fst (entries m))" "sorted_wrt (<) (map fst (entries m'))"
    using assms entries_sorted by auto
  then have d: "distinct (map fst (entries m))" "distinct (map fst (entries m'))"
    and o: "sorted (map fst (entries m))" "sorted (map fst (entries m'))"
    by (simp_all add: strict_sorted_iff)
  have "map_of (entries m) = map_of (entries m')"
    using assms by (auto simp: entries_lookup fun_eq_iff)
  with d have "set (entries m) = set (entries m')"
    by (metis map_of_eq_Some_iff subsetI subset_antisym surj_pair)
  then show ?thesis
    using map_sorted_distinct_set_unique [of fst "entries m" "entries m'"] d o
    by (metis distinct_map inj_on_Un_image_eq_iff sup.idem)
qed

lemma of_list_order:
  assumes "distinct (map fst kvs)" "set kvs = set kvs'" "distinct (map fst kvs')"
  shows "entries (of_list kvs) = entries (of_list kvs')"
proof (rule entries_unique)
  fix k
  have "map_of (rev kvs) k = map_of (rev kvs') k"
    using assms by (metis (no_types, lifting) distinct_rev map_of_inject_set rev_map set_rev)
  then show "lookup (of_list kvs) k = lookup (of_list kvs') k"
    by (simp add: of_list_lookup)
qed (simp_all add: of_list_lookup)

end

section \<open>Sorted association lists\<close>

fun bt_insert :: "'k::linorder \<Rightarrow> 'v \<Rightarrow> ('k \<times> 'v) list \<Rightarrow> ('k \<times> 'v) list" where
  "bt_insert k v [] = [(k, v)]"
| "bt_insert k v ((k', v') # m) =
     (if k < k' then (k, v) # (k', v') # m
      else if k = k' then (k, v) # m
      else (k', v') # bt_insert k v m)"

definition bt_ok :: "('k::linorder \<times> 'v) list \<Rightarrow> bool" where
  "bt_ok m \<longleftrightarrow> sorted_wrt (<) (map fst m)"

lemma fst_set_bt_insert: "fst ` set (bt_insert k v m) = insert k (fst ` set m)"
  by (induction k v m rule: bt_insert.induct) (simp_all add: insert_commute)

lemma bt_ok_insert: "bt_ok m \<Longrightarrow> bt_ok (bt_insert k v m)"
proof (induction m)
  case Nil
  show ?case by (simp add: bt_ok_def)
next
  case (Cons kv m)
  obtain a b where kv: "kv = (a, b)" by fastforce
  have lt: "\<forall>x \<in> fst ` set m. a < x" and m: "bt_ok m"
    using Cons.prems by (auto simp: bt_ok_def kv)
  then have "k \<noteq> a \<Longrightarrow> \<not> k < a \<Longrightarrow> \<forall>x \<in> fst ` set (bt_insert k v m). a < x"
    by (auto simp: fst_set_bt_insert)
  then show ?case
    using Cons.IH [OF m] lt m by (auto simp: bt_ok_def kv intro: order.strict_trans)
qed

lemma map_of_bt_insert:
  "bt_ok m \<Longrightarrow> map_of (bt_insert k v m) k' = (if k' = k then Some v else map_of m k')"
  by (induction m) (auto simp: bt_ok_def)

interpretation bt: ordered_map "[]" bt_insert map_of "\<lambda>m. m" bt_ok
  by unfold_locales (auto simp: bt_ok_insert map_of_bt_insert, auto simp: bt_ok_def)

end
