(* ===== verification/Values.thy ===== *)
theory Values
  imports Errors Btree
begin

text \<open>
  The option values of \<open>opendal/src/config/value.rs\<close>: integers, floats, booleans, byte sizes
  and durations, each with its error message.  The size and duration grammars of the
  \<open>human-units\<close> crate and the Unicode number category beyond ASCII are not in the
  repository: they are parameters (\<open>text_env\<close>).  \<open>usize\<close> has 64 bits.
\<close>

record text_env =
  uni_numeric :: "nat \<Rightarrow> bool" \<comment> \<open>\<open>char::is_numeric\<close> on code points above 127\<close>
  parse_iec :: "string \<Rightarrow> u64 option" \<comment> \<open>\<open>parse::<human_units::iec::Byte>\<close>\<close>
  parse_duration :: "string \<Rightarrow> duration option" \<comment> \<open>\<open>parse::<human_units::Duration>\<close>\<close>

type_synonym 'a parsed = "string + 'a"

section \<open>Error texts\<close>

definition quoted :: "string \<Rightarrow> string" where
  "quoted s = CHR 0x27 # s @ [CHR 0x27]"

definition unknown_key :: "string \<Rightarrow> string \<Rightarrow> string" where
  "unknown_key sec key = ''unknown OpenDAL option '' @ quoted (sec @ ''.'' @ key)"

definition invalid :: "string \<Rightarrow> string \<Rightarrow> string \<Rightarrow> string \<Rightarrow> string" where
  "invalid sec key val expected =
     ''invalid '' @ sec @ ''.'' @ key @ ''='' @ quoted val @ '': '' @ expected"

section \<open>Integers, floats, booleans, paths\<close>

text \<open>Decimal display of an unsigned integer, as \<open>format!\<close> prints it.\<close>

fun show_nat :: "nat \<Rightarrow> string" where
  "show_nat n = (if n < 10 then [char_of (48 + n)] else show_nat (n div 10) @ [char_of (48 + n mod 10)])"

declare show_nat.simps [simp del]

text \<open>\<open>u64::from_str\<close>: an optional plus sign, at least one digit, no overflow.\<close>

definition parse_u64 :: "string \<Rightarrow> u64 option" where
  "parse_u64 s =
     (let t = (if s \<noteq> [] \<and> hd s = CHR ''+'' then tl s else s)
      in if t = [] \<or> \<not> list_all is_digit t then None
         else if digits_value 0 t < 2 ^ 64 then Some (of_nat (digits_value 0 t)) else None)"

definition positive_usize :: "string \<Rightarrow> string \<Rightarrow> string \<Rightarrow> u64 parsed" where
  "positive_usize sec key val =
     (case parse_u64 val of
        Some n \<Rightarrow> if n \<noteq> 0 then Inr n else Inl (invalid sec key val ''expected a positive integer'')
      | None \<Rightarrow> Inl (invalid sec key val ''expected a positive integer''))"

definition usize_value :: "string \<Rightarrow> string \<Rightarrow> string \<Rightarrow> u64 parsed" where
  "usize_value sec key val =
     (case parse_u64 val of Some n \<Rightarrow> Inr n
      | None \<Rightarrow> Inl (invalid sec key val ''expected a non-negative integer''))"

definition float :: "string \<Rightarrow> string \<Rightarrow> string \<Rightarrow> f32 parsed" where
  "float sec key val =
     (case parse_f32 val of Some f \<Rightarrow> Inr f
      | None \<Rightarrow> Inl (invalid sec key val ''expected a number''))"

definition boolean :: "string \<Rightarrow> string \<Rightarrow> string \<Rightarrow> bool parsed" where
  "boolean sec key val =
     (if val = ''true'' \<or> val = ''1'' then Inr True
      else if val = ''false'' \<or> val = ''0'' then Inr False
      else Inl (invalid sec key val ''expected true, false, 1, or 0''))"

definition non_empty_path :: "string \<Rightarrow> string \<Rightarrow> string \<Rightarrow> string parsed" where
  "non_empty_path sec key val =
     (if val = [] then Inl (invalid sec key val ''path must not be empty'') else Inr val)"

section \<open>Byte sizes\<close>

datatype byte_size = ByteSize (size_get: u64)

instantiation byte_size :: linorder
begin

definition less_eq_byte_size :: "byte_size \<Rightarrow> byte_size \<Rightarrow> bool" where
  "less_eq_byte_size a b \<longleftrightarrow> size_get a \<le> size_get b"

definition less_byte_size :: "byte_size \<Rightarrow> byte_size \<Rightarrow> bool" where
  "less_byte_size a b \<longleftrightarrow> size_get a < size_get b"

instance
  by intro_classes (auto simp: less_eq_byte_size_def less_byte_size_def byte_size.expand)

end

definition char_is_numeric :: "text_env \<Rightarrow> string \<Rightarrow> bool" where
  "char_is_numeric te c =
     (let n = code_point c in if n < 128 then 48 \<le> n \<and> n \<le> 57 else uni_numeric te n)"

fun last_index :: "('a \<Rightarrow> bool) \<Rightarrow> 'a list \<Rightarrow> nat option" where
  "last_index P [] = None"
| "last_index P (x # xs) =
     (case last_index P xs of Some i \<Rightarrow> Some (Suc i) | None \<Rightarrow> if P x then Some 0 else None)"

text \<open>The factor of a unit, and whether it counts bits.\<close>

definition size_unit :: "string \<Rightarrow> (nat \<times> bool) option" where
  "size_unit u = map_of
     [(''B'', (1, False)), (''kB'', (10 ^ 3, False)), (''KB'', (10 ^ 3, False)),
      (''MB'', (10 ^ 6, False)), (''GB'', (10 ^ 9, False)), (''TB'', (10 ^ 12, False)),
      (''PB'', (10 ^ 15, False)), (''EB'', (10 ^ 18, False)),
      (''b'', (1, True)), (''kb'', (10 ^ 3, True)), (''Mb'', (10 ^ 6, True)),
      (''Gb'', (10 ^ 9, True)), (''Tb'', (10 ^ 12, True)),
      (''Kib'', (2 ^ 10, True)), (''Mib'', (2 ^ 20, True)), (''Gib'', (2 ^ 30, True)),
      (''Tib'', (2 ^ 40, True)), (''Pib'', (2 ^ 50, True)), (''Eib'', (2 ^ 60, True))] u"

definition str_chars :: "string \<Rightarrow> string list" where
  "str_chars s = (case utf8_chars s of Some cs \<Rightarrow> cs | None \<Rightarrow> [])"

text \<open>The number and the unit a suffix form splits into: the slice \<open>..=split\<close> panics unless it
  ends at a character boundary, that is, unless the last numeric character is one byte long.\<close>

definition parse_suffixed :: "text_env \<Rightarrow> string list \<Rightarrow> u64 option outcome" where
  "parse_suffixed te cs =
     (case last_index (char_is_numeric te) cs of None \<Rightarrow> Ret None
      | Some i \<Rightarrow>
          if length (cs ! i) \<noteq> 1 then Panic
          else (case parse_u64 (concat (trim_chars (take (Suc i) cs))) of None \<Rightarrow> Ret None
            | Some number \<Rightarrow>
                (case size_unit (concat (trim_chars (drop (Suc i) cs))) of None \<Rightarrow> Ret None
                 | Some (factor, bits) \<Rightarrow>
                     (case checked_mul number (of_nat factor) of None \<Rightarrow> Ret None
                      | Some v \<Rightarrow>
                          Ret (if bits then (if v mod 8 = 0 then Some (v div 8) else None)
                               else Some v)))))"

definition parse_bytes :: "text_env \<Rightarrow> string \<Rightarrow> u64 option outcome" where
  "parse_bytes te value =
     (let cs = trim_chars (str_chars value); trimmed = concat cs
      in case parse_u64 trimmed of Some b \<Rightarrow> Ret (Some b)
         | None \<Rightarrow> (case parse_iec te trimmed of Some b \<Rightarrow> Ret (Some b)
             | None \<Rightarrow> parse_suffixed te cs))"

definition size_hint :: string where
  "size_hint = ''expected bytes or a size such as '' @ quoted ''8 MB'' @ '', '' @ quoted ''8 MiB''
     @ '', or '' @ quoted ''64 Mib''"

definition byte_size_parse ::
  "text_env \<Rightarrow> string \<Rightarrow> string \<Rightarrow> string \<Rightarrow> byte_size parsed outcome" where
  "byte_size_parse te sec key val =
     outcome_bind (parse_bytes te val) (\<lambda>r. Ret (case r of
        Some b \<Rightarrow> Inr (ByteSize b)
      | None \<Rightarrow> Inl (invalid sec key val size_hint)))"

section \<open>Durations\<close>

datatype human_duration = HumanDuration (duration_get: duration)

instantiation human_duration :: linorder
begin

definition less_eq_human_duration :: "human_duration \<Rightarrow> human_duration \<Rightarrow> bool" where
  "less_eq_human_duration a b \<longleftrightarrow> duration_get a \<le> duration_get b"

definition less_human_duration :: "human_duration \<Rightarrow> human_duration \<Rightarrow> bool" where
  "less_human_duration a b \<longleftrightarrow> duration_get a < duration_get b"

instance
  by intro_classes (auto simp: less_eq_human_duration_def less_human_duration_def human_duration.expand)

end

definition duration_parse ::
  "text_env \<Rightarrow> string \<Rightarrow> string \<Rightarrow> string \<Rightarrow> human_duration parsed" where
  "duration_parse te sec key val =
     (case parse_duration te val of Some d \<Rightarrow> Inr (HumanDuration d)
      | None \<Rightarrow> Inl (invalid sec key val
          (''expected seconds or a duration such as '' @ quoted ''500ms'')))"

definition duration_is_zero :: "human_duration \<Rightarrow> bool" where
  "duration_is_zero d \<longleftrightarrow> duration_get d = 0"

section \<open>Lemmas\<close>

subsection \<open>Decimal numbers\<close>

lemma digits_value_append: "digits_value a (s @ [c]) = 10 * digits_value a s + digit_value c"
  by (induction s arbitrary: a) simp_all

lemma digit_char: "d < 10 \<Longrightarrow> is_digit (char_of (48 + d)) \<and> digit_value (char_of (48 + d)) = d"
  by (auto simp: is_digit_def digit_value_def less_eq_char_def take_bit_eq_mod)

lemma show_nat_digits: "show_nat n \<noteq> [] \<and> list_all is_digit (show_nat n)"
proof (induction n rule: show_nat.induct)
  case (1 n)
  then show ?case
    using digit_char [of n] digit_char [of "n mod 10"] by (subst (1 2) show_nat.simps) auto
qed

lemma digits_value_show_nat: "digits_value 0 (show_nat n) = n"
proof (induction n rule: show_nat.induct)
  case (1 n)
  then show ?case
    using digit_char [of n] digit_char [of "n mod 10"]
    by (subst show_nat.simps) (auto simp: digits_value_append)
qed

lemma is_digit_ascii: "is_digit c \<Longrightarrow> is_ascii c \<and> c \<noteq> CHR ''+'' \<and> \<not> is_whitespace (of_char c)"
  by (auto simp: is_digit_def less_eq_char_def is_ascii_def is_whitespace_def)

lemma parse_u64_show_nat: "parse_u64 (show_nat n) = (if n < 2 ^ 64 then Some (of_nat n) else None)"
proof -
  have "hd (show_nat n) \<noteq> CHR ''+''"
    using show_nat_digits [of n] is_digit_ascii [of "hd (show_nat n)"] by (cases "show_nat n") auto
  then show ?thesis
    using show_nat_digits [of n] by (simp add: parse_u64_def digits_value_show_nat)
qed

lemma str_chars_ascii: "list_all is_ascii s \<Longrightarrow> str_chars s = map (\<lambda>c. [c]) s"
  unfolding str_chars_def by (induction s) (auto split: option.splits)

lemma trim_chars_none:
  "(\<And>c. c \<in> set s \<Longrightarrow> \<not> is_whitespace (code_point c)) \<Longrightarrow> trim_chars s = s"
proof -
  assume "\<And>c. c \<in> set s \<Longrightarrow> \<not> is_whitespace (code_point c)"
  then have "dropWhile (\<lambda>c. is_whitespace (code_point c)) t = t" if "set t \<subseteq> set s" for t
    using that by (cases t) auto
  then show ?thesis by (simp add: trim_chars_def)
qed

lemma concat_singletons [simp]: "concat (map (\<lambda>c. [c]) s) = s"
  by (induction s) simp_all

subsection \<open>Sizes\<close>

lemma size_unit_bound:
  assumes "size_unit u = Some (f, bits)"
  shows "f < 2 ^ 64"
  using assms by (auto simp: size_unit_def split: if_splits)

lemma last_index_Some_iff [result_iff]:
  "last_index P xs = Some i \<longleftrightarrow> i < length xs \<and> P (xs ! i) \<and> (\<forall>x \<in> set (drop (Suc i) xs). \<not> P x)"
proof (induction xs arbitrary: i)
  case Nil
  show ?case by simp
next
  case (Cons x xs)
  have none: "last_index P xs = None \<longleftrightarrow> (\<forall>x \<in> set xs. \<not> P x)" for xs :: "'a list"
    by (induction xs) (auto split: option.splits)
  show ?case
  proof (cases "last_index P xs")
    case None
    with none [of xs] show ?thesis by (cases i) auto
  next
    case (Some j)
    with Cons.IH [of j] have j: "j < length xs" "P (xs ! j)" "\<forall>x \<in> set (drop (Suc j) xs). \<not> P x"
      by simp_all
    show ?thesis
    proof (cases i)
      case 0
      moreover from j have "\<exists>x \<in> set xs. P x" by (intro bexI [of _ "xs ! j"]) simp_all
      ultimately show ?thesis using Some by auto
    next
      case (Suc k)
      with Some Cons.IH [of k] show ?thesis by simp
    qed
  qed
qed

lemma parse_suffixed_SomeD:
  assumes "parse_suffixed te cs = Ret (Some b)"
  obtains pre suf n f bits where "cs = pre @ suf" "pre \<noteq> []" "char_is_numeric te (last pre)"
    "\<forall>c \<in> set suf. \<not> char_is_numeric te c" "parse_u64 (concat (trim_chars pre)) = Some n"
    "size_unit (concat (trim_chars suf)) = Some (f, bits)"
    "unat n * f = (if bits then 8 else 1) * unat b"
proof -
  from assms obtain i n f bits v where i: "last_index (char_is_numeric te) cs = Some i"
    and n: "parse_u64 (concat (trim_chars (take (Suc i) cs))) = Some n"
    and u: "size_unit (concat (trim_chars (drop (Suc i) cs))) = Some (f, bits)"
    and v: "checked_mul n (of_nat f) = Some v"
    and b: "if bits then v mod 8 = 0 \<and> b = v div 8 else b = v"
    by (auto simp: parse_suffixed_def split: option.splits if_splits)
  have "unat (of_nat f :: u64) = f"
    using size_unit_bound [OF u] by (simp add: unsigned_of_nat take_bit_nat_eq_self)
  with v have nf: "unat v = unat n * f" by (simp add: checked_mul_Some_iff)
  have "unat v = (if bits then 8 else 1) * unat b"
  proof (cases bits)
    case True
    with b have m: "v mod 8 = 0" "b = v div 8" by simp_all
    have "unat (v mod 8) = unat v mod 8" "unat (v div 8) = unat v div 8"
      by (simp_all add: unat_mod_distrib unat_div_distrib)
    with m have "unat v mod 8 = 0" "unat b = unat v div 8" by simp_all
    with True show ?thesis by auto
  qed (use b in simp)
  moreover from i have "i < length cs" "char_is_numeric te (cs ! i)"
    "\<forall>c \<in> set (drop (Suc i) cs). \<not> char_is_numeric te c"
    by (simp_all add: last_index_Some_iff)
  moreover from this have "last (take (Suc i) cs) = cs ! i" by (simp add: take_Suc_conv_app_nth)
  ultimately show thesis
    using nf by (intro that [OF _ _ _ _ n u]) auto
qed

lemma parse_bytes_digits:
  assumes "n < 2 ^ 64"
  shows "parse_bytes te (show_nat n) = Ret (Some (of_nat n))"
proof -
  have d: "list_all is_digit (show_nat n)" using show_nat_digits by simp
  then have "list_all is_ascii (show_nat n)"
    by (rule list.pred_mono_strong) (simp add: is_digit_ascii)
  then have "str_chars (show_nat n) = map (\<lambda>c. [c]) (show_nat n)" by (rule str_chars_ascii)
  moreover have "\<not> is_whitespace (code_point [c])" if "c \<in> set (show_nat n)" for c
    using d that is_digit_ascii [of c] by (simp add: list_all_iff)
  then have "trim_chars (map (\<lambda>c. [c]) (show_nat n)) = map (\<lambda>c. [c]) (show_nat n)"
    by (intro trim_chars_none) (simp only: set_map image_iff, blast)
  ultimately show ?thesis
    using assms by (simp only: parse_bytes_def Let_def concat_singletons parse_u64_show_nat if_True option.case)
qed

section \<open>Properties\<close>

text \<open>
  C36: a size that parses is exact: it is the plain integer the trimmed text spells, or what
  the IEC parser returns, or the text splits after its last numeric character into a number and
  a unit, and the number times the unit's factor is the number of bytes (for bit units, eight
  times it): nothing wraps around and no fraction of a byte is dropped.
\<close>

theorem parse_bytes_exact:
  assumes "parse_bytes te val = Ret (Some b)"
  shows "let cs = trim_chars (str_chars val) in
    parse_u64 (concat cs) = Some b \<or> parse_iec te (concat cs) = Some b
    \<or> (\<exists>pre suf n f bits. cs = pre @ suf \<and> pre \<noteq> [] \<and> char_is_numeric te (last pre)
        \<and> (\<forall>c \<in> set suf. \<not> char_is_numeric te c) \<and> parse_u64 (concat (trim_chars pre)) = Some n
        \<and> size_unit (concat (trim_chars suf)) = Some (f, bits)
        \<and> unat n * f = (if bits then 8 else 1) * unat b)"
proof -
  let ?cs = "trim_chars (str_chars val)"
  show ?thesis
  proof (cases "parse_u64 (concat ?cs) = None \<and> parse_iec te (concat ?cs) = None")
    case True
    with assms have "parse_suffixed te ?cs = Ret (Some b)"
      by (simp add: parse_bytes_def Let_def)
    then show ?thesis by (elim parse_suffixed_SomeD) (simp only: Let_def, blast)
  next
    case False
    with assms show ?thesis by (auto simp: parse_bytes_def Let_def split: option.splits)
  qed
qed

theorem parse_bytes_exact_witness:
  "\<exists>pre suf n f bits. (map (\<lambda>c. [c]) ''64 Mib'' = pre @ suf) \<and> parse_u64 (concat (trim_chars pre)) = Some n
     \<and> size_unit (concat (trim_chars suf)) = Some (f, bits) \<and> unat n * f = (if bits then 8 else 1) * unat (8388608 :: u64)"
proof -
  let ?te = "\<lparr>uni_numeric = \<lambda>_. False, parse_iec = \<lambda>_. None, parse_duration = \<lambda>_. None\<rparr>"
  have cs: "trim_chars (str_chars ''64 Mib'') = map (\<lambda>c. [c]) ''64 Mib''"
    by (simp add: str_chars_def is_ascii_def trim_chars_def is_whitespace_def)
  have num: "trim_chars [''6'', ''4''] = [''6'', ''4'']" and un: "trim_chars ['' '', ''M'', ''i'', ''b''] = [''M'', ''i'', ''b'']"
    by (simp_all add: trim_chars_def is_whitespace_def)
  have n: "parse_u64 ''64'' = Some 64" "parse_u64 ''64 Mib'' = None"
    by (simp_all add: parse_u64_def is_digit_def less_eq_char_def digit_value_def)
  have "last_index (char_is_numeric ?te) (map (\<lambda>c. [c]) ''64 Mib'') = Some 1"
    by (simp add: char_is_numeric_def)
  then have "parse_bytes ?te ''64 Mib'' = Ret (Some 8388608)"
    using n unfolding parse_bytes_def Let_def cs
    by (simp add: parse_suffixed_def num un size_unit_def checked_mul_def)
  from parse_bytes_exact [OF this, unfolded cs Let_def concat_singletons] n(2) show ?thesis
    by (elim disjE) (simp, simp, elim exE conjE, intro exI conjI, assumption+)
qed

text \<open>
  The decimal form of a size parses back to it, for every 64-bit size, and a decimal number
  that does not fit 64 bits is no plain size.
\<close>

lemma byte_size_round_trip:
  "byte_size_parse te sec key (show_nat (unat n)) = Ret (Inr (ByteSize n))
   \<and> (2 ^ 64 \<le> m \<longleftrightarrow> parse_u64 (show_nat m) = None)"
proof -
  have "unat n < 2 ^ 64" by (rule order_less_le_trans [OF unsigned_less]) simp
  from parse_bytes_digits [OF this] show ?thesis
    by (simp add: byte_size_parse_def parse_u64_show_nat not_less)
qed

text \<open>
  Parsing a size unwinds exactly when the trimmed text is neither a plain nor an IEC size
  and its last numeric character takes more than one byte, because the slice up to that byte is
  no character boundary.
\<close>

lemma parse_bytes_panics_iff:
  "parse_bytes te val = Panic \<longleftrightarrow>
     (let cs = trim_chars (str_chars val) in
      parse_u64 (concat cs) = None \<and> parse_iec te (concat cs) = None
      \<and> (\<exists>pre c suf. cs = pre @ c # suf \<and> char_is_numeric te c \<and> length c \<noteq> 1
           \<and> list_all (\<lambda>d. \<not> char_is_numeric te d) suf))"
proof -
  let ?cs = "trim_chars (str_chars val)"
  have "parse_suffixed te ?cs = Panic \<longleftrightarrow>
      (\<exists>i. last_index (char_is_numeric te) ?cs = Some i \<and> length (?cs ! i) \<noteq> 1)"
    by (auto simp: parse_suffixed_def split: option.splits)
  also have "\<dots> \<longleftrightarrow> (\<exists>pre c suf. ?cs = pre @ c # suf \<and> char_is_numeric te c \<and> length c \<noteq> 1
           \<and> list_all (\<lambda>d. \<not> char_is_numeric te d) suf)"
    (is "?A \<longleftrightarrow> ?B")
  proof
    assume ?A
    then obtain i where "i < length ?cs" "char_is_numeric te (?cs ! i)" "length (?cs ! i) \<noteq> 1"
      "\<forall>d \<in> set (drop (Suc i) ?cs). \<not> char_is_numeric te d"
      by (auto simp: last_index_Some_iff)
    then show ?B using id_take_nth_drop [of i ?cs] by (auto simp: list_all_iff)
  next
    assume ?B
    then obtain pre c suf where "?cs = pre @ c # suf" "char_is_numeric te c" "length c \<noteq> 1"
      "list_all (\<lambda>d. \<not> char_is_numeric te d) suf" by blast
    then show ?A by (intro exI [of _ "length pre"]) (simp add: last_index_Some_iff list_all_iff)
  qed
  finally show ?thesis
    by (auto simp: parse_bytes_def Let_def split: option.splits)
qed

end
