(* ===== verification/Config.thy ===== *)
theory Config
  imports Values
begin

text \<open>
  The cross-service options of an operator (\<open>opendal/src/config\<close>): the sections \<open>io\<close>, \<open>retry\<close>,
  \<open>timeout\<close> and \<open>cache\<close>, each parsed from its sorted key/value map, and the layers they put on an
  operator.  Parsing may panic, because a byte size may.
\<close>

section \<open>The question mark operator and the option loop\<close>

definition question :: "'a parsed outcome \<Rightarrow> ('a \<Rightarrow> 'b parsed outcome) \<Rightarrow> 'b parsed outcome" where
  "question m f = (case m of Panic \<Rightarrow> Panic | Ret (Inl e) \<Rightarrow> Ret (Inl e) | Ret (Inr a) \<Rightarrow> f a)"

lemma question_simps [simp]:
  "question Panic f = Panic"
  "question (Ret (Inl e)) f = Ret (Inl e)"
  "question (Ret (Inr a)) f = f a"
  by (simp_all add: question_def)

lemma question_ok_iff [result_iff]:
  "question m f = Ret (Inr b) \<longleftrightarrow> (\<exists>a. m = Ret (Inr a) \<and> f a = Ret (Inr b))"
  by (auto simp: question_def split: outcome.splits sum.splits)

fun apply_options ::
  "(string \<Rightarrow> string \<Rightarrow> 'c \<Rightarrow> 'c parsed outcome) \<Rightarrow> (string \<times> string) list \<Rightarrow> 'c \<Rightarrow> 'c parsed outcome"
where
  "apply_options f [] c = Ret (Inr c)"
| "apply_options f ((k, v) # kvs) c = question (f k v c) (apply_options f kvs)"

lemma apply_options_invariant:
  assumes "apply_options f kvs c = Ret (Inr c')" and "P c"
    and "\<And>k v c d. P c \<Longrightarrow> f k v c = Ret (Inr d) \<Longrightarrow> P d"
  shows "P c'"
  using assms(1,2)
proof (induction kvs arbitrary: c)
  case Nil
  then show ?case by simp
next
  case (Cons kv kvs)
  then obtain d where "f (fst kv) (snd kv) c = Ret (Inr d)" "apply_options f kvs d = Ret (Inr c')"
    by (cases kv) (auto simp: result_iff)
  with Cons.IH [of d] Cons.prems(2) assms(3) show ?case by blast
qed

section \<open>config/io.rs\<close>

record direction_config =
  concurrent :: "u64 option"
  chunk_size :: "byte_size option"

record io_config =
  io_read :: direction_config
  io_write :: direction_config
  concurrent_limit :: "u64 option"

definition default_direction :: direction_config where
  "default_direction = \<lparr>concurrent = None, chunk_size = None\<rparr>"

definition default_io :: io_config where
  "default_io = \<lparr>io_read = default_direction, io_write = default_direction, concurrent_limit = None\<rparr>"

definition zero_chunk :: "string \<Rightarrow> string" where
  "zero_chunk key = ''invalid io.'' @ key @ ''='' @ quoted ''0'' @ '': expected a positive size''"

definition io_option :: "text_env \<Rightarrow> string \<Rightarrow> string \<Rightarrow> io_config \<Rightarrow> io_config parsed outcome" where
  "io_option te key val c =
     (if key = ''read.concurrent'' then
        question (Ret (positive_usize ''io'' key val)) (\<lambda>n.
          Ret (Inr (c\<lparr>io_read := (io_read c)\<lparr>concurrent := Some n\<rparr>\<rparr>)))
      else if key = ''read.chunk_size'' then
        question (byte_size_parse te ''io'' key val) (\<lambda>size.
          if size_get size = 0 then Ret (Inl (zero_chunk ''read.chunk_size''))
          else Ret (Inr (c\<lparr>io_read := (io_read c)\<lparr>chunk_size := Some size\<rparr>\<rparr>)))
      else if key = ''write.concurrent'' then
        question (Ret (positive_usize ''io'' key val)) (\<lambda>n.
          Ret (Inr (c\<lparr>io_write := (io_write c)\<lparr>concurrent := Some n\<rparr>\<rparr>)))
      else if key = ''write.chunk_size'' then
        question (byte_size_parse te ''io'' key val) (\<lambda>size.
          if size_get size = 0 then Ret (Inl (zero_chunk ''write.chunk_size''))
          else Ret (Inr (c\<lparr>io_write := (io_write c)\<lparr>chunk_size := Some size\<rparr>\<rparr>)))
      else if key = ''concurrent_limit'' then
        question (Ret (positive_usize ''io'' key val)) (\<lambda>n.
          Ret (Inr (c\<lparr>concurrent_limit := Some n\<rparr>)))
      else Ret (Inl (unknown_key ''io'' key)))"

definition io_parse :: "text_env \<Rightarrow> (string \<times> string) list \<Rightarrow> io_config parsed outcome" where
  "io_parse te kvs = apply_options (io_option te) kvs default_io"

definition io_apply_layer :: "io_config \<Rightarrow> operator \<Rightarrow> operator" where
  "io_apply_layer c op =
     (case concurrent_limit c of Some limit \<Rightarrow> add_layer op (ConcurrentLimitLayer limit) | None \<Rightarrow> op)"

definition read_chunk :: "io_config \<Rightarrow> u64 option" where
  "read_chunk c = map_option size_get (chunk_size (io_read c))"

definition write_chunk :: "io_config \<Rightarrow> u64 option" where
  "write_chunk c = map_option size_get (chunk_size (io_write c))"

section \<open>config/retry.rs\<close>

record retry_config =
  max_times :: "u64 option"
  factor :: "f32 option"
  jitter :: bool
  min_delay :: "human_duration option"
  max_delay :: "human_duration option"

definition default_retry :: retry_config where
  "default_retry =
     \<lparr>max_times = None, factor = None, jitter = False, min_delay = None, max_delay = None\<rparr>"

definition retry_option ::
  "text_env \<Rightarrow> string \<Rightarrow> string \<Rightarrow> retry_config \<Rightarrow> retry_config parsed outcome" where
  "retry_option te key val c =
     (if key = ''max_times'' then
        question (Ret (usize_value ''retry'' key val)) (\<lambda>n. Ret (Inr (c\<lparr>max_times := Some n\<rparr>)))
      else if key = ''factor'' then
        question (Ret (float ''retry'' key val)) (\<lambda>f.
          if \<not> f32_is_finite f \<or> f32_lt_one f
          then Ret (Inl (''invalid retry.factor='' @ quoted val @ '': expected a finite number >= 1''))
          else Ret (Inr (c\<lparr>factor := Some f\<rparr>)))
      else if key = ''jitter'' then
        question (Ret (boolean ''retry'' key val)) (\<lambda>b. Ret (Inr (c\<lparr>jitter := b\<rparr>)))
      else if key = ''min_delay'' then
        question (Ret (duration_parse te ''retry'' key val)) (\<lambda>d. Ret (Inr (c\<lparr>min_delay := Some d\<rparr>)))
      else if key = ''max_delay'' then
        question (Ret (duration_parse te ''retry'' key val)) (\<lambda>d. Ret (Inr (c\<lparr>max_delay := Some d\<rparr>)))
      else Ret (Inl (unknown_key ''retry'' key)))"

definition retry_parse ::
  "text_env \<Rightarrow> (string \<times> string) list \<Rightarrow> retry_config option parsed outcome" where
  "retry_parse te kvs =
     (if kvs = [] then Ret (Inr None)
      else question (apply_options (retry_option te) kvs default_retry) (\<lambda>c.
        case (min_delay c, max_delay c) of
          (Some lo, Some hi) \<Rightarrow>
            if lo > hi then Ret (Inl ''retry.min_delay must not exceed retry.max_delay'')
            else Ret (Inr (Some c))
        | _ \<Rightarrow> Ret (Inr (Some c))))"

definition retry_apply :: "retry_config \<Rightarrow> operator \<Rightarrow> operator" where
  "retry_apply c op = add_layer op (RetryLayer
     \<lparr>rl_max_times = max_times c, rl_factor = factor c, rl_jitter = jitter c,
      rl_min_delay = map_option duration_get (min_delay c),
      rl_max_delay = map_option duration_get (max_delay c)\<rparr>)"

section \<open>config/timeout.rs\<close>

record timeout_config =
  operation_timeout :: "human_duration option"
  io_timeout :: "human_duration option"

definition default_timeout :: timeout_config where
  "default_timeout = \<lparr>operation_timeout = None, io_timeout = None\<rparr>"

definition timeout_option ::
  "text_env \<Rightarrow> string \<Rightarrow> string \<Rightarrow> timeout_config \<Rightarrow> timeout_config parsed outcome" where
  "timeout_option te key val c =
     question (Ret (duration_parse te ''timeout'' key val)) (\<lambda>d.
       if duration_is_zero d
       then Ret (Inl (''invalid timeout.'' @ key @ ''='' @ quoted val @ '': duration must be positive''))
       else if key = ''operation_timeout'' then Ret (Inr (c\<lparr>operation_timeout := Some d\<rparr>))
       else if key = ''io_timeout'' then Ret (Inr (c\<lparr>io_timeout := Some d\<rparr>))
       else Ret (Inl (unknown_key ''timeout'' key)))"

definition timeout_parse ::
  "text_env \<Rightarrow> (string \<times> string) list \<Rightarrow> timeout_config option parsed outcome" where
  "timeout_parse te kvs =
     (if kvs = [] then Ret (Inr None)
      else question (apply_options (timeout_option te) kvs default_timeout) (\<lambda>c. Ret (Inr (Some c))))"

definition timeout_apply :: "timeout_config \<Rightarrow> operator \<Rightarrow> operator" where
  "timeout_apply c op = add_layer op (TimeoutLayer
     \<lparr>tl_timeout = map_option duration_get (operation_timeout c),
      tl_io_timeout = map_option duration_get (io_timeout c)\<rparr>)"

section \<open>config/cache.rs\<close>

record cache_config =
  memory_size :: byte_size
  disk_path :: "string option"
  disk_size :: byte_size
  block_size :: byte_size
  min_file_size :: byte_size
  max_file_size :: "byte_size option"
  shards :: u64

definition cache_default :: "text_env \<Rightarrow> cache_config parsed outcome" where
  "cache_default te =
     question (byte_size_parse te ''cache'' ''memory_size'' ''256 MiB'') (\<lambda>m.
     question (byte_size_parse te ''cache'' ''disk_size'' ''1 GiB'') (\<lambda>d.
     question (byte_size_parse te ''cache'' ''block_size'' ''4 MiB'') (\<lambda>b.
     question (byte_size_parse te ''cache'' ''min_file_size'' ''0'') (\<lambda>f.
       Ret (Inr \<lparr>memory_size = m, disk_path = None, disk_size = d, block_size = b,
         min_file_size = f, max_file_size = None, shards = 4\<rparr>)))))"

definition cache_option ::
  "text_env \<Rightarrow> string \<Rightarrow> string \<Rightarrow> cache_config \<Rightarrow> cache_config parsed outcome" where
  "cache_option te key val c =
     (if key = ''memory_size'' then
        question (byte_size_parse te ''cache'' key val) (\<lambda>s. Ret (Inr (c\<lparr>memory_size := s\<rparr>)))
      else if key = ''disk_path'' then
        question (Ret (non_empty_path ''cache'' key val)) (\<lambda>p. Ret (Inr (c\<lparr>disk_path := Some p\<rparr>)))
      else if key = ''disk_size'' then
        question (byte_size_parse te ''cache'' key val) (\<lambda>s. Ret (Inr (c\<lparr>disk_size := s\<rparr>)))
      else if key = ''block_size'' then
        question (byte_size_parse te ''cache'' key val) (\<lambda>s. Ret (Inr (c\<lparr>block_size := s\<rparr>)))
      else if key = ''min_file_size'' then
        question (byte_size_parse te ''cache'' key val) (\<lambda>s. Ret (Inr (c\<lparr>min_file_size := s\<rparr>)))
      else if key = ''max_file_size'' then
        question (byte_size_parse te ''cache'' key val) (\<lambda>s. Ret (Inr (c\<lparr>max_file_size := Some s\<rparr>)))
      else if key = ''shards'' then
        question (Ret (positive_usize ''cache'' key val)) (\<lambda>n. Ret (Inr (c\<lparr>shards := n\<rparr>)))
      else Ret (Inl (unknown_key ''cache'' key)))"

definition cache_check :: "cache_config \<Rightarrow> cache_config option parsed" where
  "cache_check c =
     (let zero = (\<lambda>key. ''invalid cache.'' @ key @ ''='' @ quoted ''0'' @ '': expected a positive size'')
      in if size_get (memory_size c) = 0 then Inl (zero ''memory_size'')
         else if size_get (disk_size c) = 0 then Inl (zero ''disk_size'')
         else if size_get (block_size c) = 0 then Inl (zero ''block_size'')
         else (case max_file_size c of
             Some hi \<Rightarrow>
               if min_file_size c > hi
               then Inl ''cache.min_file_size must not exceed cache.max_file_size''
               else Inr (Some c)
           | None \<Rightarrow> Inr (Some c)))"

definition cache_parse ::
  "text_env \<Rightarrow> (string \<times> string) list \<Rightarrow> cache_config option parsed outcome" where
  "cache_parse te kvs =
     (if kvs = [] then Ret (Inr None)
      else question (cache_default te) (\<lambda>c0.
        question (apply_options (cache_option te) kvs c0) (\<lambda>c. Ret (cache_check c))))"

text \<open>\<open>Path::join\<close> of the target's Unix paths: an absolute component replaces the base.\<close>

definition path_join :: "string \<Rightarrow> string \<Rightarrow> string" where
  "path_join base p =
     (if prefix ''/'' p then p
      else if base = [] \<or> last base = CHR ''/'' then base @ p
      else base @ ''/'' @ p)"

text \<open>A fallible step of the cache builder, with the prefix its error text gets.\<close>

definition build_step ::
  "string \<Rightarrow> 'a reply \<times> history \<Rightarrow> ('a \<Rightarrow> history \<Rightarrow> 'b parsed outcome \<times> history)
     \<Rightarrow> 'b parsed outcome \<times> history" where
  "build_step ctx res f =
     (case res of (ROk a, h) \<Rightarrow> f a h
      | (RErr e, h) \<Rightarrow> (Ret (Inl (ctx @ display e)), h)
      | (RPanic, h) \<Rightarrow> (Panic, h))"

definition build_layer ::
  "env \<Rightarrow> cache_config \<Rightarrow> string option \<Rightarrow> history \<Rightarrow> nat parsed outcome \<times> history" where
  "build_layer E c namespace h =
     (let mem = size_get (memory_size c); sh = shards c;
          path = map_option (\<lambda>p. path_join p (case namespace of Some n \<Rightarrow> n | None \<Rightarrow> ''default''))
                   (disk_path c)
      in case path of
           Some p \<Rightarrow>
             build_step (''mkdir '' @ p @ '': '') (invoke (on_unit E) (CreateDirAll p) h) (\<lambda>_ h1.
             build_step (''cache device ('' @ p @ ''): '')
               (invoke (on_handle E) (FsDevice p (size_get (disk_size c))) h1) (\<lambda>dev h2.
             build_step ''cache build: ''
               (invoke (on_handle E) (CacheBuild mem sh (Some (dev, size_get (block_size c)))) h2)
               (\<lambda>cache h3. (Ret (Inr cache), h3))))
         | None \<Rightarrow>
             build_step ''cache build: '' (invoke (on_handle E) (CacheBuild mem sh None) h)
               (\<lambda>cache h1. (Ret (Inr cache), h1)))"

definition cache_size_limit :: "cache_config \<Rightarrow> size_limit" where
  "cache_size_limit c =
     (let lo = size_get (min_file_size c)
      in case max_file_size c of
           Some m \<Rightarrow>
             if size_get m < - 1 then \<lparr>sl_from = lo, sl_below = Some (size_get m + 1)\<rparr>
             else \<lparr>sl_from = lo, sl_below = None\<rparr>
         | None \<Rightarrow> \<lparr>sl_from = lo, sl_below = None\<rparr>)"

definition cache_apply ::
  "env \<Rightarrow> cache_config \<Rightarrow> operator \<Rightarrow> string option \<Rightarrow> history
     \<Rightarrow> (operator \<times> string option) outcome \<times> history" where
  "cache_apply E c op namespace h =
     (case build_layer E c namespace h of
        (Panic, h') \<Rightarrow> (Panic, h')
      | (Ret (Inl e), h') \<Rightarrow> (Ret (op, Some (''OpenDAL cache disabled: '' @ e)), h')
      | (Ret (Inr cache), h') \<Rightarrow>
          (Ret (add_layer op (FoyerLayer cache (cache_size_limit c)), None), h'))"

section \<open>config/mod.rs\<close>

record operator_config =
  oc_io :: io_config
  oc_retry :: "retry_config option"
  oc_timeout :: "timeout_config option"
  oc_cache :: "cache_config option"
  oc_cache_namespace :: "string option"

record applied_config =
  ac_op :: operator
  ac_warning :: "string option"

type_synonym sections = "(string \<times> (string \<times> string) list) list"

text \<open>\<open>sections.entry(section).or_default().insert(key, value)\<close>\<close>

definition section_insert :: "string \<Rightarrow> string \<Rightarrow> string \<Rightarrow> sections \<Rightarrow> sections" where
  "section_insert sec key val ss =
     bt_insert sec (bt_insert key val (case map_of ss sec of Some m \<Rightarrow> m | None \<Rightarrow> [])) ss"

definition known_section :: "string \<Rightarrow> bool" where
  "known_section sec \<longleftrightarrow> sec = ''io'' \<or> sec = ''retry'' \<or> sec = ''timeout'' \<or> sec = ''cache''"

fun collect_sections :: "(string \<times> string) list \<Rightarrow> sections \<Rightarrow> sections parsed" where
  "collect_sections [] ss = Inr ss"
| "collect_sections ((key, val) # kvs) ss =
     (case split_once_char CHR ''.'' key of
        None \<Rightarrow> Inl (''unknown OpenDAL option '' @ quoted key)
      | Some (sec, k) \<Rightarrow>
          if \<not> known_section sec then Inl (unknown_key sec k)
          else collect_sections kvs (section_insert sec k val ss))"

definition section_of :: "sections \<Rightarrow> string \<Rightarrow> (string \<times> string) list" where
  "section_of ss sec = (case map_of ss sec of Some m \<Rightarrow> m | None \<Rightarrow> [])"

definition config_parse ::
  "text_env \<Rightarrow> (string \<times> string) list \<Rightarrow> string option \<Rightarrow> operator_config parsed outcome" where
  "config_parse te kvs namespace =
     question (Ret (collect_sections kvs [])) (\<lambda>ss.
     question (io_parse te (section_of ss ''io'')) (\<lambda>io.
     question (retry_parse te (section_of ss ''retry'')) (\<lambda>re.
     question (timeout_parse te (section_of ss ''timeout'')) (\<lambda>ti.
     question (cache_parse te (section_of ss ''cache'')) (\<lambda>ca.
       Ret (Inr \<lparr>oc_io = io, oc_retry = re, oc_timeout = ti, oc_cache = ca,
         oc_cache_namespace = namespace\<rparr>))))))"

definition apply_layers ::
  "env \<Rightarrow> operator_config \<Rightarrow> operator \<Rightarrow> history \<Rightarrow> applied_config outcome \<times> history" where
  "apply_layers E c op h =
     (let op1 = (case oc_retry c of Some r \<Rightarrow> retry_apply r op | None \<Rightarrow> op);
          op2 = (case oc_timeout c of Some t \<Rightarrow> timeout_apply t op1 | None \<Rightarrow> op1);
          op3 = io_apply_layer (oc_io c) op2
      in case oc_cache c of
           Some cc \<Rightarrow>
             (case cache_apply E cc op3 (oc_cache_namespace c) h of
                (Ret (op4, warning), h') \<Rightarrow> (Ret \<lparr>ac_op = op4, ac_warning = warning\<rparr>, h')
              | (Panic, h') \<Rightarrow> (Panic, h'))
         | None \<Rightarrow> (Ret \<lparr>ac_op = op3, ac_warning = None\<rparr>, h))"

section \<open>Lemmas\<close>

subsection \<open>Sections\<close>

text \<open>The options of one section, in the order given.\<close>

definition section_kvs :: "string \<Rightarrow> (string \<times> string) list \<Rightarrow> (string \<times> string) list" where
  "section_kvs sec kvs = List.map_filter (\<lambda>(key, val).
     case split_once_char CHR ''.'' key of
       Some (s, k) \<Rightarrow> if s = sec then Some (k, val) else None | None \<Rightarrow> None) kvs"

lemma section_kvs_simps [simp]:
  "section_kvs sec [] = []"
  "section_kvs sec ((key, val) # kvs) =
     (case split_once_char CHR ''.'' key of
        Some (s, k) \<Rightarrow> if s = sec then (k, val) # section_kvs sec kvs else section_kvs sec kvs
      | None \<Rightarrow> section_kvs sec kvs)"
  by (auto simp: section_kvs_def map_filter_simps split: option.split)

lemma section_kvs_append: "section_kvs sec (a @ b) = section_kvs sec a @ section_kvs sec b"
  by (simp add: section_kvs_def map_filter_def)

lemma section_kvs_rev: "section_kvs sec (rev kvs) = rev (section_kvs sec kvs)"
  by (induction kvs) (auto simp: section_kvs_append split: option.splits)

lemma map_of_section_kvs:
  assumes "CHR ''.'' \<notin> set sec"
  shows "map_of (section_kvs sec kvs) k = map_of kvs (sec @ CHR ''.'' # k)"
proof (induction kvs)
  case Nil
  show ?case by simp
next
  case (Cons kv kvs)
  have split: "split_once_char CHR ''.'' (sec @ CHR ''.'' # k) = Some (sec, k)"
    using assms by (simp add: split_once_char_Some_iff)
  show ?case
  proof (cases "fst kv = sec @ CHR ''.'' # k")
    case True
    with Cons split show ?thesis by (cases kv) simp
  next
    case False
    then have "split_once_char CHR ''.'' (fst kv) \<noteq> Some (sec, k)"
      by (auto simp: split_once_char_Some_iff)
    with Cons False show ?thesis by (cases kv) (auto split: option.splits)
  qed
qed

definition sections_ok :: "sections \<Rightarrow> bool" where
  "sections_ok ss \<longleftrightarrow> bt_ok ss"

lemma section_of_insert:
  "bt_ok ss \<Longrightarrow> bt_ok (section_insert sec k v ss)
     \<and> section_of (section_insert sec k v ss) s =
         (if s = sec then bt_insert k v (section_of ss sec) else section_of ss s)"
  by (simp add: section_insert_def section_of_def bt_ok_insert map_of_bt_insert)

definition known_key :: "string \<Rightarrow> bool" where
  "known_key key \<longleftrightarrow>
     (case split_once_char CHR ''.'' key of None \<Rightarrow> False | Some (sec, _) \<Rightarrow> known_section sec)"

lemma collect_sections_Inr_iff:
  "(\<exists>ss'. collect_sections kvs ss = Inr ss') \<longleftrightarrow> (\<forall>(key, _) \<in> set kvs. known_key key)"
  by (induction kvs ss rule: collect_sections.induct)
    (auto simp: known_key_def split: option.splits)

lemma collect_sections_section_of:
  assumes "collect_sections kvs ss = Inr ss'" "bt_ok ss"
  shows "section_of ss' sec = fold (\<lambda>(k, v). bt_insert k v) (section_kvs sec kvs) (section_of ss sec)"
  using assms
proof (induction kvs ss rule: collect_sections.induct)
  case (1 ss)
  then show ?case by simp
next
  case (2 key val kvs ss)
  from "2.prems" obtain s k where sp: "split_once_char CHR ''.'' key = Some (s, k)" "known_section s"
    and r: "collect_sections kvs (section_insert s k val ss) = Inr ss'"
    by (auto split: option.splits if_splits)
  with "2.IH" [OF sp(1)] "2.prems"(2) section_of_insert [OF "2.prems"(2), of s k val] show ?case
    by auto
qed

text \<open>What a section receives depends only on the last value given for each key.\<close>

lemma section_of_collected:
  assumes "collect_sections kvs [] = Inr ss" "collect_sections kvs' [] = Inr ss'"
    and "map_of (rev kvs) = map_of (rev kvs')" "CHR ''.'' \<notin> set sec"
  shows "section_of ss sec = section_of ss' sec"
proof -
  have of_list: "section_of ss sec = bt.of_list (section_kvs sec kvs)"
    "section_of ss' sec = bt.of_list (section_kvs sec kvs')"
    using collect_sections_section_of [OF assms(1)] collect_sections_section_of [OF assms(2)]
    by (simp_all add: bt.of_list_def section_of_def bt_ok_def)
  have "map_of (bt.of_list (section_kvs sec kvs)) = map_of (bt.of_list (section_kvs sec kvs'))"
    using assms(3) map_of_section_kvs [OF assms(4)]
    by (auto simp: fun_eq_iff bt.of_list_lookup section_kvs_rev [symmetric])
  then show ?thesis
    unfolding of_list by (intro bt.entries_unique bt.of_list_lookup(1)) simp
qed

subsection \<open>Which options a section accepts\<close>

lemma apply_options_keys:
  assumes "apply_options f kvs c = Ret (Inr c')"
    and "\<And>k v c d. f k v c = Ret (Inr d) \<Longrightarrow> k \<in> K"
  shows "fst ` set kvs \<subseteq> K"
  using assms(1)
proof (induction kvs arbitrary: c)
  case Nil
  show ?case by simp
next
  case (Cons kv kvs)
  then obtain d where "f (fst kv) (snd kv) c = Ret (Inr d)" "apply_options f kvs d = Ret (Inr c')"
    by (cases kv) (auto simp: result_iff)
  with Cons.IH [of d] assms(2) show ?case by auto
qed

definition io_keys :: "string set" where
  "io_keys = {''read.concurrent'', ''read.chunk_size'', ''write.concurrent'', ''write.chunk_size'',
     ''concurrent_limit''}"

definition retry_keys :: "string set" where
  "retry_keys = {''max_times'', ''factor'', ''jitter'', ''min_delay'', ''max_delay''}"

definition timeout_keys :: "string set" where
  "timeout_keys = {''operation_timeout'', ''io_timeout''}"

definition cache_keys :: "string set" where
  "cache_keys = {''memory_size'', ''disk_path'', ''disk_size'', ''block_size'', ''min_file_size'',
     ''max_file_size'', ''shards''}"

definition option_names :: "string set" where
  "option_names = (\<lambda>k. ''io.'' @ k) ` io_keys \<union> (\<lambda>k. ''retry.'' @ k) ` retry_keys
     \<union> (\<lambda>k. ''timeout.'' @ k) ` timeout_keys \<union> (\<lambda>k. ''cache.'' @ k) ` cache_keys"

lemma option_keys:
  "io_option te k v io = Ret (Inr io') \<Longrightarrow> k \<in> io_keys"
  "retry_option te k v re = Ret (Inr re') \<Longrightarrow> k \<in> retry_keys"
  "timeout_option te k v ti = Ret (Inr ti') \<Longrightarrow> k \<in> timeout_keys"
  "cache_option te k v ca = Ret (Inr ca') \<Longrightarrow> k \<in> cache_keys"
  by (auto simp: io_option_def io_keys_def retry_option_def retry_keys_def timeout_option_def
      timeout_keys_def cache_option_def cache_keys_def result_iff split: if_splits)

lemma option_loop_keys:
  "apply_options (io_option te) kvs io = Ret (Inr io') \<Longrightarrow> fst ` set kvs \<subseteq> io_keys"
  "apply_options (retry_option te) kvs re = Ret (Inr re') \<Longrightarrow> fst ` set kvs \<subseteq> retry_keys"
  "apply_options (timeout_option te) kvs ti = Ret (Inr ti') \<Longrightarrow> fst ` set kvs \<subseteq> timeout_keys"
  "apply_options (cache_option te) kvs ca = Ret (Inr ca') \<Longrightarrow> fst ` set kvs \<subseteq> cache_keys"
  by (erule apply_options_keys, erule option_keys)+

lemma parse_keys:
  "io_parse te kvs = Ret (Inr io) \<Longrightarrow> fst ` set kvs \<subseteq> io_keys"
  "retry_parse te kvs = Ret (Inr re) \<Longrightarrow> fst ` set kvs \<subseteq> retry_keys"
  "timeout_parse te kvs = Ret (Inr ti) \<Longrightarrow> fst ` set kvs \<subseteq> timeout_keys"
  "cache_parse te kvs = Ret (Inr ca) \<Longrightarrow> fst ` set kvs \<subseteq> cache_keys"
  unfolding io_parse_def retry_parse_def timeout_parse_def cache_parse_def
  by (elim option_loop_keys) (auto simp: result_iff split: if_splits dest!: option_loop_keys)

subsection \<open>Well-formed configurations\<close>

definition direction_ok :: "direction_config \<Rightarrow> bool" where
  "direction_ok d \<longleftrightarrow> concurrent d \<noteq> Some 0 \<and> chunk_size d \<noteq> Some (ByteSize 0)"

definition io_ok :: "io_config \<Rightarrow> bool" where
  "io_ok c \<longleftrightarrow> direction_ok (io_read c) \<and> direction_ok (io_write c) \<and> concurrent_limit c \<noteq> Some 0"

definition factor_ok :: "retry_config \<Rightarrow> bool" where
  "factor_ok c \<longleftrightarrow> (\<forall>f. factor c = Some f \<longrightarrow> f32_is_finite f \<and> \<not> f32_lt_one f)"

definition retry_ok :: "retry_config \<Rightarrow> bool" where
  "retry_ok c \<longleftrightarrow> factor_ok c
     \<and> (\<forall>lo hi. min_delay c = Some lo \<and> max_delay c = Some hi \<longrightarrow> duration_get lo \<le> duration_get hi)"

definition timeout_ok :: "timeout_config \<Rightarrow> bool" where
  "timeout_ok c \<longleftrightarrow> operation_timeout c \<noteq> Some (HumanDuration 0) \<and> io_timeout c \<noteq> Some (HumanDuration 0)"

definition cache_ok :: "cache_config \<Rightarrow> bool" where
  "cache_ok c \<longleftrightarrow> size_get (memory_size c) \<noteq> 0 \<and> size_get (disk_size c) \<noteq> 0 \<and> size_get (block_size c) \<noteq> 0
     \<and> shards c \<noteq> 0 \<and> disk_path c \<noteq> Some []
     \<and> (\<forall>hi. max_file_size c = Some hi \<longrightarrow> size_get (min_file_size c) \<le> size_get hi)"

definition config_ok :: "operator_config \<Rightarrow> bool" where
  "config_ok c \<longleftrightarrow> io_ok (oc_io c) \<and> (\<forall>r. oc_retry c = Some r \<longrightarrow> retry_ok r)
     \<and> (\<forall>t. oc_timeout c = Some t \<longrightarrow> timeout_ok t) \<and> (\<forall>k. oc_cache c = Some k \<longrightarrow> cache_ok k)"

lemma positive_usize_pos: "positive_usize sec key v = Inr n \<Longrightarrow> n \<noteq> 0"
  by (auto simp: positive_usize_def split: option.splits if_splits)

lemma io_option_ok: "io_ok c \<Longrightarrow> io_option te k v c = Ret (Inr d) \<Longrightarrow> io_ok d"
  by (auto simp: io_option_def io_ok_def direction_ok_def result_iff split: if_splits
      dest: positive_usize_pos)

lemma io_parse_ok: "io_parse te kvs = Ret (Inr c) \<Longrightarrow> io_ok c"
  unfolding io_parse_def
  by (erule apply_options_invariant [where P = io_ok],
      simp add: io_ok_def direction_ok_def default_io_def default_direction_def, rule io_option_ok)

lemma retry_option_ok: "factor_ok c \<Longrightarrow> retry_option te k v c = Ret (Inr d) \<Longrightarrow> factor_ok d"
  by (auto simp: retry_option_def factor_ok_def result_iff split: if_splits)

lemma retry_parse_ok: "retry_parse te kvs = Ret (Inr (Some c)) \<Longrightarrow> retry_ok c"
proof -
  assume "retry_parse te kvs = Ret (Inr (Some c))"
  then obtain d where "apply_options (retry_option te) kvs default_retry = Ret (Inr d)"
    and d: "(case (min_delay d, max_delay d) of
          (Some lo, Some hi) \<Rightarrow>
            if lo > hi then Ret (Inl ''retry.min_delay must not exceed retry.max_delay'')
            else Ret (Inr (Some d))
        | _ \<Rightarrow> Ret (Inr (Some d))) = Ret (Inr (Some c))"
    by (auto simp: retry_parse_def result_iff split: if_splits)
  then have "factor_ok d"
    by (elim apply_options_invariant [where P = factor_ok])
      (simp add: factor_ok_def default_retry_def, rule retry_option_ok)
  with d show ?thesis
    by (auto simp: retry_ok_def less_human_duration_def split: option.splits if_splits)
qed

lemma timeout_option_ok: "timeout_ok c \<Longrightarrow> timeout_option te k v c = Ret (Inr d) \<Longrightarrow> timeout_ok d"
  by (auto simp: timeout_option_def timeout_ok_def duration_is_zero_def result_iff split: if_splits)

lemma timeout_parse_ok: "timeout_parse te kvs = Ret (Inr (Some c)) \<Longrightarrow> timeout_ok c"
proof -
  assume "timeout_parse te kvs = Ret (Inr (Some c))"
  then have "apply_options (timeout_option te) kvs default_timeout = Ret (Inr c)"
    by (auto simp: timeout_parse_def result_iff split: if_splits)
  then show ?thesis
    by (rule apply_options_invariant [where P = timeout_ok])
      (simp add: timeout_ok_def default_timeout_def, rule timeout_option_ok)
qed

definition paths_ok :: "cache_config \<Rightarrow> bool" where
  "paths_ok c \<longleftrightarrow> shards c \<noteq> 0 \<and> disk_path c \<noteq> Some []"

lemma cache_option_ok: "paths_ok c \<Longrightarrow> cache_option te k v c = Ret (Inr d) \<Longrightarrow> paths_ok d"
  by (auto simp: cache_option_def paths_ok_def non_empty_path_def result_iff split: if_splits
      dest: positive_usize_pos)

lemma cache_parse_ok: "cache_parse te kvs = Ret (Inr (Some c)) \<Longrightarrow> cache_ok c"
proof -
  assume "cache_parse te kvs = Ret (Inr (Some c))"
  then obtain c0 d where "cache_default te = Ret (Inr c0)"
    and a: "apply_options (cache_option te) kvs c0 = Ret (Inr d)" and d: "cache_check d = Inr (Some c)"
    by (auto simp: cache_parse_def result_iff split: if_splits)
  then have "paths_ok c0" by (auto simp: cache_default_def paths_ok_def result_iff)
  with a have "paths_ok d"
    by (rule apply_options_invariant) (rule cache_option_ok)
  with d show ?thesis
    by (auto simp: cache_ok_def cache_check_def paths_ok_def Let_def less_byte_size_def
        split: option.splits if_splits)
qed

lemma config_parse_parts:
  assumes "config_parse te kvs ns = Ret (Inr c)"
  obtains ss where "collect_sections kvs [] = Inr ss"
    "io_parse te (section_of ss ''io'') = Ret (Inr (oc_io c))"
    "retry_parse te (section_of ss ''retry'') = Ret (Inr (oc_retry c))"
    "timeout_parse te (section_of ss ''timeout'') = Ret (Inr (oc_timeout c))"
    "cache_parse te (section_of ss ''cache'') = Ret (Inr (oc_cache c))"
    "oc_cache_namespace c = ns"
  using assms by (auto simp: config_parse_def result_iff)

subsection \<open>Layers\<close>

definition admits :: "size_limit \<Rightarrow> u64 \<Rightarrow> bool" where
  "admits l n \<longleftrightarrow> sl_from l \<le> n \<and> (\<forall>m. sl_below l = Some m \<longrightarrow> n < m)"

lemma word_less_plus_one: "m < (- 1 :: u64) \<Longrightarrow> n < m + 1 \<longleftrightarrow> n \<le> m"
  by uint_arith

lemma word_top: "\<not> m < (- 1 :: u64) \<Longrightarrow> n \<le> m"
  using order_trans [OF word_order.extremum [of n], of m] by (simp add: not_less)

definition config_layers :: "operator_config \<Rightarrow> layer list" where
  "config_layers c =
     (case oc_retry c of None \<Rightarrow> []
      | Some r \<Rightarrow> [RetryLayer \<lparr>rl_max_times = max_times r, rl_factor = factor r, rl_jitter = jitter r,
          rl_min_delay = map_option duration_get (min_delay r),
          rl_max_delay = map_option duration_get (max_delay r)\<rparr>])
     @ (case oc_timeout c of None \<Rightarrow> []
        | Some t \<Rightarrow> [TimeoutLayer \<lparr>tl_timeout = map_option duration_get (operation_timeout t),
            tl_io_timeout = map_option duration_get (io_timeout t)\<rparr>])
     @ (case concurrent_limit (oc_io c) of None \<Rightarrow> [] | Some n \<Rightarrow> [ConcurrentLimitLayer n])"

lemma apply_layers_cases:
  "apply_layers E c op h =
     (let op3 = op\<lparr>layers := layers op @ config_layers c\<rparr>
      in case oc_cache c of None \<Rightarrow> (Ret \<lparr>ac_op = op3, ac_warning = None\<rparr>, h)
         | Some cc \<Rightarrow>
             (case cache_apply E cc op3 (oc_cache_namespace c) h of
                (Ret (op4, warning), h') \<Rightarrow> (Ret \<lparr>ac_op = op4, ac_warning = warning\<rparr>, h')
              | (Panic, h') \<Rightarrow> (Panic, h')))"
  by (simp add: apply_layers_def config_layers_def retry_apply_def timeout_apply_def
      io_apply_layer_def add_layer_def Let_def split: option.split)

lemma apply_layers_shape:
  assumes "apply_layers E c op h = (Ret a, h')"
  shows "(ac_warning a = None \<and> (\<exists>ca. layers (ac_op a) = layers op @ config_layers c @
            (case oc_cache c of None \<Rightarrow> [] | Some cc \<Rightarrow> [FoyerLayer ca (cache_size_limit cc)])))
       \<or> (oc_cache c \<noteq> None \<and> (\<exists>e. ac_warning a = Some (''OpenDAL cache disabled: '' @ e))
            \<and> layers (ac_op a) = layers op @ config_layers c)"
  using assms
  by (auto simp: apply_layers_cases cache_apply_def add_layer_def Let_def
      split: option.splits prod.splits outcome.splits sum.splits)

section \<open>Properties\<close>

text \<open>
  C16: every configuration that parses is well-formed: concurrency, limits, chunk sizes,
  timeouts, shards and cache sizes are positive, the retry factor is a finite number of at
  least one, and both ranges (retry delays, cached file sizes) are in order.
\<close>

theorem config_parse_ok:
  assumes "config_parse te kvs ns = Ret (Inr c)"
  shows "config_ok c"
  using assms
  by (elim config_parse_parts)
    (auto simp: config_ok_def intro: io_parse_ok retry_parse_ok timeout_parse_ok cache_parse_ok)

theorem config_parse_ok_witness:
  "config_ok \<lparr>oc_io = default_io\<lparr>concurrent_limit := Some 8\<rparr>, oc_retry = None, oc_timeout = None,
     oc_cache = None, oc_cache_namespace = Some ''db''\<rparr>"
proof -
  let ?te = "\<lparr>uni_numeric = \<lambda>_. False, parse_iec = \<lambda>_. None, parse_duration = \<lambda>_. None\<rparr>"
  have "config_parse ?te [(''io.concurrent_limit'', ''8'')] (Some ''db'') = Ret (Inr
      \<lparr>oc_io = default_io\<lparr>concurrent_limit := Some 8\<rparr>, oc_retry = None, oc_timeout = None,
       oc_cache = None, oc_cache_namespace = Some ''db''\<rparr>)"
    by (simp add: config_parse_def known_section_def section_insert_def section_of_def io_parse_def
        io_option_def retry_parse_def timeout_parse_def cache_parse_def positive_usize_def parse_u64_def
        is_digit_def digit_value_def less_eq_char_def)
  then show ?thesis by (rule config_parse_ok)
qed

text \<open>
  No unknown option is ignored: when parsing succeeds, every key given is one of the
  documented option names.
\<close>

lemma config_parse_known:
  assumes "config_parse te kvs ns = Ret (Inr c)"
  shows "fst ` set kvs \<subseteq> option_names"
proof
  fix key assume "key \<in> fst ` set kvs"
  from assms obtain ss where ss: "collect_sections kvs [] = Inr ss"
    and p: "io_parse te (section_of ss ''io'') = Ret (Inr (oc_io c))"
      "retry_parse te (section_of ss ''retry'') = Ret (Inr (oc_retry c))"
      "timeout_parse te (section_of ss ''timeout'') = Ret (Inr (oc_timeout c))"
      "cache_parse te (section_of ss ''cache'') = Ret (Inr (oc_cache c))"
    by (elim config_parse_parts)
  from \<open>key \<in> _\<close> ss have "known_key key"
    using collect_sections_Inr_iff [of kvs "[]"] by auto
  then obtain sec k where sp: "split_once_char CHR ''.'' key = Some (sec, k)" and sec: "known_section sec"
    by (auto simp: known_key_def split: option.splits)
  then have key: "key = sec @ CHR ''.'' # k" "CHR ''.'' \<notin> set sec"
    by (simp_all add: split_once_char_Some_iff)
  have "k \<in> fst ` set (section_of ss sec)"
  proof -
    have "section_of ss sec = bt.of_list (section_kvs sec kvs)"
      using collect_sections_section_of [OF ss] by (simp add: bt.of_list_def section_of_def bt_ok_def)
    then have "map_of (section_of ss sec) k = map_of (rev kvs) key"
      using map_of_section_kvs [OF key(2)] by (simp add: bt.of_list_lookup section_kvs_rev [symmetric] key(1))
    moreover have "map_of (rev kvs) key \<noteq> None"
      using \<open>key \<in> _\<close> by (auto simp: map_of_eq_None_iff)
    ultimately show ?thesis by (metis map_of_eq_None_iff)
  qed
  then show "key \<in> option_names"
    using sec parse_keys(1) [OF p(1)] parse_keys(2) [OF p(2)] parse_keys(3) [OF p(3)]
      parse_keys(4) [OF p(4)] key(1)
    by (auto simp: known_section_def option_names_def)
qed

text \<open>
  C27: parsing depends only on the options as a map: two lists with the same last value for
  every key give the same configuration, whatever the order and the repetitions.
\<close>

theorem config_parse_order:
  assumes "config_parse te kvs ns = Ret (Inr c)" and "map_of (rev kvs) = map_of (rev kvs')"
  shows "config_parse te kvs' ns = Ret (Inr c)"
proof -
  from assms(1) obtain ss where ss: "collect_sections kvs [] = Inr ss"
    by (elim config_parse_parts)
  have "fst ` set kvs = fst ` set kvs'"
    using arg_cong [OF assms(2), of dom] by (simp add: dom_map_of_conv_image_fst)
  moreover have "\<forall>key \<in> fst ` set kvs. known_key key"
    using ss collect_sections_Inr_iff [of kvs "[]"] by auto
  ultimately have "\<forall>(key, _) \<in> set kvs'. known_key key" by force
  then obtain ss' where ss': "collect_sections kvs' [] = Inr ss'"
    using collect_sections_Inr_iff [of kvs' "[]"] by blast
  have "section_of ss s = section_of ss' s" if "CHR ''.'' \<notin> set s" for s
    using section_of_collected [OF ss ss' assms(2) that] .
  then show ?thesis
    using assms(1) ss ss' by (simp add: config_parse_def)
qed

theorem config_parse_order_witness:
  "config_parse \<lparr>uni_numeric = \<lambda>_. False, parse_iec = \<lambda>_. None, parse_duration = \<lambda>_. None\<rparr>
     [(''retry.jitter'', ''0''), (''io.concurrent_limit'', ''8''), (''retry.jitter'', ''1'')] None = Ret (Inr
      \<lparr>oc_io = default_io\<lparr>concurrent_limit := Some 8\<rparr>, oc_retry = Some (default_retry\<lparr>jitter := True\<rparr>),
       oc_timeout = None, oc_cache = None, oc_cache_namespace = None\<rparr>)"
proof (rule config_parse_order)
  show "config_parse \<lparr>uni_numeric = \<lambda>_. False, parse_iec = \<lambda>_. None, parse_duration = \<lambda>_. None\<rparr>
      [(''io.concurrent_limit'', ''8''), (''retry.jitter'', ''1'')] None = Ret (Inr
      \<lparr>oc_io = default_io\<lparr>concurrent_limit := Some 8\<rparr>, oc_retry = Some (default_retry\<lparr>jitter := True\<rparr>),
       oc_timeout = None, oc_cache = None, oc_cache_namespace = None\<rparr>)"
    by (simp add: config_parse_def known_section_def section_insert_def section_of_def io_parse_def
        io_option_def retry_parse_def retry_option_def boolean_def timeout_parse_def cache_parse_def
        positive_usize_def parse_u64_def is_digit_def digit_value_def less_eq_char_def default_retry_def)
qed (auto simp: fun_eq_iff)

text \<open>
  The cache layer receives exactly the configured size range: it admits an object exactly
  when its size is at least the minimum and at most the maximum, also when the maximum is the
  largest 64-bit size, where the excluded upper bound does not exist.
\<close>

lemma cache_size_limit_exact:
  "admits (cache_size_limit c) n \<longleftrightarrow>
     size_get (min_file_size c) \<le> n \<and> (case max_file_size c of None \<Rightarrow> True | Some hi \<Rightarrow> n \<le> size_get hi)"
  by (auto simp: cache_size_limit_def admits_def Let_def word_less_plus_one word_top split: option.splits)



end
