(* ===== verification/Operator.thy ===== *)
theory Operator
  imports Config
begin

text \<open>
  The operator lifecycle (\<open>opendal/src/operator.rs\<close>), the scheme registry behind it, and the
  process initialisation of \<open>opendal/src/lib.rs\<close>.  OpenDAL's URI parser, capability and root
  accessors and its service registry are parameters.
\<close>

section \<open>The operator handle\<close>

record od_operator =
  od_op :: operator
  od_scheme :: string
  od_io :: io_config
  od_cap :: capability
  od_info_root :: string
  od_warning :: "string option"

record service_env =
  uri_scheme :: "string \<Rightarrow> (string \<times> string) list \<Rightarrow> string reply" \<comment> \<open>\<open>OperatorUri::new\<close>, then \<open>scheme\<close>\<close>
  capability_of :: "operator \<Rightarrow> capability" \<comment> \<open>\<open>op.info().capability()\<close>\<close>
  root_of :: "operator \<Rightarrow> string" \<comment> \<open>\<open>op.info().root()\<close>\<close>

section \<open>Collecting key/value arrays\<close>

fun collect_loop :: "nat \<Rightarrow> (c_str \<times> c_str) list \<Rightarrow> (string \<times> string) list parsed" where
  "collect_loop i [] = Inr []"
| "collect_loop i ((key, val) # rest) =
     (case cstr key of None \<Rightarrow> Inl (''key #'' @ show_nat i @ '' invalid'')
      | Some k \<Rightarrow>
          (case cstr val of None \<Rightarrow> Inl (''value for '' @ quoted k @ '' invalid'')
           | Some v \<Rightarrow>
               (case collect_loop (Suc i) rest of Inl e \<Rightarrow> Inl e | Inr kvs \<Rightarrow> Inr ((k, v) # kvs))))"

definition collect_pairs ::
  "c_str list option \<Rightarrow> c_str list option \<Rightarrow> nat \<Rightarrow> (string \<times> string) list parsed" where
  "collect_pairs keys vals n =
     (if n = 0 then Inr []
      else case (keys, vals) of
          (Some ks, Some vs) \<Rightarrow> collect_loop 0 (zip (take n ks) (take n vs))
        | _ \<Rightarrow> Inl ''keys/values null with len > 0'')"

section \<open>Building an operator\<close>

definition operator_handle ::
  "service_env \<Rightarrow> string \<Rightarrow> operator_config \<Rightarrow> applied_config \<Rightarrow> od_operator" where
  "operator_handle S scheme config applied =
     \<lparr>od_op = ac_op applied, od_scheme = scheme, od_io = oc_io config,
      od_cap = capability_of S (ac_op applied),
      od_info_root = (case cstring_new (root_of S (ac_op applied)) of Some r \<Rightarrow> r | None \<Rightarrow> ''''),
      od_warning = Option.bind (ac_warning applied) cstring_new\<rparr>"

definition build_operator ::
  "env \<Rightarrow> service_env \<Rightarrow> string \<Rightarrow> (string \<times> string) list \<Rightarrow> operator_config \<Rightarrow> err_slot \<Rightarrow> history
     \<Rightarrow> od_operator option outcome \<times> err_slot \<times> history" where
  "build_operator E S uri cfg config err h =
     (case uri_scheme S uri cfg of
        RPanic \<Rightarrow> (Panic, err, h)
      | RErr e \<Rightarrow> (Ret None, set_opendal_error err e, h)
      | ROk scheme \<Rightarrow>
          (case invoke (on_handle E) (BuildOperator uri cfg) h of
             (RPanic, h1) \<Rightarrow> (Panic, err, h1)
           | (RErr e, h1) \<Rightarrow> (Ret None, set_opendal_error err e, h1)
           | (ROk svc, h1) \<Rightarrow>
               (case apply_layers E config \<lparr>service = svc, layers = []\<rparr> h1 of
                  (Panic, h2) \<Rightarrow> (Panic, err, h2)
                | (Ret applied, h2) \<Rightarrow>
                    (Ret (Some (operator_handle S scheme config applied)), set_ok err, h2))))"

definition od_operator_new_body ::
  "env \<Rightarrow> service_env \<Rightarrow> text_env \<Rightarrow> c_str \<Rightarrow> c_str list option \<Rightarrow> c_str list option \<Rightarrow> nat
     \<Rightarrow> c_str list option \<Rightarrow> c_str list option \<Rightarrow> nat \<Rightarrow> c_str \<Rightarrow> err_slot \<Rightarrow> history
     \<Rightarrow> od_operator option outcome \<times> err_slot \<times> history" where
  "od_operator_new_body E S te uri keys vals n okeys ovals on ns err h =
     (case cstr uri of
        None \<Rightarrow> (Ret None, set_error err CodeInvalidInput ''uri is null or not UTF-8'', h)
      | Some u \<Rightarrow>
     (case collect_pairs keys vals n of
        Inl msg \<Rightarrow> (Ret None, set_error err CodeInvalidInput msg, h)
      | Inr cfg \<Rightarrow>
     (case collect_pairs okeys ovals on of
        Inl msg \<Rightarrow> (Ret None, set_error err CodeInvalidInput msg, h)
      | Inr options \<Rightarrow>
     (case config_parse te options (cstr ns) of
        Panic \<Rightarrow> (Panic, err, h)
      | Ret (Inl msg) \<Rightarrow> (Ret None, set_error err CodeInvalidInput msg, h)
      | Ret (Inr config) \<Rightarrow> build_operator E S u cfg config err h))))"

definition od_operator_new ::
  "env \<Rightarrow> service_env \<Rightarrow> text_env \<Rightarrow> c_str \<Rightarrow> c_str list option \<Rightarrow> c_str list option \<Rightarrow> nat
     \<Rightarrow> c_str list option \<Rightarrow> c_str list option \<Rightarrow> nat \<Rightarrow> c_str \<Rightarrow> err_slot \<Rightarrow> history
     \<Rightarrow> od_operator option \<times> err_slot \<times> history" where
  "od_operator_new E S te uri keys vals n okeys ovals on ns err h =
     ffi_guard ''od_operator_new'' None
       (od_operator_new_body E S te uri keys vals n okeys ovals on ns err h)"

definition od_operator_warning :: "od_operator ptr \<Rightarrow> c_str" where
  "od_operator_warning p = (case p of Null \<Rightarrow> None | Ptr _ op \<Rightarrow> od_warning op)"

definition od_operator_root :: "od_operator ptr \<Rightarrow> c_str" where
  "od_operator_root p = (case p of Null \<Rightarrow> None | Ptr _ op \<Rightarrow> Some (od_info_root op))"

section \<open>Registered schemes\<close>

text \<open>A \<open>OnceLock\<close> cell: the first value computed stays.\<close>

definition get_or_init :: "'a option \<Rightarrow> 'a \<Rightarrow> 'a \<times> 'a option" where
  "get_or_init cell v = (case cell of Some w \<Rightarrow> (w, cell) | None \<Rightarrow> (v, Some v))"

lemma get_or_init_stable: "get_or_init cell v = (w, cell') \<Longrightarrow> get_or_init cell' u = (w, cell')"
  by (auto simp: get_or_init_def split: option.splits)

type_synonym scheme_cell = "(string list \<times> string list) option"

definition registered_schemes :: "string list \<Rightarrow> scheme_cell \<Rightarrow> (string list \<times> string list) \<times> scheme_cell" where
  "registered_schemes registry cell = get_or_init cell (registry, sort registry)"

definition od_scheme_supported :: "string list \<Rightarrow> c_str \<Rightarrow> scheme_cell \<Rightarrow> nat \<times> scheme_cell" where
  "od_scheme_supported registry scheme cell =
     (case cstr scheme of None \<Rightarrow> (0, cell)
      | Some s \<Rightarrow> (let (r, cell') = registered_schemes registry cell
                  in (if s \<in> set (fst r) then 1 else 0, cell')))"

fun cstring_all :: "string list \<Rightarrow> string list option" where
  "cstring_all [] = Some []"
| "cstring_all (s # ss) =
     (case cstring_new s of None \<Rightarrow> None | Some t \<Rightarrow> map_option ((#) t) (cstring_all ss))"

definition od_schemes ::
  "string list \<Rightarrow> scheme_cell \<Rightarrow> err_slot \<Rightarrow> string list option \<times> err_slot \<times> scheme_cell" where
  "od_schemes registry cell err =
     (let (r, cell') = registered_schemes registry cell
      in ffi_guard ''od_schemes'' None
           (case cstring_all (snd r) of
              None \<Rightarrow> (Ret None, set_error err CodeUnexpected ''registered scheme contains a NUL byte'', cell')
            | Some schemes \<Rightarrow> (Ret (Some schemes), set_ok err, cell')))"

definition od_schemes_len :: "string list ptr \<Rightarrow> nat" where
  "od_schemes_len p = (case p of Null \<Rightarrow> 0 | Ptr _ l \<Rightarrow> length l)"

definition od_schemes_entry :: "string list ptr \<Rightarrow> nat \<Rightarrow> c_str" where
  "od_schemes_entry p i =
     (case p of Null \<Rightarrow> None | Ptr _ l \<Rightarrow> if i < length l then Some (l ! i) else None)"

section \<open>Process initialisation\<close>

text \<open>What the rustls calls of \<open>od_init\<close> answer: is a provider installed, does installing one
  succeed, and is one installed after that.\<close>

record crypto_env =
  provider_before :: bool
  install_ok :: bool
  provider_after :: bool

definition init_once :: "crypto_env \<Rightarrow> unit parsed" where
  "init_once c =
     (if \<not> provider_before c \<and> \<not> install_ok c \<and> \<not> provider_after c
      then Inl ''failed to install rustls crypto provider'' else Inr ())"

definition od_init ::
  "crypto_env \<Rightarrow> unit parsed option \<Rightarrow> err_slot \<Rightarrow> int \<times> err_slot \<times> unit parsed option" where
  "od_init c cell err =
     (let (r, cell') = get_or_init cell (init_once c)
      in ffi_guard ''od_init'' (- 1)
           (case r of Inr _ \<Rightarrow> (Ret 0, set_ok err, cell')
            | Inl msg \<Rightarrow> (Ret (- 1), set_error err CodeUnexpected msg, cell')))"

section \<open>Lemmas\<close>

lemma collect_loop_Inr:
  "collect_loop i ps = Inr kvs \<Longrightarrow>
     map (\<lambda>(k, v). (Some k, Some v)) kvs = map (map_prod cstr cstr) ps"
proof (induction i ps arbitrary: kvs rule: collect_loop.induct)
  case (1 i)
  then show ?case by simp
next
  case (2 i key val rest)
  then obtain k v r where "cstr key = Some k" "cstr val = Some v" "collect_loop (Suc i) rest = Inr r"
    "kvs = (k, v) # r"
    by (auto split: option.splits sum.splits)
  with "2.IH" show ?case by simp
qed

lemma cstring_all_Some_iff [result_iff]: "cstring_all ss = Some l \<longleftrightarrow> l = ss \<and> list_all nul_free ss"
  by (induction ss arbitrary: l) (auto simp: cstring_new_def)

lemma build_operator_body:
  "build_operator E S uri cfg config err h = (Ret v, e, h') \<Longrightarrow> reports err (v = None) e"
  "build_operator E S uri cfg config err h = (Panic, e, h') \<Longrightarrow> e = err"
  by (auto simp: build_operator_def intro: reports_intro
      split: reply.splits outcome.splits prod.splits)

lemma operator_new_body:
  "od_operator_new_body E S te uri keys vals n okeys ovals on ns err h = (Ret v, e, h') \<Longrightarrow>
     reports err (v = None) e"
  "od_operator_new_body E S te uri keys vals n okeys ovals on ns err h = (Panic, e, h') \<Longrightarrow> e = err"
  by (auto simp: od_operator_new_body_def intro: reports_intro build_operator_body dest: build_operator_body(2)
      split: option.splits sum.splits outcome.splits)

interpretation operator_new: ffi_entry
  "\<lambda>(E, S, te, uri, keys, vals, n, okeys, ovals, on, ns, h) err.
     od_operator_new_body E S te uri keys vals n okeys ovals on ns err h" None
  by unfold_locales (auto dest: operator_new_body)

interpretation schemes_entry: ffi_entry
  "\<lambda>(registry :: string list, cell :: scheme_cell) err.
     (case cstring_all (snd (fst (registered_schemes registry cell))) of
        None \<Rightarrow> (Ret None, set_error err CodeUnexpected ''registered scheme contains a NUL byte'',
                 snd (registered_schemes registry cell))
      | Some schemes \<Rightarrow> (Ret (Some schemes), set_ok err, snd (registered_schemes registry cell)))" None
  by unfold_locales (auto simp: reports_intro eq_commute [of "Some _"] split: option.splits)

text \<open>Building layers only adds calls.\<close>

lemma build_step_history:
  assumes "build_step ctx (invoke f c h) g = (r, h')" and "\<And>a h1 r h2. g a h1 = (r, h2) \<Longrightarrow> prefix h1 h2"
  shows "prefix h h'"
  using assms(1)
  by (auto simp: build_step_def invoke_def split: reply.splits dest!: assms(2) dest: append_prefixD)

lemma build_layer_history: "build_layer E c ns h = (r, h') \<Longrightarrow> prefix h h'"
  unfolding build_layer_def Let_def
  by (auto split: option.splits elim!: build_step_history)

lemma apply_layers_history: "apply_layers E c op h = (r, h') \<Longrightarrow> prefix h h'"
  by (auto simp: apply_layers_cases cache_apply_def Let_def
      split: option.splits prod.splits outcome.splits sum.splits dest: build_layer_history)

text \<open>What a successful construction parsed, and the calls it made.\<close>

lemma operator_new_Some:
  assumes "od_operator_new E S te uri keys vals n okeys ovals on ns err h = (Some op, e, h')"
  obtains u cfg opts c a where "cstr uri = Some u" "collect_pairs keys vals n = Inr cfg"
    "collect_pairs okeys ovals on = Inr opts" "config_parse te opts (cstr ns) = Ret (Inr c)"
    "\<exists>sv h1. apply_layers E c \<lparr>service = sv, layers = []\<rparr> (h @ [BuildOperator u cfg]) = (Ret a, h1)"
    "op = operator_handle S (od_scheme op) c a" "prefix (h @ [BuildOperator u cfg]) h'"
proof -
  from assms obtain u cfg opts c where parts: "cstr uri = Some u" "collect_pairs keys vals n = Inr cfg"
    "collect_pairs okeys ovals on = Inr opts" "config_parse te opts (cstr ns) = Ret (Inr c)"
    and b: "build_operator E S u cfg c err h = (Ret (Some op), e, h')"
    by (auto simp: od_operator_new_def od_operator_new_body_def ffi_guard_def
        split: outcome.splits option.splits sum.splits prod.splits)
  from b obtain sch sv a where al: "apply_layers E c \<lparr>service = sv, layers = []\<rparr> (h @ [BuildOperator u cfg]) = (Ret a, h')"
    and op: "op = operator_handle S sch c a"
    by (auto simp: build_operator_def invoke_eq_iff split: reply.splits prod.splits outcome.splits)
  then have "op = operator_handle S (od_scheme op) c a" by (simp add: operator_handle_def)
  with parts al apply_layers_history [OF al] show thesis by (intro that) auto
qed

section \<open>Properties\<close>

text \<open>
  C25: the contract of \<open>od_operator_new\<close>: the error slot says failure exactly when no handle is
  returned; a handle has well-formed I/O options, C-string fields, and the layers of the parsed
  options; and nothing is built from invalid arguments: the first call made is the construction
  from the URI and the configuration that were passed.
\<close>

theorem od_operator_new_contract:
  assumes "od_operator_new E S te uri keys vals n okeys ovals on ns err h = (r, e, h')"
  shows "reports err (r = None) e
    \<and> (\<forall>op. r = Some op \<longrightarrow>
         io_ok (od_io op) \<and> nul_free (od_info_root op) \<and> (\<forall>w. od_warning op = Some w \<longrightarrow> nul_free w)
         \<and> (\<exists>u cfg opts c. cstr uri = Some u \<and> collect_pairs keys vals n = Inr cfg
              \<and> collect_pairs okeys ovals on = Inr opts \<and> config_parse te opts (cstr ns) = Ret (Inr c)
              \<and> od_io op = oc_io c \<and> prefix (config_layers c) (layers (od_op op))
              \<and> prefix (h @ [BuildOperator u cfg]) h'))
    \<and> (h' = h \<or> (\<exists>u cfg opts c. cstr uri = Some u \<and> collect_pairs keys vals n = Inr cfg
              \<and> collect_pairs okeys ovals on = Inr opts \<and> config_parse te opts (cstr ns) = Ret (Inr c)
              \<and> prefix (h @ [BuildOperator u cfg]) h'))"
proof (intro conjI allI impI)
  show "reports err (r = None) e"
    using operator_new.entry_reports [of "''od_operator_new''" "(E, S, te, uri, keys, vals, n, okeys, ovals, on, ns, h)"]
      assms by (simp add: od_operator_new_def)
next
  fix op assume r: "r = Some op"
  with assms obtain u cfg opts c a where parts: "cstr uri = Some u" "collect_pairs keys vals n = Inr cfg"
    "collect_pairs okeys ovals on = Inr opts" "config_parse te opts (cstr ns) = Ret (Inr c)"
    and al: "\<exists>sv h1. apply_layers E c \<lparr>service = sv, layers = []\<rparr> (h @ [BuildOperator u cfg]) = (Ret a, h1)"
    and op: "op = operator_handle S (od_scheme op) c a" and pre: "prefix (h @ [BuildOperator u cfg]) h'"
    using operator_new_Some by metis
  from op have io: "od_io op = oc_io c" by (metis operator_handle_def od_operator.select_convs(3))
  from parts(4) have "io_ok (oc_io c)"
    by (elim config_parse_parts) (rule io_parse_ok)
  with io show "io_ok (od_io op)" by simp
  show "nul_free (od_info_root op)"
    by (subst op) (simp add: operator_handle_def cstring_new_def)
  show "nul_free w" if "od_warning op = Some w" for w
    using that by (subst (asm) op) (auto simp: operator_handle_def bind_eq_Some_conv cstring_new_Some_iff)
  have "prefix (config_layers c) (layers (ac_op a))"
    using al by (auto dest!: apply_layers_shape)
  moreover have "od_op op = ac_op a" by (subst op) (simp add: operator_handle_def)
  ultimately show "\<exists>u cfg opts c. cstr uri = Some u \<and> collect_pairs keys vals n = Inr cfg
              \<and> collect_pairs okeys ovals on = Inr opts \<and> config_parse te opts (cstr ns) = Ret (Inr c)
              \<and> od_io op = oc_io c \<and> prefix (config_layers c) (layers (od_op op))
              \<and> prefix (h @ [BuildOperator u cfg]) h'"
    using parts io pre by auto
next
  show "h' = h \<or> (\<exists>u cfg opts c. cstr uri = Some u \<and> collect_pairs keys vals n = Inr cfg
              \<and> collect_pairs okeys ovals on = Inr opts \<and> config_parse te opts (cstr ns) = Ret (Inr c)
              \<and> prefix (h @ [BuildOperator u cfg]) h')"
  proof (cases "h' = h")
    case False
    then obtain u cfg opts c x where parts: "cstr uri = Some u" "collect_pairs keys vals n = Inr cfg"
      "collect_pairs okeys ovals on = Inr opts" "config_parse te opts (cstr ns) = Ret (Inr c)"
      and b: "build_operator E S u cfg c err h = (x, snd (build_operator E S u cfg c err h))"
        "snd (snd (build_operator E S u cfg c err h)) = h'"
      using assms by (auto simp: od_operator_new_def od_operator_new_body_def ffi_guard_def
        split: outcome.splits option.splits sum.splits prod.splits)
    from b False have "prefix (h @ [BuildOperator u cfg]) h'"
      by (auto simp: build_operator_def invoke_def dest: apply_layers_history
          split: reply.splits prod.splits outcome.splits)
    with parts show ?thesis by blast
  qed simp
qed

theorem od_operator_new_contract_witness:
  "\<exists>S te op e. od_operator_new calm_env S te (Some ''fs://x'') None None 0 None None 0 None (Some error_ok) []
       = (Some op, e, [BuildOperator ''fs://x'' []])
     \<and> reports (Some error_ok) False e \<and> io_ok (od_io op)"
proof -
  fix c0
  let ?S = "\<lparr>uri_scheme = \<lambda>_ _. ROk ''fs'', capability_of = \<lambda>_. c0, root_of = \<lambda>_. ''/''\<rparr>"
  let ?te = "\<lparr>uni_numeric = \<lambda>_. False, parse_iec = \<lambda>_. None, parse_duration = \<lambda>_. None\<rparr>"
  obtain op e where r: "od_operator_new calm_env ?S ?te (Some ''fs://x'') None None 0 None None 0 None (Some error_ok) []
       = (Some op, e, [BuildOperator ''fs://x'' []])"
    by (simp add: od_operator_new_def od_operator_new_body_def ffi_guard_def cstr_def is_ascii_def
        collect_pairs_def config_parse_def io_parse_def retry_parse_def timeout_parse_def cache_parse_def
        section_of_def build_operator_def invoke_def apply_layers_def)
  note contract = od_operator_new_contract [OF r]
  from contract [THEN conjunct1] have "reports (Some error_ok) False e" by simp
  with r contract [THEN conjunct2, THEN conjunct1, THEN spec, THEN mp, OF refl, THEN conjunct1]
  show ?thesis by blast
qed

text \<open>
  A size option whose text ends in a numeric character of more than one byte, such as the
  one-half sign, is not reported as invalid input: the parser unwinds and the caller sees the
  panic code.
\<close>

lemma od_operator_new_half_panics:
  assumes "uni_numeric te 0xBD" and "parse_iec te [CHR ''1'', CHR 0xC2, CHR 0xBD] = None"
  shows "od_operator_new E S te (Some ''s3://b'') None None 0 (Some [Some ''io.read.chunk_size''])
      (Some [Some [CHR ''1'', CHR 0xC2, CHR 0xBD]]) 1 ns (Some e0) h
    = (None, Some \<lparr>err_code = CodePanic, err_message = Some ''panic in od_operator_new''\<rparr>, h)"
proof -
  let ?half = "[CHR 0xC2, CHR 0xBD]"
  have "utf8_chars (CHR ''1'' # ?half) = Some [''1'', ?half]"
    by (simp add: is_ascii_def)
      (subst utf8_chars.simps, simp add: is_ascii_def utf8_two_def byte_in_def)
  then have v: "utf8_valid (CHR ''1'' # ?half)" and c: "str_chars (CHR ''1'' # ?half) = [''1'', ?half]"
    by (simp_all only: utf8_valid_def str_chars_def option.distinct not_False_eq_True option.case)
  have t: "trim_chars [''1'', ?half] = [''1'', ?half]"
    by (simp add: trim_chars_def is_whitespace_def)
  have "parse_u64 (CHR ''1'' # ?half) = None"
    by (simp add: parse_u64_def is_digit_def less_eq_char_def)
  then have "parse_bytes te (CHR ''1'' # ?half) = Panic"
    using assms by (simp add: parse_bytes_def c t parse_suffixed_def char_is_numeric_def)
  then have "config_parse te [(''io.read.chunk_size'', CHR ''1'' # ?half)] (cstr ns) = Panic"
    by (simp add: config_parse_def known_section_def section_insert_def section_of_def io_parse_def
        io_option_def byte_size_parse_def)
  then show ?thesis
    using v by (simp add: od_operator_new_def od_operator_new_body_def ffi_guard_def collect_pairs_def cstr_def
        is_ascii_def set_panic_def set_error_def cstring_new_def)
qed

text \<open>
  The scheme list is the registry in ascending byte order without repetition, it is fixed
  by the first call, and \<open>od_scheme_supported\<close> answers from the same snapshot.
\<close>

lemma od_schemes_snapshot:
  assumes "distinct registry" "list_all nul_free registry"
  shows "\<exists>l cell. od_schemes registry None err = (Some l, set_ok err, cell)
    \<and> sorted_wrt (<) l \<and> set l = set registry
    \<and> (\<forall>later err2. od_schemes later cell err2 = (Some l, set_ok err2, cell))
    \<and> (\<forall>later s. utf8_valid s \<longrightarrow>
         od_scheme_supported later (Some s) cell = (if s \<in> set l then 1 else 0, cell))"
proof -
  let ?l = "sort registry"
  have "cstring_all ?l = Some ?l" using assms by (simp add: cstring_all_Some_iff list_all_iff)
  moreover have "sorted_wrt (<) ?l" using assms by (simp add: strict_sorted_iff)
  ultimately show ?thesis
    by (intro exI [of _ ?l] exI [of _ "Some (registry, ?l)"])
      (simp add: od_schemes_def registered_schemes_def get_or_init_def ffi_guard_def
        od_scheme_supported_def cstr_def)
qed

text \<open>
  Process initialisation runs once: whatever the first call answered, every later call
  answers the same, and it fails only when no crypto provider was there, none could be
  installed, and none is there afterwards.
\<close>

lemma od_init_once:
  assumes "od_init c None err = (r, e, cell)"
  shows "reports err (r \<noteq> 0) e \<and> (r = 0 \<longleftrightarrow> provider_before c \<or> install_ok c \<or> provider_after c)
    \<and> (\<forall>c2 err2. \<exists>e2. od_init c2 cell err2 = (r, e2, cell) \<and> reports err2 (r \<noteq> 0) e2)"
proof (cases "provider_before c \<or> install_ok c \<or> provider_after c")
  case True
  then have "init_once c = Inr ()" by (auto simp: init_once_def)
  with assms True show ?thesis
    by (auto simp: od_init_def get_or_init_def ffi_guard_def reports_intro)
next
  case False
  then have "init_once c = Inl ''failed to install rustls crypto provider''" by (simp add: init_once_def)
  with assms False show ?thesis
    by (auto simp: od_init_def get_or_init_def ffi_guard_def reports_intro)
qed

end
