(* ===== verification/Capability.thy ===== *)
theory Capability
  imports Operator
begin

text \<open>
  Capability guards and introspection (\<open>opendal/src/capability.rs\<close>), with the optional-argument
  guard of \<open>opendal/src/table.rs\<close>.  The JSON form of a capability set comes from \<open>serde_json\<close>
  and is a parameter.
\<close>

type_synonym guard_result = "(od_error_code \<times> string) + unit"

definition require :: "string \<Rightarrow> bool \<Rightarrow> string \<Rightarrow> guard_result" where
  "require scheme supported op_name =
     (if supported then Inr ()
      else Inl (CodeUnsupported, ''service '' @ quoted scheme @ '' does not support '' @ op_name))"

definition require_option :: "string \<Rightarrow> bool \<Rightarrow> bool \<Rightarrow> string \<Rightarrow> guard_result" where
  "require_option scheme requested supported name =
     (if requested \<and> \<not> supported
      then Inl (CodeUnsupported, ''service '' @ quoted scheme @ '' does not support '' @ name)
      else Inr ())"

text \<open>A sequence of checks stops at the first failure.\<close>

fun first_failure :: "guard_result list \<Rightarrow> guard_result" where
  "first_failure [] = Inr ()"
| "first_failure (Inl e # cs) = Inl e"
| "first_failure (Inr _ # cs) = first_failure cs"

section \<open>Introspection\<close>

datatype json = JBool bool | JObject "(string \<times> json) list" | JOther

definition json_as_bool :: "json \<Rightarrow> bool option" where
  "json_as_bool j = (case j of JBool b \<Rightarrow> Some b | _ \<Rightarrow> None)"

definition capability_bools :: "(capability \<Rightarrow> json option) \<Rightarrow> capability \<Rightarrow> (string \<times> bool) list" where
  "capability_bools to_json c =
     (case to_json c of
        Some (JObject kvs) \<Rightarrow>
          List.map_filter (\<lambda>(k, v). map_option (\<lambda>b. (k, b)) (json_as_bool v)) kvs
      | _ \<Rightarrow> [])"

definition od_operator_supports ::
  "(capability \<Rightarrow> json option) \<Rightarrow> od_operator ptr \<Rightarrow> c_str \<Rightarrow> nat" where
  "od_operator_supports to_json p name =
     (case p of Null \<Rightarrow> 0
      | Ptr _ op \<Rightarrow>
          (case cstr name of None \<Rightarrow> 0
           | Some n \<Rightarrow>
               (case List.find (\<lambda>(k, _). k = n) (capability_bools to_json (od_cap op)) of
                  Some (_, b) \<Rightarrow> if b then 1 else 0
                | None \<Rightarrow> 0)))"

type_synonym capability_list = "(string \<times> bool) list"

record od_capability =
  cap_name :: c_str
  cap_supported :: nat

definition od_capabilities ::
  "(capability \<Rightarrow> json option) \<Rightarrow> od_operator ptr \<Rightarrow> err_slot \<Rightarrow> capability_list option \<times> err_slot \<times> unit" where
  "od_capabilities to_json p err =
     ffi_guard ''od_capabilities'' None
       (case p of Null \<Rightarrow> (Ret None, set_error err CodeInvalidInput ''null operator'', ())
        | Ptr _ op \<Rightarrow>
            (Ret (Some (map (\<lambda>(n, b). (case cstring_new n of Some s \<Rightarrow> s | None \<Rightarrow> '''', b))
                    (capability_bools to_json (od_cap op)))),
             set_ok err, ()))"

definition od_capabilities_len :: "capability_list ptr \<Rightarrow> nat" where
  "od_capabilities_len p = (case p of Null \<Rightarrow> 0 | Ptr _ l \<Rightarrow> length l)"

definition od_capabilities_entry ::
  "capability_list ptr \<Rightarrow> nat \<Rightarrow> od_capability option \<Rightarrow> err_slot
     \<Rightarrow> nat \<times> err_slot \<times> od_capability option" where
  "od_capabilities_entry p i out err =
     ffi_guard ''od_capabilities_entry'' 0
       (case (p, out) of
          (Ptr _ l, Some _) \<Rightarrow>
            if length l \<le> i then (Ret 0, set_error err CodeInvalidInput ''index out of bounds'', out)
            else (Ret 1, set_ok err,
                  Some \<lparr>cap_name = Some (fst (l ! i)), cap_supported = (if snd (l ! i) then 1 else 0)\<rparr>)
        | _ \<Rightarrow> (Ret 0, set_error err CodeInvalidInput ''null list or out parameter'', out))"

section \<open>Lemmas\<close>

lemma require_Inr_iff [result_iff]: "require s b n = Inr u \<longleftrightarrow> b"
  by (simp add: require_def)

lemma require_Inl_code [simp]: "require s b n = Inl (c, m) \<Longrightarrow> c = CodeUnsupported"
  by (simp add: require_def split: if_splits)

lemma require_option_Inr_iff [result_iff]: "require_option s r b n = Inr u \<longleftrightarrow> (r \<longrightarrow> b)"
  by (simp add: require_option_def)

lemma require_option_Inl_code: "require_option s r b n = Inl (c, m) \<Longrightarrow> c = CodeUnsupported"
  by (simp add: require_option_def split: if_splits)

lemma first_failure_Inr_iff [result_iff]:
  "first_failure cs = Inr u \<longleftrightarrow> (\<forall>c \<in> set cs. c = Inr ())"
  by (induction cs rule: first_failure.induct) auto

lemma first_failure_Inl: "first_failure cs = Inl e \<Longrightarrow> Inl e \<in> set cs"
  by (induction cs rule: first_failure.induct) auto

lemma find_key:
  "distinct (map fst l) \<Longrightarrow> List.find (\<lambda>(k, _). k = n) l = (case map_of l n of Some b \<Rightarrow> Some (n, b) | None \<Rightarrow> None)"
  by (induction l) (auto simp: dom_def split: option.splits)

lemma map_filter_fst:
  "set (map fst (List.map_filter (\<lambda>(k, v). map_option (Pair k) (f v)) l)) \<subseteq> set (map fst l)"
  by (induction l) (auto simp: List.map_filter_simps split: option.splits)

lemma capability_bools_keys:
  assumes "to_json c = Some (JObject kvs)" "distinct (map fst kvs)"
  shows "distinct (map fst (capability_bools to_json c)) \<and> set (map fst (capability_bools to_json c)) \<subseteq> set (map fst kvs)"
proof -
  have "distinct (map fst (List.map_filter (\<lambda>(k, v). map_option (Pair k) (json_as_bool v)) kvs))"
    using assms(2)
  proof (induction kvs)
    case Nil
    show ?case by (simp add: List.map_filter_simps)
  next
    case (Cons x kvs)
    with map_filter_fst [of json_as_bool kvs] show ?case
      by (cases x) (auto simp: List.map_filter_simps split: option.split)
  qed
  with map_filter_fst [of json_as_bool kvs] assms(1) show ?thesis
    by (simp add: capability_bools_def)
qed

section \<open>Properties\<close>

text \<open>
  The two ways to ask for capabilities agree: every row of the capability list carries the
  answer that asking for its name gives, all rows have different names, and a name that is not in
  the list is answered with unsupported (for a capability object whose keys are distinct C
  strings, as a JSON map's are).
\<close>

lemma capabilities_agree:
  assumes "od_capabilities to_json (Ptr a op) err = (Some l, e, u)"
    and "to_json (od_cap op) = Some (JObject kvs)" "distinct (map fst kvs)"
    and "list_all (\<lambda>k. nul_free k \<and> utf8_valid k) (map fst kvs)"
  shows "distinct (map fst l)
    \<and> (\<forall>i < od_capabilities_len (Ptr b l). \<exists>slot row. od_capabilities_entry (Ptr b l) i (Some old) err = (1, slot, Some row)
         \<and> cap_name row = Some (fst (l ! i)) \<and> cap_supported row = od_operator_supports to_json (Ptr a op) (cap_name row))
    \<and> (\<forall>n. n \<notin> set (map fst l) \<longrightarrow> od_operator_supports to_json (Ptr a op) (Some n) = 0)"
proof -
  let ?cs = "capability_bools to_json (od_cap op)"
  note keys = capability_bools_keys [of to_json "od_cap op", OF assms(2,3)]
  then have ok: "nul_free k \<and> utf8_valid k" if "k \<in> set (map fst ?cs)" for k
    using that assms(4) by (simp only: list_all_iff) blast
  have "l = map (\<lambda>(n, b). (case cstring_new n of Some s \<Rightarrow> s | None \<Rightarrow> '''', b)) ?cs"
    using assms(1) by (simp add: od_capabilities_def ffi_guard_def)
  also have "\<dots> = ?cs"
    using ok by (intro map_idI) (force simp: cstring_new_def)
  finally have l: "l = ?cs" .
  have asked: "od_operator_supports to_json (Ptr a op) (Some n) = (if map_of l n = Some True then 1 else 0)"
    if "n \<in> set (map fst l) \<Longrightarrow> utf8_valid n" for n
  proof (cases "map_of l n")
    case None
    then show ?thesis using keys by (simp add: od_operator_supports_def cstr_def find_key l)
  next
    case (Some v)
    then have "n \<in> set (map fst l)" by (force dest: map_of_SomeD)
    with that Some keys show ?thesis by (simp add: od_operator_supports_def cstr_def find_key l)
  qed
  have "od_operator_supports to_json (Ptr a op) (Some (fst (l ! i))) = (if snd (l ! i) then 1 else 0)"
    if "i < length l" for i
  proof -
    from that have mem: "l ! i \<in> set l" by simp
    with keys have "map_of l (fst (l ! i)) = Some (snd (l ! i))" by (simp add: l)
    moreover have "utf8_valid (fst (l ! i))" using ok mem by (auto simp: l)
    ultimately show ?thesis using asked by auto
  qed
  moreover have "od_operator_supports to_json (Ptr a op) (Some n) = 0" if "n \<notin> set (map fst l)" for n
  proof -
    from that have "map_of l n = None" by (simp add: map_of_eq_None_iff)
    with asked [of n] that show ?thesis by simp
  qed
  ultimately show ?thesis
    using keys by (simp add: l od_capabilities_entry_def od_capabilities_len_def ffi_guard_def)
qed

end
