(* ===== verification/Glob.thy ===== *)
theory Glob
  imports Prelude
begin

text \<open>
  The glob matcher of \<open>opendal/src/table.rs\<close>: the memoised recursion \<open>run\<close> and its
  entry \<open>glob_matches\<close>.  The memo table is threaded through the calls in the order in which
  Rust's short-circuit operators make them.  \<open>gmatch\<close> is the same recursion without a
  memo, and \<open>tokenize\<close> with \<open>glob_lang\<close> is the declarative meaning of a pattern: the set of
  paths it denotes.  The matcher is proved equal to both.
\<close>

section \<open>The matcher\<close>

text \<open>The loop over the body of a bracket class: ranges \<open>a-b\<close> and single bytes.\<close>

fun class_scan :: "string \<Rightarrow> char \<Rightarrow> bool" where
  "class_scan (a # d # b # cs) v =
     (if d = CHR ''-'' then (a \<le> v \<and> v \<le> b) \<or> class_scan cs v
      else a = v \<or> class_scan (d # b # cs) v)"
| "class_scan (a # cs) v \<longleftrightarrow> a = v \<or> class_scan cs v"
| "class_scan [] v \<longleftrightarrow> False"

definition class_negated :: "string \<Rightarrow> bool" where
  "class_negated cls \<longleftrightarrow> (case cls of [] \<Rightarrow> False | c # _ \<Rightarrow> c = CHR ''!'' \<or> c = CHR ''^'')"

definition class_matches :: "string \<Rightarrow> char \<Rightarrow> bool" where
  "class_matches cls v =
     (let negated = class_negated cls;
          body = (if negated then tl cls else cls)
      in class_scan body v \<noteq> negated)"

type_synonym memo = "nat \<times> nat \<Rightarrow> bool option"

function run :: "string \<Rightarrow> string \<Rightarrow> memo \<Rightarrow> bool \<times> memo" where
  "run pat val memo =
     (let key = (length pat, length val);
          store = (\<lambda>(r, m). (r, m(key \<mapsto> r)))
      in case memo key of Some r \<Rightarrow> (r, memo) | None \<Rightarrow>
        if pat = [] then store (val = [], memo)
        else if prefix ''**'' pat then
          (let (r1, m1) =
             (if drop 2 pat \<noteq> [] \<and> hd (drop 2 pat) = CHR ''/'' then run (drop 3 pat) val memo
              else (False, memo))
           in if r1 then store (True, m1) else
             (let (r2, m2) = run (drop 2 pat) val m1
              in if r2 then store (True, m2) else
                if val = [] then store (False, m2) else store (run pat (tl val) m2)))
        else if hd pat = CHR ''*'' then
          (let (r1, m1) = run (tl pat) val memo
           in if r1 then store (True, m1)
             else if val \<noteq> [] \<and> hd val \<noteq> CHR ''/'' then store (run pat (tl val) m1)
             else store (False, m1))
        else if hd pat = CHR ''?'' then
          (if val \<noteq> [] \<and> hd val \<noteq> CHR ''/'' then store (run (tl pat) (tl val) memo)
           else store (False, memo))
        else if hd pat = CHR ''['' then
          (case position (\<lambda>c. c = CHR '']'') pat of None \<Rightarrow> (False, memo)
           | Some e \<Rightarrow>
               if val = [] \<or> hd val = CHR ''/'' then store (False, memo)
               else if class_matches (take (e - 1) (drop 1 pat)) (hd val)
                 then store (run (drop (e + 1) pat) (tl val) memo)
                 else store (False, memo))
        else if val \<noteq> [] \<and> hd pat = hd val then store (run (tl pat) (tl val) memo)
        else store (False, memo))"
  by pat_completeness auto
termination
  by (relation "measure (\<lambda>(p, v, m). length p + length v)")
    (auto simp: Let_def length_greater_0_conv [symmetric] prefix_def simp del: length_greater_0_conv)

declare run.simps [simp del]

definition glob_matches :: "string \<Rightarrow> string \<Rightarrow> bool" where
  "glob_matches pat val = fst (run pat val Map.empty)"

section \<open>What a pattern means\<close>

text \<open>
  A pattern is a sequence of tokens, and a token is a set of byte strings.  \<open>Seg\<close> is a
  single star (it stops at a slash), \<open>Deep\<close> a double star.  A slash that directly follows a
  double star belongs to the token: the matcher may skip it wherever the double star
  stopped, so \<open>**/\<close> denotes every string, like \<open>**\<close>.  \<open>Bad\<close> is a bracket that is not
  closed, which no path matches.
\<close>

datatype gtok = Lit char | One | Seg | Deep | Class string | Bad

function tokenize :: "string \<Rightarrow> gtok list" where
  "tokenize pat =
     (if pat = [] then []
      else if prefix ''**/'' pat then Deep # tokenize (drop 3 pat)
      else if prefix ''**'' pat then Deep # tokenize (drop 2 pat)
      else if hd pat = CHR ''*'' then Seg # tokenize (tl pat)
      else if hd pat = CHR ''?'' then One # tokenize (tl pat)
      else if hd pat = CHR ''['' then
        (case position (\<lambda>c. c = CHR '']'') pat of None \<Rightarrow> [Bad]
         | Some e \<Rightarrow> Class (take (e - 1) (drop 1 pat)) # tokenize (drop (e + 1) pat))
      else Lit (hd pat) # tokenize (tl pat))"
  by pat_completeness auto
termination
  by (relation "measure length") (auto simp: prefix_def)

declare tokenize.simps [simp del]

fun tok_lang :: "gtok \<Rightarrow> string set" where
  "tok_lang (Lit c) = {[c]}"
| "tok_lang One = {[x] | x. x \<noteq> CHR ''/''}"
| "tok_lang Seg = {s. CHR ''/'' \<notin> set s}"
| "tok_lang Deep = UNIV"
| "tok_lang (Class cls) = {[x] | x. x \<noteq> CHR ''/'' \<and> class_matches cls x}"
| "tok_lang Bad = {}"

fun glob_lang :: "gtok list \<Rightarrow> string set" where
  "glob_lang [] = {[]}"
| "glob_lang (t # ts) = {a @ b | a b. a \<in> tok_lang t \<and> b \<in> glob_lang ts}"

text \<open>The executable reference: match token by token, without a memo.\<close>

fun tok_match :: "gtok list \<Rightarrow> string \<Rightarrow> bool" where
  "tok_match [] v \<longleftrightarrow> v = []"
| "tok_match (Seg # ts) [] \<longleftrightarrow> tok_match ts []"
| "tok_match (Seg # ts) (x # v) \<longleftrightarrow>
     tok_match ts (x # v) \<or> (x \<noteq> CHR ''/'' \<and> tok_match (Seg # ts) v)"
| "tok_match (Deep # ts) [] \<longleftrightarrow> tok_match ts []"
| "tok_match (Deep # ts) (x # v) \<longleftrightarrow> tok_match ts (x # v) \<or> tok_match (Deep # ts) v"
| "tok_match (t # ts) [] \<longleftrightarrow> False"
| "tok_match (Lit c # ts) (x # v) \<longleftrightarrow> x = c \<and> tok_match ts v"
| "tok_match (One # ts) (x # v) \<longleftrightarrow> x \<noteq> CHR ''/'' \<and> tok_match ts v"
| "tok_match (Class cls # ts) (x # v) \<longleftrightarrow>
     x \<noteq> CHR ''/'' \<and> class_matches cls x \<and> tok_match ts v"
| "tok_match (Bad # ts) (x # v) \<longleftrightarrow> False"

definition gmatch :: "string \<Rightarrow> string \<Rightarrow> bool" where
  "gmatch pat val = tok_match (tokenize pat) val"

section \<open>The reference matcher decides the language\<close>

lemma glob_lang_Cons_iff:
  "x # v \<in> glob_lang (t # ts) \<longleftrightarrow>
     [] \<in> tok_lang t \<and> x # v \<in> glob_lang ts
     \<or> (\<exists>a b. v = a @ b \<and> x # a \<in> tok_lang t \<and> b \<in> glob_lang ts)"
  by (auto simp: Cons_eq_append_conv)

lemma glob_lang_Nil_iff:
  "[] \<in> glob_lang (t # ts) \<longleftrightarrow> [] \<in> tok_lang t \<and> [] \<in> glob_lang ts"
  by auto

declare glob_lang.simps(2) [simp del]

lemma glob_lang_Deep_iff: "v \<in> glob_lang (Deep # ts) \<longleftrightarrow> (\<exists>a b. v = a @ b \<and> b \<in> glob_lang ts)"
  by (simp add: glob_lang.simps(2))

lemma glob_lang_Seg_iff:
  "v \<in> glob_lang (Seg # ts) \<longleftrightarrow> (\<exists>a b. v = a @ b \<and> CHR ''/'' \<notin> set a \<and> b \<in> glob_lang ts)"
  by (auto simp: glob_lang.simps(2))

lemma glob_lang_step:
  "x # v \<in> glob_lang (Deep # ts) \<longleftrightarrow> x # v \<in> glob_lang ts \<or> v \<in> glob_lang (Deep # ts)"
  "x # v \<in> glob_lang (Seg # ts) \<longleftrightarrow>
     x # v \<in> glob_lang ts \<or> (x \<noteq> CHR ''/'' \<and> v \<in> glob_lang (Seg # ts))"
  "x # v \<in> glob_lang (Lit c # ts) \<longleftrightarrow> x = c \<and> v \<in> glob_lang ts"
  "x # v \<in> glob_lang (One # ts) \<longleftrightarrow> x \<noteq> CHR ''/'' \<and> v \<in> glob_lang ts"
  "x # v \<in> glob_lang (Class cls # ts) \<longleftrightarrow>
     x \<noteq> CHR ''/'' \<and> class_matches cls x \<and> v \<in> glob_lang ts"
  unfolding glob_lang_Cons_iff
  by (simp_all add: glob_lang_Deep_iff glob_lang_Seg_iff) blast

lemma glob_lang_Bad: "v \<notin> glob_lang (Bad # ts)"
  by (simp add: glob_lang.simps(2))

lemma tok_match_lang: "tok_match ts v \<longleftrightarrow> v \<in> glob_lang ts"
  by (induction ts v rule: tok_match.induct)
    (simp_all add: glob_lang_step glob_lang_Nil_iff glob_lang_Bad)

section \<open>Memo tables\<close>

text \<open>
  The contract of a memo: keys identify the arguments within the domain of the computation,
  so storing a correct result keeps every stored result correct.
\<close>

locale memo_table =
  fixes key :: "'a \<Rightarrow> 'k"
    and f :: "'a \<Rightarrow> 'r"
    and D :: "'a set"
  assumes key_inj: "a \<in> D \<Longrightarrow> b \<in> D \<Longrightarrow> key a = key b \<Longrightarrow> a = b"
begin

definition memo_ok :: "('k \<Rightarrow> 'r option) \<Rightarrow> bool" where
  "memo_ok m \<longleftrightarrow> (\<forall>a \<in> D. \<forall>r. m (key a) = Some r \<longrightarrow> r = f a)"

definition sound :: "'a \<Rightarrow> 'r \<times> ('k \<Rightarrow> 'r option) \<Rightarrow> bool" where
  "sound a res \<longleftrightarrow> fst res = f a \<and> memo_ok (snd res)"

lemma memo_ok_empty [simp]: "memo_ok Map.empty"
  by (simp add: memo_ok_def)

lemma memo_hit: "memo_ok m \<Longrightarrow> a \<in> D \<Longrightarrow> m (key a) = Some r \<Longrightarrow> sound a (r, m)"
  by (simp add: memo_ok_def sound_def)

lemma memo_store:
  "a \<in> D \<Longrightarrow> memo_ok m \<Longrightarrow> r = f a \<Longrightarrow> sound a (r, m(key a \<mapsto> r))"
  by (auto simp: memo_ok_def sound_def dest: key_inj)

lemma sound_pair: "sound a (r, m) \<longleftrightarrow> r = f a \<and> memo_ok m"
  by (simp add: sound_def)

end

text \<open>Within one call all patterns and values are suffixes of the two arguments, and a suffix
  is identified by its length: this is what makes the pair of lengths a sound key.\<close>

definition suffix_pairs :: "string \<Rightarrow> string \<Rightarrow> (string \<times> string) set" where
  "suffix_pairs P V = {(p, v). suffix p P \<and> suffix v V}"

lemma suffix_same_length: "suffix a s \<Longrightarrow> suffix b s \<Longrightarrow> length a = length b \<Longrightarrow> a = b"
  by (auto simp: suffix_def append_eq_append_conv)

interpretation gm: memo_table
  "\<lambda>(p, v). (length p, length v)" "\<lambda>(p, v). gmatch p v" "suffix_pairs P V"
  for P V :: string
  by unfold_locales (auto simp: suffix_pairs_def intro: suffix_same_length)

section \<open>The memoised matcher computes the reference matcher\<close>

lemma suffix_pairs_step:
  "(p, v) \<in> suffix_pairs P V \<Longrightarrow> (drop i p, v) \<in> suffix_pairs P V"
  "(p, v) \<in> suffix_pairs P V \<Longrightarrow> (p, tl v) \<in> suffix_pairs P V"
  "(p, v) \<in> suffix_pairs P V \<Longrightarrow> (tl p, v) \<in> suffix_pairs P V"
  by (auto simp: suffix_pairs_def intro: suffix_order.trans suffix_drop suffix_tl)

lemma gmatch_Nil: "gmatch [] v \<longleftrightarrow> v = []"
  by (simp add: gmatch_def tokenize.simps)

lemma gmatch_star:
  assumes "p \<noteq> []" "\<not> prefix ''**'' p" "hd p = CHR ''*''"
  shows "gmatch p v \<longleftrightarrow> gmatch (tl p) v \<or> (v \<noteq> [] \<and> hd v \<noteq> CHR ''/'' \<and> gmatch p (tl v))"
proof -
  have "tokenize p = Seg # tokenize (tl p)"
    using assms by (subst tokenize.simps) (auto simp: prefix_def)
  then show ?thesis by (cases v) (simp_all add: gmatch_def)
qed

lemma gmatch_deep:
  assumes "prefix ''**'' p"
  shows "gmatch p v \<longleftrightarrow>
    (drop 2 p \<noteq> [] \<and> hd (drop 2 p) = CHR ''/'' \<and> gmatch (drop 3 p) v)
    \<or> gmatch (drop 2 p) v \<or> (v \<noteq> [] \<and> gmatch p (tl v))"
proof (cases "prefix ''**/'' p")
  case True
  then obtain q where p: "p = ''**/'' @ q" by (auto simp: prefix_def)
  have t: "tokenize p = Deep # tokenize q"
    unfolding p by (subst tokenize.simps) (simp add: prefix_def)
  have l: "tokenize (CHR ''/'' # q) = Lit CHR ''/'' # tokenize q"
    by (subst tokenize.simps) (simp add: prefix_def)
  have "tok_match (Deep # ts) w" if "tok_match ts w" for ts w
    using that by (cases w) simp_all
  with t l p show ?thesis by (cases v) (auto simp: gmatch_def)
next
  case False
  then have "tokenize p = Deep # tokenize (drop 2 p)"
    using assms by (subst tokenize.simps) (auto simp: prefix_def)
  moreover have "\<not> (drop 2 p \<noteq> [] \<and> hd (drop 2 p) = CHR ''/'')"
  proof
    assume a: "drop 2 p \<noteq> [] \<and> hd (drop 2 p) = CHR ''/''"
    from assms obtain r where r: "p = ''**'' @ r" by (auto simp: prefix_def)
    with a have "r = CHR ''/'' # tl r" by (cases r) auto
    with r have "p = ''**/'' @ tl r" by simp
    with False show False by (metis prefixI)
  qed
  ultimately show ?thesis by (cases v) (auto simp: gmatch_def)
qed

lemma gmatch_one:
  assumes "p \<noteq> []" "hd p = CHR ''?''"
  shows "gmatch p v \<longleftrightarrow> v \<noteq> [] \<and> hd v \<noteq> CHR ''/'' \<and> gmatch (tl p) (tl v)"
proof -
  have "tokenize p = One # tokenize (tl p)"
    using assms by (subst tokenize.simps) (auto simp: prefix_def)
  then show ?thesis by (cases v) (simp_all add: gmatch_def)
qed

lemma gmatch_class:
  assumes "p \<noteq> []" "hd p = CHR ''[''"
  shows "gmatch p v \<longleftrightarrow>
    (case position (\<lambda>c. c = CHR '']'') p of None \<Rightarrow> False
     | Some e \<Rightarrow> v \<noteq> [] \<and> hd v \<noteq> CHR ''/'' \<and> class_matches (take (e - 1) (drop 1 p)) (hd v)
         \<and> gmatch (drop (e + 1) p) (tl v))"
proof -
  have "tokenize p =
    (case position (\<lambda>c. c = CHR '']'') p of None \<Rightarrow> [Bad]
     | Some e \<Rightarrow> Class (take (e - 1) (drop 1 p)) # tokenize (drop (e + 1) p))"
    using assms by (subst tokenize.simps) (auto simp: prefix_def)
  then show ?thesis by (cases v) (simp_all add: gmatch_def split: option.split)
qed

lemma gmatch_lit:
  assumes "p \<noteq> []" "hd p \<notin> set ''*?[''"
  shows "gmatch p v \<longleftrightarrow> v \<noteq> [] \<and> hd p = hd v \<and> gmatch (tl p) (tl v)"
proof -
  have "tokenize p = Lit (hd p) # tokenize (tl p)"
    using assms by (subst tokenize.simps) (auto simp: prefix_def)
  then show ?thesis by (cases v) (auto simp: gmatch_def)
qed

lemmas gmatch_cases = gmatch_Nil gmatch_star gmatch_deep gmatch_one gmatch_class gmatch_lit

text \<open>Storing the outcome of a sound sub-computation that has the same value is sound.\<close>

lemma gm_store:
  assumes "(p, v) \<in> suffix_pairs P V" "gm.memo_ok P V m" "r = gmatch p v"
  shows "gm.sound P V (p, v) (r, m((length p, length v) \<mapsto> r))"
  using gm.memo_store [of "(p, v)" P V m r] assms by simp

lemma gm_store_call:
  assumes "(p, v) \<in> suffix_pairs P V" "gm.sound P V (q, w) res" "gmatch q w = gmatch p v"
  shows "gm.sound P V (p, v) (case res of (r, m) \<Rightarrow> (r, m((length p, length v) \<mapsto> r)))"
  using assms gm.memo_store [of "(p, v)" P V "snd res" "fst res"]
  by (cases res) (simp add: gm.sound_pair)

lemma shorter_tl: "p \<noteq> [] \<Longrightarrow> length (tl p) + length (tl v) < length p + length v"
  by (cases p) auto

lemma shorter_drop: "p \<noteq> [] \<Longrightarrow> length (drop (e + 1) p) + length (tl v) < length p + length v"
  by (cases p) auto

definition sound_below :: "string \<Rightarrow> string \<Rightarrow> nat \<Rightarrow> bool" where
  "sound_below P V n \<longleftrightarrow>
     (\<forall>q w m. length q + length w < n \<longrightarrow> (q, w) \<in> suffix_pairs P V \<longrightarrow> gm.memo_ok P V m
        \<longrightarrow> gm.sound P V (q, w) (run q w m))"

lemma sound_belowD:
  assumes "sound_below P V n" "length q + length w < n" "(q, w) \<in> suffix_pairs P V" "gm.memo_ok P V m"
  shows "gm.sound P V (q, w) (run q w m)"
  using assms by (simp add: sound_below_def)

text \<open>One lemma per branch of the matcher, for a pair that is not in the memo yet.\<close>

lemma run_sound_deep:
  assumes D: "(p, v) \<in> suffix_pairs P V" and ok: "gm.memo_ok P V m"
    and IH: "sound_below P V (length p + length v)"
    and miss: "m (length p, length v) = None" and pat: "p \<noteq> []" "prefix ''**'' p"
  shows "gm.sound P V (p, v) (run p v m)"
proof -
  let ?slash = "drop 2 p \<noteq> [] \<and> hd (drop 2 p) = CHR ''/''"
  obtain r1 m1 where 1: "(if ?slash then run (drop 3 p) v m else (False, m)) = (r1, m1)"
    by fastforce
  have s1: "r1 = (?slash \<and> gmatch (drop 3 p) v)" "gm.memo_ok P V m1"
    using 1 sound_belowD [OF IH, of "drop 3 p" v m] pat D ok
    by (auto simp: gm.sound_pair suffix_pairs_step split: if_splits)
  obtain r2 m2 where 2: "run (drop 2 p) v m1 = (r2, m2)" by fastforce
  have s2: "r2 = gmatch (drop 2 p) v" "gm.memo_ok P V m2"
    using 2 sound_belowD [OF IH, of "drop 2 p" v m1] pat D s1
    by (auto simp: gm.sound_pair suffix_pairs_step)
  have s3: "v \<noteq> [] \<Longrightarrow> gm.sound P V (p, tl v) (run p (tl v) m2)"
    using D s2 by (intro sound_belowD [OF IH]) (auto simp: suffix_pairs_step)
  have g: "gmatch p v \<longleftrightarrow> r1 \<or> r2 \<or> (v \<noteq> [] \<and> gmatch p (tl v))"
    using gmatch_deep [OF pat(2), of v] s1 s2 by blast
  note unfold = run.simps [of p v m] miss pat 1 2
  show ?thesis
  proof (cases "r1 \<or> r2 \<or> v = []")
    case True
    with g have "gmatch p v = (r1 \<or> r2)" by blast
    with True unfold show ?thesis
      using gm_store [OF D s1(2), of r1] gm_store [OF D s2(2), of r2] by (cases r1) auto
  next
    case False
    with g have "gmatch p (tl v) = gmatch p v" by blast
    with False unfold s3 show ?thesis by (simp add: gm_store_call [OF D])
  qed
qed

lemma run_sound_star:
  assumes D: "(p, v) \<in> suffix_pairs P V" and ok: "gm.memo_ok P V m"
    and IH: "sound_below P V (length p + length v)"
    and miss: "m (length p, length v) = None"
    and pat: "p \<noteq> []" "\<not> prefix ''**'' p" "hd p = CHR ''*''"
  shows "gm.sound P V (p, v) (run p v m)"
proof -
  obtain r1 m1 where 1: "run (tl p) v m = (r1, m1)" by fastforce
  have s1: "r1 = gmatch (tl p) v" "gm.memo_ok P V m1"
    using 1 sound_belowD [OF IH, of "tl p" v m] pat D ok
    by (auto simp: gm.sound_pair suffix_pairs_step)
  note unfold = run.simps [of p v m] miss pat 1
  show ?thesis
  proof (cases "\<not> r1 \<and> v \<noteq> [] \<and> hd v \<noteq> CHR ''/''")
    case True
    have "gm.sound P V (p, tl v) (run p (tl v) m1)"
      using True D s1 by (intro sound_belowD [OF IH]) (auto simp: suffix_pairs_step)
    moreover have "gmatch p (tl v) = gmatch p v"
      using True s1 gmatch_star [OF pat, of v] by blast
    ultimately show ?thesis using True unfold by (simp add: gm_store_call [OF D])
  next
    case False
    with s1 have "r1 = gmatch p v" using gmatch_star [OF pat, of v] by blast
    with gm_store [OF D s1(2) this] False unfold show ?thesis by (cases r1) auto
  qed
qed

lemma run_sound_class:
  assumes D: "(p, v) \<in> suffix_pairs P V" and ok: "gm.memo_ok P V m"
    and IH: "sound_below P V (length p + length v)"
    and miss: "m (length p, length v) = None"
    and pat: "p \<noteq> []" "\<not> prefix ''**'' p" "hd p = CHR ''[''"
  shows "gm.sound P V (p, v) (run p v m)"
proof (cases "position (\<lambda>c. c = CHR '']'') p")
  case None
  with pat ok miss gmatch_class [OF pat(1,3), of v] show ?thesis
    by (simp add: run.simps [of p v m] gm.sound_pair)
next
  case (Some e)
  note unfold = run.simps [of p v m] miss pat Some Let_def
  let ?hit = "v \<noteq> [] \<and> hd v \<noteq> CHR ''/'' \<and> class_matches (take (e - 1) (drop 1 p)) (hd v)"
  have g: "gmatch p v \<longleftrightarrow> ?hit \<and> gmatch (drop (e + 1) p) (tl v)"
    using gmatch_class [OF pat(1,3), of v] Some by simp
  show ?thesis
  proof (cases ?hit)
    case True
    have "gm.sound P V (drop (e + 1) p, tl v) (run (drop (e + 1) p) (tl v) m)"
      using pat D ok by (intro sound_belowD [OF IH] shorter_drop) (auto simp: suffix_pairs_step)
    from gm_store_call [OF D this] True g show ?thesis by (simp add: unfold)
  next
    case False
    with g have "\<not> gmatch p v" by blast
    with False gm_store [OF D ok, of False] show ?thesis by (auto simp: unfold)
  qed
qed

lemma run_sound_byte:
  assumes D: "(p, v) \<in> suffix_pairs P V" and ok: "gm.memo_ok P V m"
    and IH: "sound_below P V (length p + length v)"
    and miss: "m (length p, length v) = None"
    and pat: "p \<noteq> []" "\<not> prefix ''**'' p" "hd p \<notin> set ''*[''"
  shows "gm.sound P V (p, v) (run p v m)"
proof -
  note unfold = run.simps [of p v m] miss pat
  let ?hit = "v \<noteq> [] \<and> (if hd p = CHR ''?'' then hd v \<noteq> CHR ''/'' else hd p = hd v)"
  have g: "gmatch p v \<longleftrightarrow> ?hit \<and> gmatch (tl p) (tl v)"
    using gmatch_one [of p v] gmatch_lit [of p v] pat by auto
  have next_sound: "gm.sound P V (tl p, tl v) (run (tl p) (tl v) m)"
    using pat D ok by (intro sound_belowD [OF IH] shorter_tl) (auto simp: suffix_pairs_step)
  show ?thesis
  proof (cases ?hit)
    case True
    with g have "gmatch (tl p) (tl v) = gmatch p v" by blast
    from gm_store_call [OF D next_sound this] True pat show ?thesis
      by (cases "hd p = CHR ''?''") (simp_all add: unfold)
  next
    case False
    with g have "\<not> gmatch p v" by blast
    with False gm_store [OF D ok, of False] pat show ?thesis
      by (cases "hd p = CHR ''?''") (auto simp: unfold)
  qed
qed

lemma run_sound:
  assumes "(p, v) \<in> suffix_pairs P V" and "gm.memo_ok P V m"
  shows "gm.sound P V (p, v) (run p v m)"
  using assms
proof (induction "length p + length v" arbitrary: p v m rule: less_induct)
  case less
  note D = less.prems(1) and ok = less.prems(2)
  have IH: "sound_below P V (length p + length v)"
    using less.hyps by (simp add: sound_below_def)
  show ?case
  proof (cases "m (length p, length v)")
    case (Some r)
    then show ?thesis using gm.memo_hit [OF ok D] by (subst run.simps) simp
  next
    case None
    note step = run_sound_deep run_sound_star run_sound_class run_sound_byte
    show ?thesis
    proof (cases "p = []")
      case True
      have "gm.sound P V (p, v) (gmatch p v, m((length p, length v) \<mapsto> gmatch p v))"
        by (rule gm_store [OF D ok refl])
      with True None show ?thesis by (subst run.simps) (simp add: gmatch_Nil)
    next
      case False
      then show ?thesis using step [OF D ok IH None] by auto
    qed
  qed
qed

lemma glob_matches_gmatch: "glob_matches p v = gmatch p v"
proof -
  have "gm.sound p v (p, v) (run p v Map.empty)"
    by (rule run_sound [OF _ gm.memo_ok_empty]) (simp add: suffix_pairs_def)
  then show ?thesis by (simp add: glob_matches_def gm.sound_def)
qed

section \<open>Consequences for users of patterns\<close>

lemma glob_matches_lang_lemma: "glob_matches p v \<longleftrightarrow> v \<in> glob_lang (tokenize p)"
  by (simp add: glob_matches_gmatch gmatch_def tok_match_lang)

text \<open>The slashes a pattern spells out.\<close>

definition slash_tokens :: "gtok list \<Rightarrow> nat" where
  "slash_tokens ts = length (filter (\<lambda>t. t = Lit CHR ''/'') ts)"

lemma tok_lang_slashes:
  "a \<in> tok_lang t \<Longrightarrow> t \<noteq> Deep \<Longrightarrow> count_list a CHR ''/'' = (if t = Lit CHR ''/'' then 1 else 0)"
  by (cases t) auto

lemma glob_lang_slashes:
  "v \<in> glob_lang ts \<Longrightarrow> Deep \<notin> set ts \<Longrightarrow> count_list v CHR ''/'' = slash_tokens ts"
proof (induction ts arbitrary: v)
  case Nil
  then show ?case by (simp add: slash_tokens_def)
next
  case (Cons t ts)
  then obtain a b where "v = a @ b" "a \<in> tok_lang t" "b \<in> glob_lang ts"
    by (auto simp: glob_lang.simps(2))
  with Cons tok_lang_slashes [of a t] show ?case by (auto simp: slash_tokens_def)
qed

text \<open>Literal bytes: a pattern whose first byte is no wildcard consumes exactly that byte.\<close>

lemma gmatch_literal_prefix:
  assumes "list_all (\<lambda>c. c \<notin> set ''*?['') l"
  shows "gmatch (l @ p) v \<longleftrightarrow> (\<exists>w. v = l @ w \<and> gmatch p w)"
  using assms
proof (induction l arbitrary: v)
  case Nil
  show ?case by simp
next
  case (Cons c l)
  then show ?case using gmatch_lit [of "c # l @ p" v] by (cases v) auto
qed

section \<open>Properties\<close>

text \<open>
  C2: the memoised matcher decides exactly the language of the pattern's tokens: a path
  matches when it splits into pieces, one per token, each in the set the token denotes.
\<close>

theorem glob_matches_iff_lang: "glob_matches p v \<longleftrightarrow> v \<in> glob_lang (tokenize p)"
  by (rule glob_matches_lang_lemma)

text \<open>
  Single stars, question marks and bracket classes stop at slashes: a pattern without a
  double star matches only paths with as many slashes as the pattern spells out.
\<close>

lemma glob_depth:
  assumes "glob_matches p v" and "Deep \<notin> set (tokenize p)"
  shows "count_list v CHR ''/'' = slash_tokens (tokenize p)"
  using assms by (auto simp: glob_matches_lang_lemma intro: glob_lang_slashes)

end
