(* ===== verification/Paths.thy ===== *)
theory Paths
  imports Glob
begin

text \<open>
  The path helpers of \<open>opendal/src/table.rs\<close>: where a glob starts listing (\<open>glob_root\<close>), the
  directory a file is rolled up under (\<open>parent\<close>), and how a copied path moves from its base to
  the destination (\<open>strip_base\<close>, \<open>join_dest\<close>).
\<close>

section \<open>Definitions\<close>

definition is_wildcard :: "char \<Rightarrow> bool" where
  "is_wildcard c \<longleftrightarrow> c \<in> set ''*?[''"

definition has_glob :: "string \<Rightarrow> bool" where
  "has_glob path \<longleftrightarrow> list_ex is_wildcard path"

definition glob_root :: "string \<Rightarrow> string" where
  "glob_root pattern =
     (let wildcard = (case position is_wildcard pattern of Some i \<Rightarrow> i | None \<Rightarrow> length pattern);
          fixed = take wildcard pattern
      in case rfind_char CHR ''/'' fixed of None \<Rightarrow> '''' | Some slash \<Rightarrow> take (slash + 1) pattern)"

definition parent :: "string \<Rightarrow> string" where
  "parent path =
     (case rfind_char CHR ''/'' (trim_end_char CHR ''/'' path) of
        None \<Rightarrow> '''' | Some slash \<Rightarrow> take slash path)"

definition strip_base :: "string \<Rightarrow> string \<Rightarrow> string" where
  "strip_base base path = (case strip_prefix base path of Some rel \<Rightarrow> rel | None \<Rightarrow> path)"

definition join_dest :: "string \<Rightarrow> string \<Rightarrow> string" where
  "join_dest pre rel =
     (if pre = [] then rel
      else if last pre = CHR ''/'' then pre @ rel
      else pre @ ''/'' @ rel)"

section \<open>Lemmas\<close>

lemma has_glob_iff: "has_glob p \<longleftrightarrow> position is_wildcard p \<noteq> None"
  by (auto simp: has_glob_def position_None_iff list_ex_iff)

text \<open>The root is a prefix of the pattern without wildcards, and empty or closed by a slash.\<close>

lemma glob_root_split:
  "\<exists>rest. pattern = glob_root pattern @ rest \<and> list_all (\<lambda>c. \<not> is_wildcard c) (glob_root pattern)
     \<and> (glob_root pattern = [] \<or> last (glob_root pattern) = CHR ''/'')"
proof -
  define w where "w = (case position is_wildcard pattern of Some i \<Rightarrow> i | None \<Rightarrow> length pattern)"
  have fixed: "list_all (\<lambda>c. \<not> is_wildcard c) (take w pattern)"
    by (auto simp: w_def list_all_iff position_None_iff position_Some_iff split: option.splits)
  show ?thesis
  proof (cases "rfind_char CHR ''/'' (take w pattern)")
    case None
    then show ?thesis by (simp add: glob_root_def w_def [symmetric])
  next
    case (Some s)
    then have s: "s < length (take w pattern)" "take w pattern ! s = CHR ''/''"
      by (auto dest: rfind_char_SomeD)
    have root: "glob_root pattern = take (Suc s) pattern"
      using Some by (simp add: glob_root_def w_def [symmetric])
    have "take (Suc s) pattern = take (Suc s) (take w pattern)" using s by simp
    then have "list_all (\<lambda>c. \<not> is_wildcard c) (take (Suc s) pattern)"
      using fixed by (metis append_take_drop_id list_all_append)
    moreover have "last (take (Suc s) pattern) = CHR ''/''"
      using s by (simp add: take_Suc_conv_app_nth)
    ultimately show ?thesis
      unfolding root by (intro exI [of _ "drop (Suc s) pattern"]) simp
  qed
qed

lemma trim_start_append:
  "trim_start_char c (a @ b) = (if set a \<subseteq> {c} then trim_start_char c b else trim_start_char c a @ b)"
  by (induction a) (auto simp: trim_start_char_def)

text \<open>Every path a pattern matches lies under the root the listing starts from.\<close>

lemma glob_root_prefix:
  assumes "glob_matches (trim_start_char CHR ''/'' pattern) path"
  shows "prefix (trim_start_char CHR ''/'' (glob_root pattern)) path"
proof -
  let ?root = "glob_root pattern"
  obtain rest where p: "pattern = ?root @ rest" and lit: "list_all (\<lambda>c. \<not> is_wildcard c) ?root"
    using glob_root_split by blast
  show ?thesis
  proof (cases "set ?root \<subseteq> {CHR ''/''}")
    case True
    then have "trim_start_char CHR ''/'' ?root = []"
      by (auto simp: trim_start_char_def)
    then show ?thesis by simp
  next
    case False
    let ?l = "trim_start_char CHR ''/'' ?root"
    have "trim_start_char CHR ''/'' pattern = ?l @ rest"
      using False by (subst p) (simp add: trim_start_append)
    moreover have "list_all (\<lambda>c. c \<notin> set ''*?['') ?l"
      using lit by (auto simp: list_all_iff is_wildcard_def trim_start_char_def dest: set_dropWhileD)
    ultimately show ?thesis
      using assms by (auto simp: glob_matches_gmatch gmatch_literal_prefix prefix_def)
  qed
qed

lemma strip_base_prefix: "strip_base base (base @ rel) = rel"
  by (simp add: strip_base_def strip_prefix_def)

lemma join_dest_inj: "join_dest d a = join_dest d b \<longleftrightarrow> a = b"
  by (simp add: join_dest_def)

lemma rfind_char_append:
  "c \<notin> set b \<Longrightarrow> rfind_char c (a @ c # b) = Some (length a)"
  by (induction a) (auto simp: rfind_char_None_iff [THEN iffD2])

lemma trim_end_char_id: "s = [] \<or> last s \<noteq> c \<Longrightarrow> trim_end_char c s = s"
  by (cases s rule: rev_cases) (auto simp: trim_end_char_def)

lemma parent_file:
  assumes "name \<noteq> []" "CHR ''/'' \<notin> set name"
  shows "parent (dir @ ''/'' @ name) = dir" and "parent name = ''''"
proof -
  have l: "last name \<noteq> CHR ''/''" using assms by (metis last_in_set)
  then have "trim_end_char CHR ''/'' (dir @ ''/'' @ name) = dir @ ''/'' @ name"
    using assms by (intro trim_end_char_id) simp
  then show "parent (dir @ ''/'' @ name) = dir"
    using assms by (simp add: parent_def rfind_char_append)
  have "trim_end_char CHR ''/'' name = name" using l by (simp add: trim_end_char_id)
  with assms(2) show "parent name = ''''"
    by (simp add: parent_def rfind_char_None_iff [THEN iffD2])
qed

end
