(* ===== verification/Uri.thy ===== *)
theory Uri
  imports Capability Paths
begin

text \<open>
  URL handling: \<open>resolve\<close> (\<open>opendal/src/uri.rs\<close>) and the entry points \<open>od_url_resolve\<close>,
  \<open>od_url_build\<close> and \<open>od_glob_match\<close> of \<open>opendal/src/lib.rs\<close>.  The \<open>percent-encoding\<close> crate is a
  parameter; its documented behaviour is the locale \<open>percent_codec\<close>.
\<close>

section \<open>The percent-encoding interface\<close>

record percent_env =
  controls :: "char \<Rightarrow> bool"
  percent_encode :: "(char \<Rightarrow> bool) \<Rightarrow> string \<Rightarrow> string"
  percent_decode :: "string \<Rightarrow> string"

definition hex_digit :: "nat \<Rightarrow> char" where
  "hex_digit n = (if n < 10 then char_of (48 + n) else char_of (55 + n))"

definition pct :: "char \<Rightarrow> string" where
  "pct b = [CHR ''%'', hex_digit (of_char b div 16), hex_digit (of_char b mod 16)]"

definition hex_value :: "char \<Rightarrow> nat option" where
  "hex_value c =
     (let n = of_char c
      in if 48 \<le> n \<and> n \<le> 57 then Some (n - 48)
         else if 65 \<le> n \<and> n \<le> 70 then Some (n - 55)
         else if 97 \<le> n \<and> n \<le> 102 then Some (n - 87) else None)"

text \<open>The byte a percent sign stands for, given what follows it.\<close>

definition pct_byte :: "string \<Rightarrow> char option" where
  "pct_byte s =
     (case s of h # l # _ \<Rightarrow>
        (case (hex_value h, hex_value l) of (Some a, Some b) \<Rightarrow> Some (char_of (16 * a + b)) | _ \<Rightarrow> None)
      | _ \<Rightarrow> None)"

locale percent_codec =
  fixes P :: percent_env
  assumes controls_iff: "controls P c \<longleftrightarrow> (of_char c :: nat) < 32 \<or> c = CHR 0x7F"
    and encode_Nil: "percent_encode P S [] = []"
    and encode_Cons: "percent_encode P S (b # s) =
      (if S b \<or> \<not> is_ascii b then pct b else [b]) @ percent_encode P S s"
    and decode_Nil: "percent_decode P [] = []"
    and decode_plain: "c \<noteq> CHR ''%'' \<Longrightarrow> percent_decode P (c # s) = c # percent_decode P s"
    and decode_pct: "percent_decode P (CHR ''%'' # s) =
      (case pct_byte s of Some b \<Rightarrow> b # percent_decode P (drop 2 s)
       | None \<Rightarrow> CHR ''%'' # percent_decode P s)"

section \<open>Definitions\<close>

type_synonym resolve_result = "((od_error_code \<times> string) + (string \<times> string \<times> string)) outcome"

definition resolve :: "percent_env \<Rightarrow> string list \<Rightarrow> c_str \<Rightarrow> resolve_result" where
  "resolve P registry url =
     (case cstr url of None \<Rightarrow> Ret (Inl (CodeInvalidInput, ''url is null or not UTF-8''))
      | Some url_str \<Rightarrow>
        (let u = replace_byte (CHR 0x5C) (CHR ''/'') url_str in
         if CHR ''?'' \<in> set u \<or> CHR ''#'' \<in> set u
         then Ret (Inl (CodeInvalidInput,
                ''query strings and fragments are not supported in OpenDAL file URLs''))
         else (case split_once_str ''://'' u of
             None \<Rightarrow> Ret (Inl (CodeInvalidInput, ''url must use scheme://authority/path syntax''))
           | Some (scheme0, remainder) \<Rightarrow>
             (let scheme = ascii_lowercase scheme0 in
              if scheme \<notin> set registry
              then Ret (Inl (CodeUnsupported, ''scheme '' @ quoted scheme @ '' is not registered''))
              else
               (let (authority, encoded) =
                  (case split_once_char CHR ''/'' remainder of Some p \<Rightarrow> p | None \<Rightarrow> (remainder, [])) in
                if CHR ''@'' \<in> set authority
                then Ret (Inl (CodeInvalidInput, ''userinfo is not supported in OpenDAL file URLs''))
                else if contains_str ''%2f'' (ascii_lowercase encoded)
                then Ret (Inl (CodeInvalidInput, ''percent-encoded path separators are not supported''))
                else
                 (let path = percent_decode P encoded in
                  if \<not> utf8_valid path
                  then Ret (Inl (CodeInvalidInput, ''operation path is not valid UTF-8''))
                  else if CHR 0x00 \<in> set path
                  then Ret (Inl (CodeInvalidInput, ''operation path contains a NUL byte''))
                  else (case (cstring_new scheme, cstring_new authority, cstring_new path) of
                      (Some s, Some a, Some p) \<Rightarrow> Ret (Inr (s, a, p))
                    | _ \<Rightarrow> Panic)))))))"

text \<open>The three out-parameters of \<open>od_url_resolve\<close>: each null, or a slot holding a C string or null.\<close>

type_synonym url_out = "c_str option \<times> c_str option \<times> c_str option"

definition od_url_resolve ::
  "percent_env \<Rightarrow> string list \<Rightarrow> c_str \<Rightarrow> url_out \<Rightarrow> err_slot \<Rightarrow> int \<times> err_slot \<times> url_out" where
  "od_url_resolve P registry url out err =
     ffi_guard ''od_url_resolve'' (- 1)
       (case out of
          (Some _, Some _, Some _) \<Rightarrow>
            (let nulls = (Some None, Some None, Some None)
             in case resolve P registry url of
                  Panic \<Rightarrow> (Panic, err, nulls)
                | Ret (Inr (s, a, p)) \<Rightarrow> (Ret 0, set_ok err, (Some (Some s), Some (Some a), Some (Some p)))
                | Ret (Inl (c, msg)) \<Rightarrow> (Ret (- 1), set_error err c msg, nulls))
        | _ \<Rightarrow> (Ret (- 1), set_error err CodeInvalidInput ''null resolved-url output'', out))"

definition url_path_encode_set :: "percent_env \<Rightarrow> char \<Rightarrow> bool" where
  "url_path_encode_set P c \<longleftrightarrow>
     controls P c \<or> c = CHR '' '' \<or> c = CHR 0x22 \<or> c = CHR ''#'' \<or> c = CHR ''%'' \<or> c = CHR ''?''"

definition encode_path :: "percent_env \<Rightarrow> string \<Rightarrow> string" where
  "encode_path P path =
     join_with ''/'' (map (percent_encode P (url_path_encode_set P)) (split_char CHR ''/'' path))"

definition od_url_build :: "percent_env \<Rightarrow> c_str \<Rightarrow> c_str \<Rightarrow> c_str \<Rightarrow> c_str" where
  "od_url_build P scheme authority path =
     (case cstr scheme of None \<Rightarrow> None | Some s \<Rightarrow>
     (case cstr authority of None \<Rightarrow> None | Some a \<Rightarrow>
     (case cstr path of None \<Rightarrow> None | Some p \<Rightarrow>
        cstring_new (s @ ''://'' @ a @ ''/'' @ encode_path P p))))"

definition od_glob_match :: "c_str \<Rightarrow> c_str \<Rightarrow> nat" where
  "od_glob_match pattern path =
     (case cstr pattern of None \<Rightarrow> 0 | Some p \<Rightarrow>
     (case cstr path of None \<Rightarrow> 0 | Some v \<Rightarrow> if glob_matches p v then 1 else 0))"

section \<open>A codec with the documented behaviour\<close>

function decode_ref :: "string \<Rightarrow> string" where
  "decode_ref [] = []"
| "decode_ref (c # s) =
     (if c \<noteq> CHR ''%'' then c # decode_ref s
      else (case pct_byte s of Some b \<Rightarrow> b # decode_ref (drop 2 s) | None \<Rightarrow> c # decode_ref s))"
  by pat_completeness auto
termination
  by (relation "measure length") auto

definition encode_ref :: "(char \<Rightarrow> bool) \<Rightarrow> string \<Rightarrow> string" where
  "encode_ref S s = concat (map (\<lambda>b. if S b \<or> \<not> is_ascii b then pct b else [b]) s)"

definition percent_ref :: percent_env where
  "percent_ref =
     \<lparr>controls = (\<lambda>c. (of_char c :: nat) < 32 \<or> c = CHR 0x7F),
      percent_encode = encode_ref, percent_decode = decode_ref\<rparr>"

interpretation pref: percent_codec percent_ref
  by unfold_locales (simp_all add: percent_ref_def encode_ref_def split: option.split)

section \<open>Facts about the codec\<close>

lemma hex_value_digit: "n < 16 \<Longrightarrow> hex_value (hex_digit n) = Some n"
  by (auto simp: hex_value_def hex_digit_def Let_def)

lemma pct_byte_pct: "pct_byte (tl (pct b) @ s) = Some b"
proof -
  have "16 * (of_char b div 16) + of_char b mod 16 = (of_char b :: nat)"
    by (metis mult.commute div_mult_mod_eq)
  moreover have "(of_char b :: nat) div 16 < 16"
    using of_char_less_256 [of b] by (intro less_mult_imp_div_less) simp
  ultimately show ?thesis
    by (simp add: pct_def pct_byte_def hex_value_digit)
qed

lemma less_16_cases:
  assumes "n < (16 :: nat)"
    "P 0" "P 1" "P 2" "P 3" "P 4" "P 5" "P 6" "P 7" "P 8" "P 9" "P 10" "P 11" "P 12" "P 13" "P 14" "P 15"
  shows "P n"
proof -
  from assms(1) have "n \<in> set [0..<16]" by simp
  with assms(2-) show ?thesis by (auto simp: upt_rec eval_nat_numeral)
qed

lemma hex_digit_chars:
  "n < 16 \<Longrightarrow> is_ascii (hex_digit n) \<and> hex_digit n \<notin> set ''?#%/@ '' \<and> hex_digit n \<noteq> CHR 0x00
    \<and> hex_digit n \<noteq> CHR 0x5C"
  by (erule less_16_cases) (simp_all add: hex_digit_def is_ascii_def char_of_eq_iff)

lemma lower_hex_digit:
  "n < 16 \<Longrightarrow> to_lower (hex_digit n) \<noteq> CHR ''%''
     \<and> (to_lower (hex_digit n) = CHR ''2'' \<longleftrightarrow> n = 2)
     \<and> (to_lower (hex_digit n) = CHR ''f'' \<longleftrightarrow> n = 15)"
  by (erule less_16_cases) (simp_all add: hex_digit_def to_lower_def char_of_eq_iff less_eq_char_def)

lemma to_lower_percent: "to_lower c = CHR ''%'' \<longleftrightarrow> c = CHR ''%''"
proof (cases "CHR ''A'' \<le> c \<and> c \<le> CHR ''Z''")
  case True
  then have "65 \<le> (of_char c :: nat)" "(of_char c :: nat) \<le> 90"
    by (simp_all add: less_eq_char_def)
  then show ?thesis
    using True by (auto simp: to_lower_def char_of_eq_iff take_bit_eq_mod)
next
  case False
  then show ?thesis by (auto simp: to_lower_def)
qed

lemmas to_lower_percent' = to_lower_percent [THEN eq_commute [THEN trans]]

lemma char_nibbles:
  "(of_char b :: nat) div 16 < 16" "(of_char b :: nat) mod 16 < 16"
  using of_char_less_256 [of b] by (auto intro: less_mult_imp_div_less)

lemma pct_chars:
  assumes "c \<in> set (pct b)"
  shows "is_ascii c" "c = CHR ''%'' \<or> c \<notin> set ''?#/@ ''" "c \<noteq> CHR 0x00" "c \<noteq> CHR 0x5C"
  using assms hex_digit_chars [OF char_nibbles(1) [of b]] hex_digit_chars [OF char_nibbles(2) [of b]]
  by (auto simp: pct_def is_ascii_def)

lemma contains_str_skip_escape:
  "x \<noteq> CHR ''%'' \<Longrightarrow> y \<noteq> CHR ''%'' \<Longrightarrow> \<not> (x = CHR ''2'' \<and> y = CHR ''f'') \<Longrightarrow>
     contains_str ''%2f'' (CHR ''%'' # x # y # s) = contains_str ''%2f'' s"
  by auto

text \<open>An escape of a byte other than the slash is never the escape of a slash in either case.\<close>

lemma no_escaped_slash_pct:
  assumes "b \<noteq> CHR ''/''"
  shows "contains_str ''%2f'' (ascii_lowercase (pct b @ s)) = contains_str ''%2f'' (ascii_lowercase s)"
proof -
  let ?h = "(of_char b :: nat) div 16" and ?l = "(of_char b :: nat) mod 16"
  have "\<not> (?h = 2 \<and> ?l = 15)"
  proof
    assume "?h = 2 \<and> ?l = 15"
    then have "(of_char b :: nat) = 47" by presburger
    then have "(of_char b :: nat) = of_char CHR ''/''" by simp
    then have "b = CHR ''/''" by (simp only: of_char_eq_iff)
    with assms show False ..
  qed
  then have "contains_str ''%2f'' (CHR ''%'' # to_lower (hex_digit ?h) # to_lower (hex_digit ?l) # map to_lower s)
      = contains_str ''%2f'' (map to_lower s)"
    using lower_hex_digit [OF char_nibbles(1) [of b]] lower_hex_digit [OF char_nibbles(2) [of b]]
    by (intro contains_str_skip_escape) auto
  moreover have "to_lower CHR ''%'' = CHR ''%''" by (simp add: to_lower_percent)
  ultimately show ?thesis by (simp add: pct_def ascii_lowercase_def)
qed

lemma hex_value_less: "hex_value c = Some n \<Longrightarrow> n < 16"
  by (auto simp: hex_value_def Let_def split: if_splits)

lemma hex_value_2: "hex_value c = Some 2 \<longleftrightarrow> c = CHR ''2''"
proof -
  have "hex_value c = Some 2 \<longleftrightarrow> (of_char c :: nat) = of_char CHR ''2''"
    by (auto simp: hex_value_def Let_def)
  then show ?thesis by (simp only: of_char_eq_iff)
qed

lemma hex_value_15: "hex_value c = Some 15 \<longleftrightarrow> c = CHR ''F'' \<or> c = CHR ''f''"
proof -
  have "hex_value c = Some 15 \<longleftrightarrow>
      (of_char c :: nat) = of_char CHR ''F'' \<or> (of_char c :: nat) = of_char CHR ''f''"
    by (auto simp: hex_value_def Let_def)
  then show ?thesis by (simp only: of_char_eq_iff)
qed

lemma pct_byte_slash:
  assumes "pct_byte (h # l # r) = Some CHR ''/''"
  shows "prefix ''%2f'' (ascii_lowercase (CHR ''%'' # h # l # r))"
proof -
  from assms obtain a b where ab: "hex_value h = Some a" "hex_value l = Some b"
    and c: "char_of (16 * a + b) = CHR ''/''"
    by (auto simp: pct_byte_def split: option.splits)
  from ab have "a < 16" "b < 16" by (auto dest: hex_value_less)
  then have "(of_char (char_of (16 * a + b) :: char) :: nat) = 16 * a + b"
    by (simp add: take_bit_eq_mod)
  with c have "16 * a + b = 47" by simp
  with \<open>b < 16\<close> have "a = 2" "b = 15" by presburger+
  with ab have "h = CHR ''2''" "l = CHR ''F'' \<or> l = CHR ''f''"
    by (simp_all add: hex_value_2 hex_value_15)
  moreover have "to_lower CHR ''2'' = CHR ''2''" "to_lower CHR ''F'' = CHR ''f''"
    "to_lower CHR ''f'' = CHR ''f''" "to_lower CHR ''%'' = CHR ''%''"
    by (simp_all add: to_lower_def less_eq_char_def char_of_eq_iff)
  ultimately show ?thesis by (auto simp: ascii_lowercase_def)
qed

lemma hex_value_not_slash: "hex_value c = Some n \<Longrightarrow> c \<noteq> CHR ''/''"
  by (auto simp: hex_value_def)

lemma pct_byte_Some_cases:
  assumes "pct_byte s = Some b"
  obtains h l r where "s = h # l # r" "h \<noteq> CHR ''/''" "l \<noteq> CHR ''/''"
    "\<And>w. pct_byte (h # l # w) = Some b"
  using assms that
  by (auto simp: pct_byte_def dest: hex_value_not_slash split: list.splits option.splits)

lemma split_char_Cons:
  "c \<noteq> d \<Longrightarrow> \<exists>w ws. split_char d s = w # ws \<and> split_char d (c # s) = (c # w) # ws"
  by (cases s) (auto split: list.splits)

lemma split_char_head: "split_char d s = w # ws \<Longrightarrow> \<exists>r. s = w @ r \<and> (r = [] \<or> hd r = d)"
proof (induction s arbitrary: w ws)
  case Nil
  then show ?case by simp
next
  case (Cons x s)
  show ?case
  proof (cases "x = d")
    case True
    with Cons.prems show ?thesis by simp
  next
    case False
    obtain v vs where "split_char d s = v # vs" "w = x # v"
      using split_char_Cons [OF False, of s] Cons.prems by auto
    with Cons.IH show ?thesis by auto
  qed
qed

lemma pct_byte_head:
  assumes "pct_byte s = None" "split_char CHR ''/'' s = w # ws"
  shows "pct_byte w = None"
proof -
  obtain r where "s = w @ r" using split_char_head [OF assms(2)] by blast
  with assms(1) show ?thesis by (auto simp: pct_byte_def split: list.splits)
qed

lemma split_once_str_SomeD: "split_once_str p s = Some (a, b) \<Longrightarrow> s = a @ p @ b"
proof (induction s arbitrary: a)
  case Nil
  then show ?case by (simp split: if_splits)
next
  case (Cons x s)
  then show ?case
    by (auto simp: apfst_def map_prod_def prefix_def split: if_splits prod.splits)
qed

lemma split_once_str_first: "p \<noteq> [] \<Longrightarrow> hd p \<notin> set a \<Longrightarrow> split_once_str p (a @ p @ b) = Some (a, b)"
proof (induction a)
  case Nil
  then show ?case by (cases p) auto
next
  case (Cons x a)
  then have "\<not> prefix p (x # a @ p @ b)" by (cases p) auto
  with Cons show ?case by simp
qed

lemma split_once_char_first: "c \<notin> set a \<Longrightarrow> split_once_char c (a @ c # b) = Some (a, b)"
  by (simp add: split_once_char_Some_iff)

lemma to_lower_range:
  "c = to_lower c \<or> (97 \<le> (of_char (to_lower c) :: nat) \<and> (of_char (to_lower c) :: nat) \<le> 122)"
  by (auto simp: to_lower_def less_eq_char_def take_bit_eq_mod)

lemma to_lower_idem: "to_lower (to_lower c) = to_lower c"
  by (auto simp: to_lower_def less_eq_char_def take_bit_eq_mod)

lemma ascii_lowercase_idem [simp]: "ascii_lowercase (ascii_lowercase s) = ascii_lowercase s"
  by (simp add: ascii_lowercase_def to_lower_idem)

lemma to_lower_nul: "to_lower c = CHR 0x00 \<longleftrightarrow> c = CHR 0x00"
  using to_lower_range [of c] by (auto simp: to_lower_def less_eq_char_def)

lemma nul_free_lowercase [simp]: "nul_free (ascii_lowercase s) = nul_free s"
  by (induction s) (simp_all add: ascii_lowercase_def to_lower_nul)

lemma utf8_valid_replace:
  "is_ascii a \<Longrightarrow> is_ascii b \<Longrightarrow> utf8_valid (replace_byte a b s) = utf8_valid s"
  unfolding replace_byte_def by (rule utf8_valid_map) auto

lemma nul_free_replace: "nul_free s \<Longrightarrow> b \<noteq> CHR 0x00 \<Longrightarrow> nul_free (replace_byte a b s)"
  by (auto simp: nul_free_def replace_byte_def)

lemma replace_byte_append [simp]: "replace_byte a b (s @ t) = replace_byte a b s @ replace_byte a b t"
  by (simp add: replace_byte_def)

lemma replace_byte_id: "a \<notin> set s \<Longrightarrow> replace_byte a b s = s"
  by (induction s) (auto simp: replace_byte_def)

lemma replace_byte_gone: "a \<noteq> b \<Longrightarrow> a \<notin> set (replace_byte a b s)"
  by (auto simp: replace_byte_def)

text \<open>What a successful resolution says about the URL.\<close>

lemma resolve_cases:
  assumes "resolve P registry url = Ret (Inr (sc, au, pa))"
  obtains s0 remainder u where "url = Some u" "utf8_valid u"
    "replace_byte CHR 0x5C CHR ''/'' u = s0 @ ''://'' @ remainder"
    "CHR ''?'' \<notin> set (s0 @ remainder)" "CHR ''#'' \<notin> set (s0 @ remainder)"
    "sc = ascii_lowercase s0" "sc \<in> set registry" "CHR ''@'' \<notin> set au" "CHR ''/'' \<notin> set au"
    "utf8_valid pa" "nul_free sc" "nul_free au" "nul_free pa"
    "(remainder = au \<and> pa = percent_decode P []) \<or>
     (\<exists>enc. remainder = au @ CHR ''/'' # enc \<and> pa = percent_decode P enc
        \<and> \<not> contains_str ''%2f'' (ascii_lowercase enc))"
proof -
  from assms obtain u where u: "url = Some u" "utf8_valid u"
    by (auto simp: resolve_def cstr_def split: option.splits if_splits)
  let ?u = "replace_byte CHR 0x5C CHR ''/'' u"
  from assms u obtain s0 r where sp: "split_once_str ''://'' ?u = Some (s0, r)"
    by (auto simp: resolve_def cstr_def Let_def split: option.splits if_splits)
  note eq = split_once_str_SomeD [OF sp]
  show thesis
  proof (cases "split_once_char CHR ''/'' r")
    case None
    then have "CHR ''/'' \<notin> set r" by (simp add: split_once_char_None_iff)
    with assms u sp show thesis
      by (intro that [OF u eq])
        (auto simp: resolve_def cstr_def Let_def eq None cstring_new_Some_iff
          split: option.splits if_splits)
  next
    case (Some p)
    obtain a e where p: "p = (a, e)" by (cases p)
    from Some p have "r = a @ CHR ''/'' # e" "CHR ''/'' \<notin> set a"
      by (simp_all add: split_once_char_Some_iff)
    with assms u sp show thesis
      by (intro that [OF u eq])
        (auto simp: resolve_def cstr_def Let_def eq split_once_char_first cstring_new_Some_iff
          split: option.splits if_splits)
  qed
qed

context percent_codec
begin

lemma decode_encode:
  assumes "S CHR ''%''"
  shows "percent_decode P (percent_encode P S s) = s"
proof (induction s)
  case Nil
  show ?case by (simp add: encode_Nil decode_Nil)
next
  case (Cons b s)
  show ?case
  proof (cases "S b \<or> \<not> is_ascii b")
    case True
    have "percent_decode P (pct b @ r) = b # percent_decode P r" for r
      using pct_byte_pct [of b r] by (simp add: pct_def decode_pct)
    with True Cons show ?thesis by (simp add: encode_Cons)
  next
    case False
    with assms have "b \<noteq> CHR ''%''" by auto
    with False Cons show ?thesis by (simp add: encode_Cons decode_plain)
  qed
qed

lemma encode_chars:
  "c \<in> set (percent_encode P S s) \<Longrightarrow>
     is_ascii c \<and> (c = CHR ''%'' \<or> c \<notin> set ''?#/@ '' \<or> c \<in> set s \<and> \<not> S c)
     \<and> (c \<noteq> CHR 0x00 \<or> c \<in> set s) \<and> (c \<noteq> CHR 0x5C \<or> c \<in> set s)"
proof (induction s)
  case Nil
  then show ?case by (simp add: encode_Nil)
next
  case (Cons b s)
  show ?case
  proof (cases "c \<in> set (percent_encode P S s)")
    case True
    with Cons.IH show ?thesis by (metis list.set_intros(2))
  next
    case False
    with Cons.prems have c: "c \<in> set (if S b \<or> \<not> is_ascii b then pct b else [b])"
      by (simp add: encode_Cons split: if_splits)
    show ?thesis
    proof (cases "S b \<or> \<not> is_ascii b")
      case True
      with c have "c \<in> set (pct b)" by simp
      from pct_chars [OF this] show ?thesis by blast
    next
      case False
      with c show ?thesis by simp
    qed
  qed
qed

lemma encode_no_escaped_slash:
  assumes "\<not> S CHR ''/''" "S CHR ''%''"
  shows "\<not> contains_str ''%2f'' (ascii_lowercase (percent_encode P S s))"
proof (induction s)
  case Nil
  show ?case by (simp add: encode_Nil ascii_lowercase_def)
next
  case (Cons b s)
  show ?case
  proof (cases "S b \<or> \<not> is_ascii b")
    case True
    then have "b \<noteq> CHR ''/''" using assms by (auto simp: is_ascii_def)
    with True Cons show ?thesis by (simp add: encode_Cons no_escaped_slash_pct)
  next
    case False
    with assms have "b \<noteq> CHR ''%''" by auto
    with False Cons show ?thesis by (simp add: encode_Cons ascii_lowercase_def to_lower_percent')
  qed
qed

lemma encode_path_eq:
  "encode_path P s = percent_encode P (url_path_encode_set P) s"
proof (induction s)
  case Nil
  show ?case by (simp add: encode_path_def encode_Nil)
next
  case (Cons x s)
  have slash: "\<not> url_path_encode_set P CHR ''/''"
    by (simp add: url_path_encode_set_def controls_iff)
  have ne: "split_char CHR ''/'' s \<noteq> []"
    by (cases s) (auto split: list.splits)
  show ?case
  proof (cases "x = CHR ''/''")
    case True
    with Cons slash ne show ?thesis
      by (cases "split_char CHR ''/'' s") (auto simp: encode_path_def encode_Nil encode_Cons is_ascii_def)
  next
    case False
    with Cons ne show ?thesis
      by (cases "split_char CHR ''/'' s"; cases "tl (split_char CHR ''/'' s)")
        (auto simp: encode_path_def encode_Cons)
  qed
qed

lemma decode_split:
  "\<not> contains_str ''%2f'' (ascii_lowercase s) \<Longrightarrow>
     split_char CHR ''/'' (percent_decode P s) = map (percent_decode P) (split_char CHR ''/'' s)"
proof (induction s rule: length_induct)
  case (1 s)
  show ?case
  proof (cases s)
    case Nil
    then show ?thesis by (simp add: decode_Nil)
  next
    case (Cons c r)
    with "1.prems" have nr: "\<not> contains_str ''%2f'' (ascii_lowercase r)"
      by (simp add: ascii_lowercase_def)
    have IH: "split_char CHR ''/'' (percent_decode P r) = map (percent_decode P) (split_char CHR ''/'' r)"
      using "1.IH" nr Cons by simp
    show ?thesis
    proof (cases "c = CHR ''%'' \<and> pct_byte r \<noteq> None")
      case False
      have d: "percent_decode P (c # r) = c # percent_decode P r"
        using False by (cases "c = CHR ''%''") (auto simp: decode_pct decode_plain)
      show ?thesis
      proof (cases "c = CHR ''/''")
        case True
        with IH d Cons show ?thesis by (simp add: decode_Nil)
      next
        case no_slash: False
        obtain w ws where w: "split_char CHR ''/'' r = w # ws"
            "split_char CHR ''/'' (c # r) = (c # w) # ws"
          using split_char_Cons [OF no_slash] by blast
        have "percent_decode P (c # w) = c # percent_decode P w"
          using pct_byte_head [OF _ w(1)] False
          by (cases "c = CHR ''%''") (auto simp: decode_pct decode_plain)
        with IH d w Cons no_slash show ?thesis by simp
      qed
    next
      case True
      then obtain b where b: "pct_byte r = Some b" by blast
      then obtain h l q where r: "r = h # l # q" and hl: "h \<noteq> CHR ''/''" "l \<noteq> CHR ''/''"
        and pb: "\<And>w. pct_byte (h # l # w) = Some b"
        by (elim pct_byte_Some_cases) blast
      have "b \<noteq> CHR ''/''"
        using "1.prems" pct_byte_slash [of h l q] b r True Cons by (auto simp: ascii_lowercase_def)
      moreover have "split_char CHR ''/'' (percent_decode P q) = map (percent_decode P) (split_char CHR ''/'' q)"
        using "1.IH" nr r Cons by (simp add: ascii_lowercase_def)
      moreover obtain w ws where w: "split_char CHR ''/'' q = w # ws"
        using split_char_Cons [of "CHR ''a''" "CHR ''/''" q] by auto
      ultimately show ?thesis
        using True Cons r hl pb by (simp add: decode_pct)
    qed
  qed
qed

text \<open>A built URL resolves to what it was built from, its backslashes read as slashes.\<close>

lemma encode_replace:
  "replace_byte CHR 0x5C CHR ''/'' (percent_encode P (url_path_encode_set P) s)
     = percent_encode P (url_path_encode_set P) (replace_byte CHR 0x5C CHR ''/'' s)"
proof (induction s)
  case Nil
  show ?case by (simp add: encode_Nil replace_byte_def)
next
  case (Cons b s)
  let ?S = "url_path_encode_set P"
  have pct: "replace_byte CHR 0x5C CHR ''/'' (pct b) = pct b"
    using pct_chars(4) [of _ b] by (intro replace_byte_id) blast
  have "\<not> ?S CHR 0x5C" "is_ascii CHR 0x5C" "\<not> ?S CHR ''/''" "is_ascii CHR ''/''"
    by (simp_all add: url_path_encode_set_def controls_iff is_ascii_def)
  moreover have "replace_byte CHR 0x5C CHR ''/'' (x # t) =
      (if x = CHR 0x5C then CHR ''/'' else x) # replace_byte CHR 0x5C CHR ''/'' t" for x t
    by (simp add: replace_byte_def)
  ultimately show ?case
    using Cons pct by (cases "b = CHR 0x5C") (simp_all add: encode_Cons replace_byte_def)
qed

lemma build_resolve:
  assumes s: "utf8_valid s" "nul_free s" "set s \<inter> set '':?#'' = {}" "CHR 0x5C \<notin> set s"
    and a: "utf8_valid a" "nul_free a" "set a \<inter> set ''/@?#'' = {}" "CHR 0x5C \<notin> set a"
    and p: "utf8_valid p" "nul_free p"
    and reg: "ascii_lowercase s \<in> set registry"
  shows "od_url_build P (Some s) (Some a) (Some p)
           = Some (s @ ''://'' @ a @ ''/'' @ percent_encode P (url_path_encode_set P) p)"
    and "resolve P registry (od_url_build P (Some s) (Some a) (Some p))
           = Ret (Inr (ascii_lowercase s, a, replace_byte CHR 0x5C CHR ''/'' p))"
proof -
  let ?S = "url_path_encode_set P"
  let ?E = "percent_encode P ?S p" and ?p = "replace_byte CHR 0x5C CHR ''/'' p"
  let ?u = "s @ ''://'' @ a @ ''/'' @ ?E"
  let ?E' = "percent_encode P ?S ?p"
  have S: "?S CHR ''%''" "?S CHR ''?''" "?S CHR ''#''" "\<not> ?S CHR ''/''"
    by (simp_all add: url_path_encode_set_def controls_iff)
  have nulE: "nul_free ?E" using p(2) encode_chars [of "CHR 0x00" ?S p] by (auto simp: nul_free_def)
  have nul: "nul_free ?u" using s a nulE by simp
  then show b: "od_url_build P (Some s) (Some a) (Some p) = Some ?u"
    using s a p by (simp add: od_url_build_def cstr_def encode_path_eq cstring_new_def)
  have valid: "utf8_valid ?p"
    using p(1) by (simp add: utf8_valid_replace is_ascii_def)
  have "utf8_valid ?E"
    using encode_chars [of _ ?S p] by (intro utf8_valid_ascii) (auto simp: list_all_iff)
  then have "utf8_valid ?u"
    using s(1) a(1) by (simp add: utf8_valid_append is_ascii_def)
  then have cstr: "cstr (Some ?u) = Some ?u" by (simp add: cstr_def)
  have "replace_byte CHR 0x5C CHR ''/'' ?u = s @ ''://'' @ a @ ''/'' @ ?E'"
    using s(4) a(4) replace_byte_id [of "CHR 0x5C" "''://''"] replace_byte_id [of "CHR 0x5C" "''/''"]
    by (simp only: encode_replace replace_byte_append) (simp add: replace_byte_id)
  moreover have "CHR ''?'' \<notin> set (s @ ''://'' @ a @ ''/'' @ ?E')" "CHR ''#'' \<notin> set (s @ ''://'' @ a @ ''/'' @ ?E')"
    using s(3) a(3) S encode_chars [of "CHR ''?''" ?S ?p] encode_chars [of "CHR ''#''" ?S ?p] by auto
  moreover have "split_once_str ''://'' (s @ ''://'' @ a @ ''/'' @ ?E') = Some (s, a @ CHR ''/'' # ?E')"
    using s(3) split_once_str_first [of "''://''" s "a @ ''/'' @ ?E'"] by auto
  moreover have "split_once_char CHR ''/'' (a @ CHR ''/'' # ?E') = Some (a, ?E')"
    using a(3) by (intro split_once_char_first) auto
  moreover have "CHR ''@'' \<notin> set a" using a(3) by auto
  moreover have "\<not> contains_str ''%2f'' (ascii_lowercase ?E')"
    by (rule encode_no_escaped_slash [OF S(4) S(1)])
  moreover have "percent_decode P ?E' = ?p" using S(1) by (rule decode_encode)
  moreover have "nul_free ?p" using p(2) by (rule nul_free_replace) simp
  then have "CHR 0x00 \<notin> set ?p" "cstring_new ?p = Some ?p"
    by (simp_all add: nul_free_def cstring_new_def)
  moreover have "cstring_new (ascii_lowercase s) = Some (ascii_lowercase s)" "cstring_new a = Some a"
    using s(2) a(2) by (simp_all add: cstring_new_def)
  ultimately show "resolve P registry (od_url_build P (Some s) (Some a) (Some p))
      = Ret (Inr (ascii_lowercase s, a, ?p))"
    using valid reg unfolding b resolve_def cstr by (simp add: Let_def)
qed

end

lemma resolve_no_panic:
  assumes "\<And>u. url = Some u \<Longrightarrow> nul_free u"
  shows "resolve P registry url \<noteq> Panic"
proof (cases "cstr url")
  case None
  then show ?thesis by (simp add: resolve_def)
next
  case (Some u)
  then have "nul_free u" using assms by (auto simp: cstr_def split: option.splits if_splits)
  then have n: "nul_free (replace_byte CHR 0x5C CHR ''/'' u)" by (simp add: nul_free_replace)
  have parts: "nul_free s0 \<and> nul_free r"
    if "split_once_str ''://'' (replace_byte CHR 0x5C CHR ''/'' u) = Some (s0, r)" for s0 r
    using split_once_str_SomeD [OF that] n by simp
  have auth: "nul_free a \<and> nul_free e"
    if "split_once_char CHR ''/'' r = Some (a, e)" "nul_free r" for a e r
    using that by (auto simp: split_once_char_Some_iff)
  show ?thesis
    using Some parts auth
    by (auto simp: resolve_def Let_def cstring_new_def nul_free_def [symmetric]
        split: option.splits)
qed

section \<open>Properties\<close>

text \<open>
  C19: round trip: a URL built from a scheme, an authority and an operation path that contain no
  URL delimiters outside the path resolves to the lower-cased scheme, the authority and the
  path, with every backslash of the path turned into a slash.
\<close>

theorem url_round_trip:
  assumes "percent_codec P"
    and "utf8_valid s" "nul_free s" "set s \<inter> set '':?#'' = {}" "CHR 0x5C \<notin> set s"
    and "utf8_valid a" "nul_free a" "set a \<inter> set ''/@?#'' = {}" "CHR 0x5C \<notin> set a"
    and "utf8_valid p" "nul_free p"
    and "ascii_lowercase s \<in> set registry"
  shows "resolve P registry (od_url_build P (Some s) (Some a) (Some p))
           = Ret (Inr (ascii_lowercase s, a, replace_byte CHR 0x5C CHR ''/'' p))"
  using assms(2-) by (rule percent_codec.build_resolve(2) [OF assms(1)])

theorem url_round_trip_witness:
  "resolve percent_ref [''fs'', ''s3''] (od_url_build percent_ref (Some ''S3'') (Some ''bucket'')
       (Some ''a b/50%?.csv''))
     = Ret (Inr (''s3'', ''bucket'', ''a b/50%?.csv''))"
proof -
  have low: "ascii_lowercase ''S3'' = ''s3''"
    by (simp add: ascii_lowercase_def to_lower_def less_eq_char_def char_of_eq_iff)
  have "resolve percent_ref [''fs'', ''s3''] (od_url_build percent_ref (Some ''S3'') (Some ''bucket'')
       (Some ''a b/50%?.csv''))
     = Ret (Inr (ascii_lowercase ''S3'', ''bucket'', replace_byte CHR 0x5C CHR ''/'' ''a b/50%?.csv''))"
    by (rule url_round_trip [OF pref.percent_codec_axioms])
      (simp_all add: is_ascii_def low)
  then show ?thesis by (simp add: low replace_byte_def)
qed

text \<open>
  The round trip loses a path exactly when it has a backslash: the path encoder leaves a
  backslash as it is and the resolver reads it as a separator, so a key with a backslash comes
  back as a different key.
\<close>

lemma url_round_trip_backslash:
  assumes "percent_codec P" and "utf8_valid p" "nul_free p"
  shows "resolve P [''s3''] (od_url_build P (Some ''s3'') (Some ''bucket'') (Some p))
           = Ret (Inr (''s3'', ''bucket'', p)) \<longleftrightarrow> CHR 0x5C \<notin> set p"
proof -
  have low: "ascii_lowercase ''s3'' = ''s3''"
    by (simp add: ascii_lowercase_def to_lower_def less_eq_char_def)
  have "resolve P [''s3''] (od_url_build P (Some ''s3'') (Some ''bucket'') (Some p))
      = Ret (Inr (ascii_lowercase ''s3'', ''bucket'', replace_byte CHR 0x5C CHR ''/'' p))"
    using assms(2,3) by (intro percent_codec.build_resolve(2) [OF assms(1)]) (simp_all add: is_ascii_def low)
  moreover have "replace_byte CHR 0x5C CHR ''/'' p = p \<longleftrightarrow> CHR 0x5C \<notin> set p"
    using replace_byte_gone [of "CHR 0x5C" "CHR ''/''" p] replace_byte_id [of "CHR 0x5C" p] by auto
  ultimately show ?thesis by (simp add: low)
qed

text \<open>
  C18: what resolving a URL guarantees: the scheme is registered, the three parts are valid C
  strings, the authority has neither userinfo nor a slash, and percent-decoding neither merges
  nor splits path segments: the segments of the path are the decoded segments of the URL.
\<close>

theorem resolve_segments:
  assumes "percent_codec P" and "resolve P registry (Some url) = Ret (Inr (sc, au, pa))"
  shows "sc \<in> set registry \<and> ascii_lowercase sc = sc \<and> CHR ''@'' \<notin> set au \<and> CHR ''/'' \<notin> set au
    \<and> nul_free sc \<and> nul_free au \<and> nul_free pa \<and> utf8_valid pa
    \<and> (\<exists>s0 enc. replace_byte CHR 0x5C CHR ''/'' url = s0 @ ''://'' @ au @ enc \<and> ascii_lowercase s0 = sc
        \<and> (enc = [] \<or> hd enc = CHR ''/'') \<and> CHR ''?'' \<notin> set enc \<and> CHR ''#'' \<notin> set enc
        \<and> split_char CHR ''/'' pa = map (percent_decode P) (split_char CHR ''/'' (drop 1 enc)))"
  using assms(2)
proof (rule resolve_cases)
  fix s0 r u
  assume u: "Some url = Some u" "replace_byte CHR 0x5C CHR ''/'' u = s0 @ ''://'' @ r"
    and q: "CHR ''?'' \<notin> set (s0 @ r)" "CHR ''#'' \<notin> set (s0 @ r)"
    and ok: "sc = ascii_lowercase s0" "sc \<in> set registry" "CHR ''@'' \<notin> set au" "CHR ''/'' \<notin> set au"
      "utf8_valid pa" "nul_free sc" "nul_free au" "nul_free pa"
    and r: "(r = au \<and> pa = percent_decode P []) \<or>
     (\<exists>enc. r = au @ CHR ''/'' # enc \<and> pa = percent_decode P enc
        \<and> \<not> contains_str ''%2f'' (ascii_lowercase enc))"
  from r obtain enc where enc: "r = au @ enc" "enc = [] \<or> hd enc = CHR ''/''"
    "split_char CHR ''/'' pa = map (percent_decode P) (split_char CHR ''/'' (drop 1 enc))"
    using percent_codec.decode_split [OF assms(1)] that [of "[]"] that [of "CHR ''/'' # _"]
    by (auto simp: percent_codec.decode_Nil [OF assms(1)])
  have "\<exists>s0 enc. replace_byte CHR 0x5C CHR ''/'' url = s0 @ ''://'' @ au @ enc \<and> ascii_lowercase s0 = sc
        \<and> (enc = [] \<or> hd enc = CHR ''/'') \<and> CHR ''?'' \<notin> set enc \<and> CHR ''#'' \<notin> set enc
        \<and> split_char CHR ''/'' pa = map (percent_decode P) (split_char CHR ''/'' (drop 1 enc))"
    using u q ok(1) enc by (intro exI [of _ s0] exI [of _ enc] conjI) auto
  then show ?thesis using ok by simp
qed

theorem resolve_segments_witness:
  "\<exists>s0 enc. replace_byte CHR 0x5C CHR ''/'' ''s3://bkt/a%20b/c'' = s0 @ ''://'' @ ''bkt'' @ enc
     \<and> split_char CHR ''/'' ''a b/c'' = map (percent_decode percent_ref) (split_char CHR ''/'' (drop 1 enc))"
proof -
  have low: "ascii_lowercase ''s3'' = ''s3''"
    by (simp add: ascii_lowercase_def to_lower_def less_eq_char_def)
  have "od_url_build percent_ref (Some ''s3'') (Some ''bkt'') (Some ''a b/c'') = Some ''s3://bkt/a%20b/c''"
    using pref.build_resolve(1) [of "''s3''" "''bkt''" "''a b/c''" "[''s3'']"] low
    by (simp add: is_ascii_def pref.encode_Cons pref.encode_Nil url_path_encode_set_def pref.controls_iff
        pct_def hex_digit_def char_of_eq_iff)
  moreover have "resolve percent_ref [''s3''] (od_url_build percent_ref (Some ''s3'') (Some ''bkt'') (Some ''a b/c''))
      = Ret (Inr (''s3'', ''bkt'', ''a b/c''))"
    using pref.build_resolve(2) [of "''s3''" "''bkt''" "''a b/c''" "[''s3'']"] low
    by (simp add: is_ascii_def replace_byte_def)
  ultimately have "resolve percent_ref [''s3''] (Some ''s3://bkt/a%20b/c'') = Ret (Inr (''s3'', ''bkt'', ''a b/c''))"
    by simp
  from resolve_segments [OF pref.percent_codec_axioms this] show ?thesis by blast
qed

text \<open>
  The contract of \<open>od_url_resolve\<close>: it never panics on a C string, returns 0 exactly when
  the URL resolves and \<open>-1\<close> otherwise, reports the error it found, and never leaves a stale
  pointer in an output: on failure all three are null.
\<close>

lemma od_url_resolve_contract:
  assumes "\<And>u. url = Some u \<Longrightarrow> nul_free u"
    and "od_url_resolve P registry url (Some x, Some y, Some z) err = (r, err', out)"
  shows "reports err (r \<noteq> 0) err' \<and> (r = 0 \<or> r = - 1)
    \<and> (r = 0 \<longrightarrow> (\<exists>sc au pa. resolve P registry url = Ret (Inr (sc, au, pa))
         \<and> out = (Some (Some sc), Some (Some au), Some (Some pa))))
    \<and> (r \<noteq> 0 \<longrightarrow> out = (Some None, Some None, Some None)
         \<and> (\<exists>c msg. resolve P registry url = Ret (Inl (c, msg)) \<and> c \<in> {CodeInvalidInput, CodeUnsupported}
              \<and> err' = set_error err c msg))"
proof -
  have codes: "c \<in> {CodeInvalidInput, CodeUnsupported}" if "resolve P registry url = Ret (Inl (c, msg))" for c msg
    using that by (auto simp: resolve_def Let_def split: option.splits if_splits prod.splits)
  show ?thesis
  proof (cases "resolve P registry url")
    case Panic
    with resolve_no_panic [OF assms(1)] show ?thesis by blast
  next
    case (Ret v)
    show ?thesis
    proof (cases v)
      case (Inl e)
      obtain c msg where e: "e = (c, msg)" by (cases e)
      have "c \<noteq> CodeOk" using codes Ret Inl e by fastforce
      then show ?thesis
        using assms(2) Ret Inl e codes
        by (auto simp: od_url_resolve_def ffi_guard_def Let_def reports_intro)
    next
      case (Inr t)
      with assms(2) Ret show ?thesis
        by (cases t) (auto simp: od_url_resolve_def ffi_guard_def Let_def reports_intro)
    qed
  qed
qed

end
