(* ===== verification/Entry.thy ===== *)
theory Entry
  imports Capability
begin

text \<open>
  What the bodies of the entry points share: leaving with an error, decoding a C string or
  leaving, checking a capability or leaving, and awaiting an OpenDAL call or leaving.  Each
  carries its rule for the contract of a body, so that a body's contract is a search over the
  rules of its pieces.
\<close>

section \<open>Leaving early\<close>

definition leave :: "err_slot \<Rightarrow> 'r \<Rightarrow> 'x \<Rightarrow> od_error_code \<Rightarrow> string \<Rightarrow> 'r outcome \<times> err_slot \<times> 'x" where
  "leave err fail x c msg = (Ret fail, set_error err c msg, x)"

text \<open>\<open>if let Err((code, msg)) = ... { set_error(err, code, msg); return fail; }\<close>\<close>

definition check_guard ::
  "guard_result \<Rightarrow> err_slot \<Rightarrow> 'r \<Rightarrow> 'x \<Rightarrow> 'r outcome \<times> err_slot \<times> 'x \<Rightarrow> 'r outcome \<times> err_slot \<times> 'x" where
  "check_guard g err fail x k = (case g of Inl (c, msg) \<Rightarrow> leave err fail x c msg | Inr _ \<Rightarrow> k)"

text \<open>\<open>match cstr(p) { Some(s) => ..., None => { set_error(...); return fail; } }\<close>\<close>

definition decode_or_leave ::
  "c_str \<Rightarrow> string \<Rightarrow> err_slot \<Rightarrow> 'r \<Rightarrow> 'x \<Rightarrow> (string \<Rightarrow> 'r outcome \<times> err_slot \<times> 'x)
     \<Rightarrow> 'r outcome \<times> err_slot \<times> 'x" where
  "decode_or_leave p msg err fail x k =
     (case cstr p of Some s \<Rightarrow> k s | None \<Rightarrow> leave err fail x CodeInvalidInput msg)"

text \<open>\<open>match block_on(call) { Ok(v) => ..., Err(e) => { set_opendal_error(err, &e); fail } }\<close>\<close>

definition await_or_leave ::
  "'a reply \<times> history \<Rightarrow> err_slot \<Rightarrow> 'r \<Rightarrow> (history \<Rightarrow> 'x) \<Rightarrow> ('a \<Rightarrow> history \<Rightarrow> 'r outcome \<times> err_slot \<times> 'x)
     \<Rightarrow> 'r outcome \<times> err_slot \<times> 'x" where
  "await_or_leave res err fail w k =
     (case res of (ROk a, h) \<Rightarrow> k a h
      | (RErr e, h) \<Rightarrow> (Ret fail, set_opendal_error err e, w h)
      | (RPanic, h) \<Rightarrow> (Panic, err, w h))"

section \<open>The contract of a body\<close>

definition body_ok :: "err_slot \<Rightarrow> 'r \<Rightarrow> 'r outcome \<times> err_slot \<times> 'x \<Rightarrow> bool" where
  "body_ok e0 fail res =
     (case res of (Ret v, e, _) \<Rightarrow> reports e0 (v = fail) e | (Panic, e, _) \<Rightarrow> e = None \<longleftrightarrow> e0 = None)"

named_theorems body_intro "ways a body keeps its contract"

lemma body_ok_Ret [body_intro]: "reports e0 (v = fail) e \<Longrightarrow> body_ok e0 fail (Ret v, e, x)"
  by (simp add: body_ok_def)

lemma body_ok_set_ok [body_intro]: "v \<noteq> fail \<Longrightarrow> body_ok e fail (Ret v, set_ok e, x)"
  by (simp add: body_ok_def set_ok_reports)

lemma body_ok_opendal_error [body_intro]: "body_ok e fail (Ret fail, set_opendal_error e x, y)"
  by (simp add: body_ok_def set_opendal_error_reports)

lemma body_ok_error [body_intro]: "c \<noteq> CodeOk \<Longrightarrow> body_ok e fail (Ret fail, set_error e c m, y)"
  by (simp add: body_ok_def set_error_reports)

lemma body_ok_Panic [body_intro]: "body_ok e fail (Panic, e, x)"
  by (simp add: body_ok_def)

lemma body_ok_leave [body_intro]: "c \<noteq> CodeOk \<Longrightarrow> body_ok e fail (leave e fail x c msg)"
  by (simp add: leave_def body_ok_def set_error_reports)

definition guard_ok :: "guard_result \<Rightarrow> bool" where
  "guard_ok g \<longleftrightarrow> (\<forall>c m. g = Inl (c, m) \<longrightarrow> c \<noteq> CodeOk)"

lemma guard_ok_require [body_intro]: "guard_ok (require s b n)"
  by (auto simp: guard_ok_def require_def)

lemma guard_ok_require_option [body_intro]: "guard_ok (require_option s r b n)"
  by (auto simp: guard_ok_def require_option_def)

lemma guard_ok_first_failure [body_intro]: "(\<And>g. g \<in> set gs \<Longrightarrow> guard_ok g) \<Longrightarrow> guard_ok (first_failure gs)"
  unfolding guard_ok_def using first_failure_Inl by blast

lemma body_ok_check [body_intro]:
  "guard_ok g \<Longrightarrow> (g = Inr () \<Longrightarrow> body_ok e fail k) \<Longrightarrow> body_ok e fail (check_guard g e fail x k)"
  by (auto simp: check_guard_def guard_ok_def body_ok_leave split: sum.splits)

lemma body_ok_decode [body_intro]:
  "(\<And>s. cstr p = Some s \<Longrightarrow> body_ok e fail (k s)) \<Longrightarrow> body_ok e fail (decode_or_leave p msg e fail x k)"
  by (auto simp: decode_or_leave_def body_ok_leave split: option.split)

lemma body_ok_await [body_intro]:
  "(\<And>a h. res = (ROk a, h) \<Longrightarrow> body_ok e fail (k a h)) \<Longrightarrow> body_ok e fail (await_or_leave res e fail w k)"
  by (auto simp: await_or_leave_def body_ok_Panic body_ok_opendal_error split: prod.split reply.split)

text \<open>A body that keeps its contract is one the guard accepts.\<close>

lemma ffi_entry_intro:
  assumes "\<And>i e0. body_ok e0 fail (body i e0)"
  shows "ffi_entry body fail"
proof
  fix i e0 v e x
  assume "body i e0 = (Ret v, e, x)"
  with assms [of e0 i] show "reports e0 (v = fail) e" by (simp add: body_ok_def)
next
  fix i e0 e x
  assume "body i e0 = (Panic, e, x)"
  with assms [of e0 i] show "e = None \<longleftrightarrow> e0 = None" by (simp add: body_ok_def)
qed

lemma guard_reports:
  assumes "body_ok e0 fail res" "ffi_guard ctx fail res = (v, e, x)"
  shows "reports e0 (v = fail) e"
proof -
  obtain r e1 y where res: "res = (r, e1, y)" by (metis surj_pair)
  show ?thesis
  proof (cases r)
    case (Ret w)
    with assms res show ?thesis by (simp add: body_ok_def ffi_guard_def)
  next
    case Panic
    with assms res set_panic_reports [of e1 "''panic in '' @ ctx"] show ?thesis
      by (auto simp: body_ok_def ffi_guard_def reports_def)
  qed
qed

section \<open>When no call is made\<close>

text \<open>The calls an outcome's history records on top of the given one.\<close>

lemma leave_simps [simp]: "leave e f x c m = (Ret f, set_error e c m, x)"
  by (simp add: leave_def)

lemma check_guard_simps [simp]:
  "check_guard (Inr u) e f x k = k"
  "check_guard (Inl (c, m)) e f x k = (Ret f, set_error e c m, x)"
  by (simp_all add: check_guard_def)

lemma decode_or_leave_None [simp]:
  "decode_or_leave None m e f x k = (Ret f, set_error e CodeInvalidInput m, x)"
  by (simp add: decode_or_leave_def cstr_def)

lemma await_or_leave_simps [simp]:
  "await_or_leave (ROk a, h) e f w k = k a h"
  "await_or_leave (RErr x, h) e f w k = (Ret f, set_opendal_error e x, w h)"
  "await_or_leave (RPanic, h) e f w k = (Panic, e, w h)"
  by (simp_all add: await_or_leave_def)

end
