(* ===== verification/Stat.thy ===== *)
theory Stat
  imports Entry
begin

text \<open>
  \<open>stat\<close> across the C boundary (\<open>opendal/src/stat.rs\<close>): the metadata out-parameter, the
  directory test with its prefix probe for object stores, and the existence test.
\<close>

section \<open>Definitions\<close>

record od_metadata =
  md_content_length :: u64
  md_last_modified_ms :: i64
  md_is_dir :: nat

definition empty_metadata :: od_metadata where
  "empty_metadata = \<lparr>md_content_length = 0, md_last_modified_ms = - 1, md_is_dir = 0\<rparr>"

text \<open>\<open>meta.last_modified().map(..as_millisecond()).unwrap_or(-1)\<close>\<close>

definition last_modified_ms :: "metadata \<Rightarrow> i64" where
  "last_modified_ms m = (case last_modified m of Some t \<Rightarrow> t | None \<Rightarrow> - 1)"

definition metadata_of :: "metadata \<Rightarrow> od_metadata" where
  "metadata_of m = \<lparr>md_content_length = content_length m, md_last_modified_ms = last_modified_ms m,
     md_is_dir = (if is_dir m then 1 else 0)\<rparr>"

definition od_stat_body ::
  "env \<Rightarrow> od_operator ptr \<Rightarrow> c_str \<Rightarrow> od_metadata option \<Rightarrow> err_slot \<Rightarrow> history
     \<Rightarrow> unit outcome \<times> err_slot \<times> od_metadata option \<times> history" where
  "od_stat_body E p path out err h =
     (case (p, path, out) of
        (Ptr _ op, Some _, Some _) \<Rightarrow>
          (let out0 = Some empty_metadata in
           check_guard (require (od_scheme op) (cap_stat (od_cap op)) ''stat'') err () (out0, h)
             (decode_or_leave path ''path is null or not UTF-8'' err () (out0, h) (\<lambda>s.
               await_or_leave (invoke (on_metadata E) (Stat (od_op op) s default_stat_opts) h) err ()
                 (\<lambda>h1. (out0, h1)) (\<lambda>m h1. (Ret (), set_ok err, Some (metadata_of m), h1)))))
      | _ \<Rightarrow> leave err () (out, h) CodeInvalidInput ''null operator, path, or metadata output'')"

definition od_stat ::
  "env \<Rightarrow> od_operator ptr \<Rightarrow> c_str \<Rightarrow> od_metadata option \<Rightarrow> err_slot \<Rightarrow> history
     \<Rightarrow> unit \<times> err_slot \<times> od_metadata option \<times> history" where
  "od_stat E p path out err h = ffi_guard ''od_stat'' () (od_stat_body E p path out err h)"

text \<open>The prefix of the keys under a directory.\<close>

definition dir_prefix :: "string \<Rightarrow> string" where
  "dir_prefix path = (if path \<noteq> [] \<and> last path \<noteq> CHR ''/'' then path @ ''/'' else path)"

definition probe_children ::
  "env \<Rightarrow> od_operator \<Rightarrow> string \<Rightarrow> err_slot \<Rightarrow> history \<Rightarrow> int outcome \<times> err_slot \<times> history" where
  "probe_children E op path err h =
     (case invoke (on_handle E) (ListerWith (od_op op) (dir_prefix path)) h of
        (ROk l, h1) \<Rightarrow>
          (case invoke (on_entry E) (ListerNext l) h1 of
             (ROk (Some _), h2) \<Rightarrow> (Ret 1, set_ok err, h2)
           | (ROk None, h2) \<Rightarrow> (Ret 0, set_ok err, h2)
           | (RErr e, h2) \<Rightarrow> (Ret (- 1), set_opendal_error err e, h2)
           | (RPanic, h2) \<Rightarrow> (Panic, err, h2))
      | (RErr e, h1) \<Rightarrow>
          if kind e = KNotFound then (Ret 0, set_ok err, h1)
          else (Ret (- 1), set_opendal_error err e, h1)
      | (RPanic, h1) \<Rightarrow> (Panic, err, h1))"

definition od_dir_exists_body ::
  "env \<Rightarrow> od_operator ptr \<Rightarrow> c_str \<Rightarrow> err_slot \<Rightarrow> history \<Rightarrow> int outcome \<times> err_slot \<times> history" where
  "od_dir_exists_body E p path err h =
     (case (p, path) of
        (Ptr _ op, Some _) \<Rightarrow>
          check_guard (require (od_scheme op) (cap_stat (od_cap op)) ''stat'') err (- 1) h
            (decode_or_leave path ''path is null or not UTF-8'' err (- 1) h (\<lambda>s.
              case invoke (on_metadata E) (Stat (od_op op) s default_stat_opts) h of
                (ROk m, h1) \<Rightarrow> (Ret (if is_dir m then 1 else 0), set_ok err, h1)
              | (RErr e, h1) \<Rightarrow>
                  if kind e \<noteq> KNotFound then (Ret (- 1), set_opendal_error err e, h1)
                  else if \<not> cap_list (od_cap op) then (Ret 0, set_ok err, h1)
                  else probe_children E op s err h1
              | (RPanic, h1) \<Rightarrow> (Panic, err, h1)))
      | _ \<Rightarrow> leave err (- 1) h CodeInvalidInput ''null operator or path'')"

definition od_dir_exists ::
  "env \<Rightarrow> od_operator ptr \<Rightarrow> c_str \<Rightarrow> err_slot \<Rightarrow> history \<Rightarrow> int \<times> err_slot \<times> history" where
  "od_dir_exists E p path err h = ffi_guard ''od_dir_exists'' (- 1) (od_dir_exists_body E p path err h)"

definition od_exists_body ::
  "env \<Rightarrow> od_operator ptr \<Rightarrow> c_str \<Rightarrow> err_slot \<Rightarrow> history \<Rightarrow> int outcome \<times> err_slot \<times> history" where
  "od_exists_body E p path err h =
     (case (p, path) of
        (Ptr _ op, Some _) \<Rightarrow>
          check_guard (require (od_scheme op) (cap_stat (od_cap op)) ''stat'') err (- 1) h
            (decode_or_leave path ''path is null or not UTF-8'' err (- 1) h (\<lambda>s.
              await_or_leave (invoke (on_bool E) (Exists (od_op op) s) h) err (- 1) (\<lambda>h1. h1)
                (\<lambda>b h1. (Ret (if b then 1 else 0), set_ok err, h1))))
      | _ \<Rightarrow> leave err (- 1) h CodeInvalidInput ''null operator or path'')"

definition od_exists ::
  "env \<Rightarrow> od_operator ptr \<Rightarrow> c_str \<Rightarrow> err_slot \<Rightarrow> history \<Rightarrow> int \<times> err_slot \<times> history" where
  "od_exists E p path err h = ffi_guard ''od_exists'' (- 1) (od_exists_body E p path err h)"

section \<open>Lemmas\<close>

lemma probe_children_ok [body_intro]: "body_ok err (- 1) (probe_children E op path err h)"
  by (auto simp: probe_children_def intro!: body_intro split: reply.split prod.split option.split)

interpretation dir_exists: ffi_entry "\<lambda>(E, p, path, h) err. od_dir_exists_body E p path err h" "- 1"
  by (rule ffi_entry_intro)
    (auto simp: od_dir_exists_body_def simp del: leave_simps intro!: body_intro split: ptr.split option.split reply.split prod.split)

interpretation exists_entry: ffi_entry "\<lambda>(E, p, path, h) err. od_exists_body E p path err h" "- 1"
  by (rule ffi_entry_intro)
    (auto simp: od_exists_body_def simp del: leave_simps intro!: body_intro split: ptr.split option.split if_splits)

lemma await_history:
  "snd (snd (await_or_leave (invoke f c h) err r w k)) =
     (case f (h @ [c]) of ROk a \<Rightarrow> snd (snd (k a (h @ [c]))) | _ \<Rightarrow> w (h @ [c]))"
  by (simp add: await_or_leave_def invoke_def split: reply.split)

text \<open>
  An object store: a finite set of keys, of which those ending in a slash are directory
  markers.  \<open>stat\<close> finds exactly the keys, and a listing of a prefix yields an entry exactly when
  some key has the prefix.
\<close>

definition key_store :: "env \<Rightarrow> operator \<Rightarrow> string list \<Rightarrow> bool" where
  "key_store E op keys \<longleftrightarrow>
     (\<forall>h p. if p \<in> set keys
            then \<exists>m. on_metadata E (h @ [Stat op p default_stat_opts]) = ROk m
                   \<and> (is_dir m \<longleftrightarrow> p \<noteq> [] \<and> last p = CHR ''/'')
            else \<exists>e. on_metadata E (h @ [Stat op p default_stat_opts]) = RErr e \<and> kind e = KNotFound)
     \<and> (\<forall>h p. \<exists>n x. on_handle E (h @ [ListerWith op p]) = ROk n
            \<and> on_entry E (h @ [ListerWith op p, ListerNext n]) = ROk x
            \<and> (x \<noteq> None \<longleftrightarrow> (\<exists>k \<in> set keys. prefix p k)))"

lemma key_store_probe:
  assumes "key_store E (od_op op) keys"
  shows "\<exists>h'. probe_children E op path err h =
    (Ret (if \<exists>k \<in> set keys. prefix (dir_prefix path) k then 1 else 0), set_ok err, h')"
proof -
  obtain n x where "on_handle E (h @ [ListerWith (od_op op) (dir_prefix path)]) = ROk n"
    and "on_entry E (h @ [ListerWith (od_op op) (dir_prefix path), ListerNext n]) = ROk x"
    and x: "x \<noteq> None \<longleftrightarrow> (\<exists>k \<in> set keys. prefix (dir_prefix path) k)"
    using assms unfolding key_store_def by blast
  then have "probe_children E op path err h =
      (case x of Some _ \<Rightarrow> (Ret 1, set_ok err, h @ [ListerWith (od_op op) (dir_prefix path), ListerNext n])
       | None \<Rightarrow> (Ret 0, set_ok err, h @ [ListerWith (od_op op) (dir_prefix path), ListerNext n]))"
    by (simp add: probe_children_def invoke_def split: option.split)
  with x show ?thesis by (cases x) auto
qed

lemma dir_prefix_self: "path \<noteq> [] \<Longrightarrow> last path = CHR ''/'' \<Longrightarrow> dir_prefix path = path"
  by (simp add: dir_prefix_def)

section \<open>Properties\<close>

text \<open>
  The contract of \<open>od_stat\<close> on non-null arguments: when the service can stat, the path is
  UTF-8 and the call succeeds, the output is the metadata and the slot says \<open>Ok\<close>; in every other
  case the slot says failure and the output is the empty metadata, never a stale value.  At most
  one call is made, and none without the capability.
\<close>

lemma od_stat_contract:
  assumes "od_stat E (Ptr a op) (Some path) (Some old) err h = (u, e, out, h')"
  shows "((\<exists>m. cap_stat (od_cap op) \<and> utf8_valid path
            \<and> on_metadata E (h @ [Stat (od_op op) path default_stat_opts]) = ROk m
            \<and> out = Some (metadata_of m) \<and> reports err False e)
       \<or> (out = Some empty_metadata \<and> reports err True e
            \<and> (cap_stat (od_cap op) \<and> utf8_valid path \<longrightarrow>
                (\<forall>m. on_metadata E (h @ [Stat (od_op op) path default_stat_opts]) \<noteq> ROk m))))
    \<and> h' = (if cap_stat (od_cap op) \<and> utf8_valid path
               then h @ [Stat (od_op op) path default_stat_opts] else h)"
  using assms
  by (auto simp: Let_def od_stat_def od_stat_body_def ffi_guard_def check_guard_def require_def decode_or_leave_def
      cstr_def await_or_leave_def invoke_def reports_intro split: if_splits reply.splits)

text \<open>
  A null operator or a null path leaves the metadata output as it was, whatever stood in it,
  although the failure is reported.
\<close>

lemma od_stat_null_keeps_output:
  assumes "is_null p \<or> path = None"
  shows "\<exists>e. od_stat E p path out err h = ((), e, out, h) \<and> reports err True e"
  using assms
  by (cases p; cases path; cases out)
    (auto simp: od_stat_def od_stat_body_def ffi_guard_def is_null_def reports_intro)



end
