(* ===== verification/Reader.thy ===== *)
theory Reader
  imports Entry
begin

text \<open>
  Positioned reads across the C boundary (\<open>opendal/src/reader.rs\<close>).  A reader is the handle
  OpenDAL returned; a read writes into the caller's buffer, and the model returns the bytes
  delivered there (none when the read fails, after which the buffer's content is unspecified).
\<close>

section \<open>Definitions\<close>

record od_reader =
  rd_handle :: nat

definition od_reader_open_body ::
  "env \<Rightarrow> od_operator ptr \<Rightarrow> c_str \<Rightarrow> err_slot \<Rightarrow> history \<Rightarrow> od_reader option outcome \<times> err_slot \<times> history" where
  "od_reader_open_body E p path err h =
     (case p of Null \<Rightarrow> leave err None h CodeInvalidInput ''null operator''
      | Ptr _ op \<Rightarrow>
          check_guard (require (od_scheme op) (cap_read (od_cap op)) ''read'') err None h
            (decode_or_leave path ''path is null or not UTF-8'' err None h (\<lambda>s.
              await_or_leave
                (invoke (on_handle E) (ReaderWith (od_op op) s (concurrent (io_read (od_io op))) (read_chunk (od_io op))) h)
                err None (\<lambda>h1. h1) (\<lambda>r h1. (Ret (Some \<lparr>rd_handle = r\<rparr>), set_ok err, h1)))))"

definition od_reader_open ::
  "env \<Rightarrow> od_operator ptr \<Rightarrow> c_str \<Rightarrow> err_slot \<Rightarrow> history \<Rightarrow> od_reader option \<times> err_slot \<times> history" where
  "od_reader_open E p path err h = ffi_guard ''od_reader_open'' None (od_reader_open_body E p path err h)"

text \<open>\<open>isize::MAX\<close>\<close>

definition isize_max :: u64 where
  "isize_max = 2 ^ 63 - 1"

text \<open>\<open>buf\<close> says whether the buffer pointer is there; a read that yields more bytes than the
  buffer has room for unwinds in \<open>BufMut\<close>.\<close>

definition od_reader_read_body ::
  "env \<Rightarrow> od_reader ptr \<Rightarrow> u64 \<Rightarrow> u64 \<Rightarrow> bool \<Rightarrow> err_slot \<Rightarrow> history
     \<Rightarrow> int outcome \<times> err_slot \<times> bytes option \<times> history" where
  "od_reader_read_body E p offset len buf err h =
     (case p of Null \<Rightarrow> leave err (- 1) (None, h) CodeInvalidInput ''null reader or buffer''
      | Ptr _ r \<Rightarrow>
          if \<not> buf \<and> len \<noteq> 0 then leave err (- 1) (None, h) CodeInvalidInput ''null reader or buffer''
          else if len = 0 then (Ret 0, set_ok err, Some [], h)
          else if len > isize_max
          then leave err (- 1) (None, h) CodeInvalidInput ''read length exceeds the platform slice limit''
          else (case checked_add offset len of
              None \<Rightarrow> leave err (- 1) (None, h) CodeInvalidInput ''read range overflows u64''
            | Some end_pos \<Rightarrow>
                await_or_leave (invoke (on_bytes E) (ReadInto (rd_handle r) offset end_pos) h) err (- 1)
                  (\<lambda>h1. (None, h1)) (\<lambda>b h1.
                    if length b > unat len then (Panic, err, None, h1)
                    else if int (length b) > 2 ^ 63 - 1
                    then leave err (- 1) (None, h1) CodeUnexpected ''read result exceeds i64''
                    else (Ret (int (length b)), set_ok err, Some b, h1))))"

definition od_reader_read ::
  "env \<Rightarrow> od_reader ptr \<Rightarrow> u64 \<Rightarrow> u64 \<Rightarrow> bool \<Rightarrow> err_slot \<Rightarrow> history
     \<Rightarrow> int \<times> err_slot \<times> bytes option \<times> history" where
  "od_reader_read E p offset len buf err h =
     ffi_guard ''od_reader_read'' (- 1) (od_reader_read_body E p offset len buf err h)"

section \<open>Lemmas\<close>

interpretation reader_open: ffi_entry "\<lambda>(E, p, path, h) err. od_reader_open_body E p path err h" None
  by (rule ffi_entry_intro)
    (auto simp: od_reader_open_body_def simp del: leave_simps intro!: body_intro split: ptr.split)

interpretation reader_read: ffi_entry "\<lambda>(E, p, offset, len, buf, h) err. od_reader_read_body E p offset len buf err h" "- 1"
  by (rule ffi_entry_intro)
    (auto simp: od_reader_read_body_def simp del: leave_simps intro!: body_intro split: ptr.split option.split if_splits)

lemma unat_isize_max: "unat isize_max = 2 ^ 63 - 1"
  by (simp add: isize_max_def)

text \<open>A file as OpenDAL reads it: a range read yields the bytes of the file in the range.\<close>

definition serves :: "env \<Rightarrow> nat \<Rightarrow> bytes \<Rightarrow> bool" where
  "serves E r file \<longleftrightarrow>
     (\<forall>h a b. on_bytes E (h @ [ReadInto r a b]) = ROk (take (unat b - unat a) (drop (unat a) file)))"

lemma od_reader_read_serves:
  assumes "serves E (rd_handle r) file" "len \<le> isize_max" "unat offset + unat len < 2 ^ 64"
  shows "\<exists>h'. od_reader_read E (Ptr a r) offset len True err h =
    (int (length (take (unat len) (drop (unat offset) file))), set_ok err,
     Some (take (unat len) (drop (unat offset) file)), h')"
proof (cases "len = 0")
  case True
  then show ?thesis by (simp add: od_reader_read_def od_reader_read_body_def ffi_guard_def)
next
  case False
  from assms(3) have add: "checked_add offset len = Some (offset + len)" by (simp add: checked_add_def)
  then have end_pos: "unat (offset + len) = unat offset + unat len" by (simp add: checked_add_Some_iff)
  have "unat len \<le> 2 ^ 63 - 1"
    using assms(2) unat_isize_max by (simp add: word_le_nat_alt)
  moreover have "on_bytes E (h @ [ReadInto (rd_handle r) offset (offset + len)]) = ROk (take (unat len) (drop (unat offset) file))"
    using assms(1) end_pos by (simp add: serves_def)
  ultimately show ?thesis
    using False assms(2) add
    by (simp add: od_reader_read_def od_reader_read_body_def ffi_guard_def invoke_def not_less)
qed

text \<open>Reading a range piece by piece: consecutive reads of the given lengths.\<close>

fun read_seq ::
  "env \<Rightarrow> od_reader ptr \<Rightarrow> u64 \<Rightarrow> u64 list \<Rightarrow> err_slot \<Rightarrow> history \<Rightarrow> bytes option" where
  "read_seq E p offset [] err h = Some []"
| "read_seq E p offset (len # lens) err h =
     (let (n, e, out, h') = od_reader_read E p offset len True err h
      in case out of None \<Rightarrow> None
         | Some b \<Rightarrow> map_option ((@) b) (read_seq E p (offset + len) lens err h'))"

section \<open>Properties\<close>

text \<open>
  Reads are positioned and compose: reading a range in consecutive pieces of any lengths
  delivers the same bytes as the file holds there, up to its end, whatever other calls happened
  in between.
\<close>

lemma od_reader_read_pieces:
  assumes "serves E (rd_handle r) file" and "list_all (\<lambda>n. n \<le> isize_max) lens"
    and "unat offset + sum_list (map unat lens) < 2 ^ 64"
  shows "read_seq E (Ptr a r) offset lens err h =
    Some (take (sum_list (map unat lens)) (drop (unat offset) file))"
  using assms(2,3)
proof (induction lens arbitrary: offset h)
  case Nil
  then show ?case by simp
next
  case (Cons len lens)
  then have bound: "unat offset + unat len < 2 ^ 64" by simp
  then have off: "unat (offset + len) = unat offset + unat len"
    by (simp add: unat_word_ariths)
  obtain h' where "od_reader_read E (Ptr a r) offset len True err h =
    (int (length (take (unat len) (drop (unat offset) file))), set_ok err,
     Some (take (unat len) (drop (unat offset) file)), h')"
    using od_reader_read_serves [OF assms(1) _ bound] Cons.prems(1) by fastforce
  moreover have "read_seq E (Ptr a r) (offset + len) lens err h' =
      Some (take (sum_list (map unat lens)) (drop (unat (offset + len)) file))"
    using Cons.prems off by (intro Cons.IH) simp_all
  moreover have "take (unat len) (drop (unat offset) file) @
      take (sum_list (map unat lens)) (drop (unat offset + unat len) file)
    = take (unat len + sum_list (map unat lens)) (drop (unat offset) file)"
    by (simp add: take_add add.commute)
  ultimately show ?case by (simp add: off)
qed

text \<open>
  C40: the bounds of a read, against any service: the result is between \<open>-1\<close> and the requested
  length and reports failure exactly by \<open>-1\<close>; at most one call is made, it asks for exactly the
  range of \<open>len\<close> bytes from \<open>offset\<close> without wrap-around, and a range that overflows or is
  longer than a slice may be makes no call.
\<close>

theorem od_reader_read_bounds:
  assumes "od_reader_read E p offset len buf err h = (n, e, out, h')"
  shows "reports err (n = - 1) e \<and> - 1 \<le> n \<and> n \<le> int (unat len) \<and> n < 2 ^ 63
    \<and> (case out of None \<Rightarrow> n = - 1 | Some b \<Rightarrow> n = int (length b))
    \<and> (h' = h \<or> (\<exists>a r e_pos. p = Ptr a r \<and> buf \<and> len \<noteq> 0 \<and> unat len < 2 ^ 63
          \<and> unat e_pos = unat offset + unat len \<and> h' = h @ [ReadInto (rd_handle r) offset e_pos]))"
proof -
  have rep: "reports err (n = - 1) e"
    using reader_read.entry_reports [of "''od_reader_read''" "(E, p, offset, len, buf, h)"] assms
    by (simp add: od_reader_read_def)
  have lim: "unat len < 2 ^ 63" if "\<not> len > isize_max"
    using that unat_isize_max by (simp add: word_less_nat_alt not_less)
  define L where "L = int (unat len)"
  have L: "0 \<le> L" and le: "k \<le> unat len \<longleftrightarrow> int k \<le> L" for k
    unfolding L_def by (simp_all only: of_nat_le_iff of_nat_0_le_iff)
  show ?thesis
    unfolding L_def [symmetric] using assms rep lim L
    by (auto simp: od_reader_read_def od_reader_read_body_def ffi_guard_def await_or_leave_def invoke_def
        checked_add_Some_iff not_less le split: ptr.splits if_splits option.splits reply.splits)
qed

theorem od_reader_read_bounds_witness:
  "\<exists>e. od_reader_read calm_env (Ptr 1 \<lparr>rd_handle = 0\<rparr>) (- 1) 2 True (Some error_ok) [] = (- 1, e, None, [])
     \<and> reports (Some error_ok) True e"
proof -
  have add: "checked_add (- 1 :: u64) 2 = None" by (simp add: checked_add_None_iff unsigned_minus_1_eq_mask mask_eq_exp_minus_1)
  obtain n e out h' where r: "od_reader_read calm_env (Ptr 1 \<lparr>rd_handle = 0\<rparr>) (- 1) 2 True (Some error_ok) [] = (n, e, out, h')"
    by (metis surj_pair)
  moreover have "n = - 1 \<and> out = None \<and> h' = []"
    using r by (auto simp: od_reader_read_def od_reader_read_body_def ffi_guard_def add isize_max_def)
  ultimately show ?thesis using od_reader_read_bounds [OF r] by auto
qed

end
