(* ===== verification/Writer.thy ===== *)
theory Writer
  imports Entry
begin

text \<open>
  Streaming writes across the C boundary (\<open>opendal/src/writer.rs\<close>): the writer handle with its
  terminal states, the entry points, the machine they form (a step relation, its reachable
  states and their invariant) and the abstract stream they implement.
\<close>

section \<open>Definitions\<close>

datatype writer_state = WOpen | WClosed | WAborted | WFailed

record od_writer =
  wr_handle :: nat
  wr_state :: writer_state

text \<open>The derived \<open>Debug\<close> text of a state.\<close>

fun state_name :: "writer_state \<Rightarrow> string" where
  "state_name WOpen = ''Open''"
| "state_name WClosed = ''Closed''"
| "state_name WAborted = ''Aborted''"
| "state_name WFailed = ''Failed''"

definition require_open :: "od_writer \<Rightarrow> string \<Rightarrow> string + unit" where
  "require_open w operation =
     (if wr_state w = WOpen then Inr ()
      else Inl (''cannot '' @ operation @ '' writer in '' @ state_name (wr_state w) @ '' state''))"

definition abort_after_failure ::
  "env \<Rightarrow> od_writer \<Rightarrow> oerror \<Rightarrow> history \<Rightarrow> string outcome \<times> od_writer \<times> history" where
  "abort_after_failure E w primary h =
     (case invoke (on_unit E) (AbortWriter (wr_handle w)) h of
        (ROk _, h1) \<Rightarrow> (Ret (display primary), w\<lparr>wr_state := WAborted\<rparr>, h1)
      | (RErr e, h1) \<Rightarrow>
          (Ret (display primary @ ''; abort after failure also failed: '' @ display e),
           w\<lparr>wr_state := WFailed\<rparr>, h1)
      | (RPanic, h1) \<Rightarrow> (Panic, w, h1))"

definition od_writer_open_body ::
  "env \<Rightarrow> od_operator ptr \<Rightarrow> c_str \<Rightarrow> err_slot \<Rightarrow> history \<Rightarrow> od_writer option outcome \<times> err_slot \<times> history" where
  "od_writer_open_body E p path err h =
     (case p of Null \<Rightarrow> leave err None h CodeInvalidInput ''null operator''
      | Ptr _ op \<Rightarrow>
          check_guard (require (od_scheme op) (cap_write (od_cap op)) ''write'') err None h
            (decode_or_leave path ''path is null or not UTF-8'' err None h (\<lambda>s.
              await_or_leave
                (invoke (on_handle E) (WriterWith (od_op op) s (concurrent (io_write (od_io op))) (write_chunk (od_io op))) h)
                err None (\<lambda>h1. h1)
                (\<lambda>n h1. (Ret (Some \<lparr>wr_handle = n, wr_state = WOpen\<rparr>), set_ok err, h1)))))"

definition od_writer_open ::
  "env \<Rightarrow> od_operator ptr \<Rightarrow> c_str \<Rightarrow> err_slot \<Rightarrow> history \<Rightarrow> od_writer option \<times> err_slot \<times> history" where
  "od_writer_open E p path err h = ffi_guard ''od_writer_open'' None (od_writer_open_body E p path err h)"

type_synonym writer_result = "int outcome \<times> err_slot \<times> od_writer ptr \<times> history"

text \<open>The error branch of writing and closing: abort, then report the primary error's code.\<close>

definition fail_writer :: "env \<Rightarrow> nat \<Rightarrow> od_writer \<Rightarrow> oerror \<Rightarrow> err_slot \<Rightarrow> history \<Rightarrow> writer_result" where
  "fail_writer E a w e err h =
     (case abort_after_failure E w e h of
        (Ret message, w', h') \<Rightarrow> (Ret (- 1), set_error err (opendal_error_code e) message, Ptr a w', h')
      | (Panic, w', h') \<Rightarrow> (Panic, err, Ptr a w', h'))"

definition slice_limit :: u64 where
  "slice_limit = 2 ^ 63 - 1"

definition od_writer_write_body ::
  "env \<Rightarrow> od_writer ptr \<Rightarrow> bytes option \<Rightarrow> u64 \<Rightarrow> err_slot \<Rightarrow> history \<Rightarrow> writer_result" where
  "od_writer_write_body E p data len err h =
     (case p of Null \<Rightarrow> leave err (- 1) (p, h) CodeInvalidInput ''null writer or data''
      | Ptr a w \<Rightarrow>
          if data = None \<and> len \<noteq> 0 then leave err (- 1) (p, h) CodeInvalidInput ''null writer or data''
          else if len = 0 then (Ret 0, set_ok err, p, h)
          else if len > slice_limit
          then leave err (- 1) (p, h) CodeInvalidInput ''write length exceeds slice limit''
          else (case require_open w ''write to'' of
              Inl message \<Rightarrow> leave err (- 1) (p, h) CodeInvalidInput message
            | Inr _ \<Rightarrow>
                (case invoke (on_unit E) (Write (wr_handle w) (take (unat len) (the data))) h of
                   (ROk _, h1) \<Rightarrow> (Ret 0, set_ok err, p, h1)
                 | (RErr e, h1) \<Rightarrow> fail_writer E a w e err h1
                 | (RPanic, h1) \<Rightarrow> (Panic, err, p, h1))))"

definition od_writer_write ::
  "env \<Rightarrow> od_writer ptr \<Rightarrow> bytes option \<Rightarrow> u64 \<Rightarrow> err_slot \<Rightarrow> history \<Rightarrow> int \<times> err_slot \<times> od_writer ptr \<times> history" where
  "od_writer_write E p data len err h =
     ffi_guard ''od_writer_write'' (- 1) (od_writer_write_body E p data len err h)"

definition od_writer_close_body :: "env \<Rightarrow> od_writer ptr \<Rightarrow> err_slot \<Rightarrow> history \<Rightarrow> writer_result" where
  "od_writer_close_body E p err h =
     (case p of Null \<Rightarrow> leave err (- 1) (p, h) CodeInvalidInput ''null writer''
      | Ptr a w \<Rightarrow>
          (case require_open w ''close'' of
             Inl message \<Rightarrow> leave err (- 1) (p, h) CodeInvalidInput message
           | Inr _ \<Rightarrow>
               (case invoke (on_unit E) (CloseWriter (wr_handle w)) h of
                  (ROk _, h1) \<Rightarrow> (Ret 0, set_ok err, Ptr a (w\<lparr>wr_state := WClosed\<rparr>), h1)
                | (RErr e, h1) \<Rightarrow> fail_writer E a w e err h1
                | (RPanic, h1) \<Rightarrow> (Panic, err, p, h1))))"

definition od_writer_close ::
  "env \<Rightarrow> od_writer ptr \<Rightarrow> err_slot \<Rightarrow> history \<Rightarrow> int \<times> err_slot \<times> od_writer ptr \<times> history" where
  "od_writer_close E p err h = ffi_guard ''od_writer_close'' (- 1) (od_writer_close_body E p err h)"

definition od_writer_abort_body :: "env \<Rightarrow> od_writer ptr \<Rightarrow> err_slot \<Rightarrow> history \<Rightarrow> writer_result" where
  "od_writer_abort_body E p err h =
     (case p of Null \<Rightarrow> leave err (- 1) (p, h) CodeInvalidInput ''null writer''
      | Ptr a w \<Rightarrow>
          (case require_open w ''abort'' of
             Inl message \<Rightarrow> leave err (- 1) (p, h) CodeInvalidInput message
           | Inr _ \<Rightarrow>
               (case invoke (on_unit E) (AbortWriter (wr_handle w)) h of
                  (ROk _, h1) \<Rightarrow> (Ret 0, set_ok err, Ptr a (w\<lparr>wr_state := WAborted\<rparr>), h1)
                | (RErr e, h1) \<Rightarrow> (Ret (- 1), set_opendal_error err e, Ptr a (w\<lparr>wr_state := WFailed\<rparr>), h1)
                | (RPanic, h1) \<Rightarrow> (Panic, err, p, h1))))"

definition od_writer_abort ::
  "env \<Rightarrow> od_writer ptr \<Rightarrow> err_slot \<Rightarrow> history \<Rightarrow> int \<times> err_slot \<times> od_writer ptr \<times> history" where
  "od_writer_abort E p err h = ffi_guard ''od_writer_abort'' (- 1) (od_writer_abort_body E p err h)"

section \<open>Contracts\<close>

lemma fail_writer_ok [body_intro]: "body_ok err (- 1) (fail_writer E a w e err h)"
  by (auto simp: fail_writer_def intro!: body_intro split: prod.split outcome.split)

interpretation writer_open: ffi_entry "\<lambda>(E, p, path, h) err. od_writer_open_body E p path err h" None
  by (rule ffi_entry_intro)
    (auto simp: od_writer_open_body_def simp del: leave_simps intro!: body_intro split: ptr.split)

interpretation writer_write: ffi_entry "\<lambda>(E, p, data, len, h) err. od_writer_write_body E p data len err h" "- 1"
  by (rule ffi_entry_intro)
    (auto simp: od_writer_write_body_def simp del: leave_simps intro!: body_intro
      split: ptr.split sum.split reply.split prod.split)

interpretation writer_close: ffi_entry "\<lambda>(E, p, h) err. od_writer_close_body E p err h" "- 1"
  by (rule ffi_entry_intro)
    (auto simp: od_writer_close_body_def simp del: leave_simps intro!: body_intro
      split: ptr.split sum.split reply.split prod.split)

interpretation writer_abort: ffi_entry "\<lambda>(E, p, h) err. od_writer_abort_body E p err h" "- 1"
  by (rule ffi_entry_intro)
    (auto simp: od_writer_abort_body_def simp del: leave_simps intro!: body_intro
      split: ptr.split sum.split reply.split prod.split)

section \<open>The machine\<close>

text \<open>One entry point called on the writer, with any arguments.\<close>

inductive writer_step :: "env \<Rightarrow> od_writer \<times> history \<Rightarrow> od_writer \<times> history \<Rightarrow> bool" for E where
  write_call: "od_writer_write E (Ptr a w) data len err h = (r, e, Ptr b w', h') \<Longrightarrow> writer_step E (w, h) (w', h')"
| close_call: "od_writer_close E (Ptr a w) err h = (r, e, Ptr b w', h') \<Longrightarrow> writer_step E (w, h) (w', h')"
| abort_call: "od_writer_abort E (Ptr a w) err h = (r, e, Ptr b w', h') \<Longrightarrow> writer_step E (w, h) (w', h')"

inductive_cases writer_stepE: "writer_step E (w, h) s"

inductive writer_reach :: "env \<Rightarrow> nat \<Rightarrow> history \<Rightarrow> od_writer \<times> history \<Rightarrow> bool" for E n h0 where
  opened: "writer_reach E n h0 (\<lparr>wr_handle = n, wr_state = WOpen\<rparr>, h0)"
| stepped: "writer_reach E n h0 s \<Longrightarrow> writer_step E s t \<Longrightarrow> writer_reach E n h0 t"

definition unpanicking :: "env \<Rightarrow> bool" where
  "unpanicking E \<longleftrightarrow> (\<forall>h. on_unit E h \<noteq> RPanic)"

text \<open>The writes recorded since the writer was opened, each acknowledged by the service.\<close>

definition acked :: "env \<Rightarrow> nat \<Rightarrow> history \<Rightarrow> bytes list \<Rightarrow> bool" where
  "acked E n h0 ws \<longleftrightarrow> (\<forall>k < length ws. on_unit E (h0 @ map (Write n) (take (Suc k) ws)) = ROk ())"

lemma acked_snoc:
  "acked E n h0 ws \<Longrightarrow> on_unit E (h0 @ map (Write n) ws @ [Write n d]) = ROk () \<Longrightarrow> acked E n h0 (ws @ [d])"
  by (auto simp: acked_def less_Suc_eq)

text \<open>A history that ends with the abort: writes, then possibly a close, then one abort.\<close>

definition aborted_history :: "nat \<Rightarrow> history \<Rightarrow> history \<Rightarrow> bool" where
  "aborted_history n h0 h \<longleftrightarrow>
     (\<exists>ws t. h = h0 @ map (Write n) ws @ t @ [AbortWriter n] \<and> t \<in> {[], [CloseWriter n]})"

text \<open>What the history says in each state.\<close>

definition writer_inv :: "env \<Rightarrow> nat \<Rightarrow> history \<Rightarrow> od_writer \<times> history \<Rightarrow> bool" where
  "writer_inv E n h0 s \<longleftrightarrow>
     wr_handle (fst s) = n \<and>
     (case wr_state (fst s) of
        WOpen \<Rightarrow> (\<exists>ws. snd s = h0 @ map (Write n) ws \<and> acked E n h0 ws)
      | WClosed \<Rightarrow> (\<exists>ws. snd s = h0 @ map (Write n) ws @ [CloseWriter n] \<and> acked E n h0 ws
                    \<and> on_unit E (snd s) = ROk ())
      | WAborted \<Rightarrow> aborted_history n h0 (snd s) \<and> on_unit E (snd s) = ROk ()
      | WFailed \<Rightarrow> aborted_history n h0 (snd s) \<and> (\<exists>e. on_unit E (snd s) = RErr e))"

text \<open>A writer that is not open makes no call and does not move.\<close>

lemma not_open:
  assumes "wr_state w \<noteq> WOpen"
  shows "od_writer_write E (Ptr a w) data len err h =
      (if len = 0 then (0, set_ok err, Ptr a w, h)
       else (- 1, set_error err CodeInvalidInput
          (if data = None then ''null writer or data''
           else if len > slice_limit then ''write length exceeds slice limit''
           else ''cannot write to writer in '' @ state_name (wr_state w) @ '' state''), Ptr a w, h))"
    and "od_writer_close E (Ptr a w) err h =
      (- 1, set_error err CodeInvalidInput (''cannot close writer in '' @ state_name (wr_state w) @ '' state''), Ptr a w, h)"
    and "od_writer_abort E (Ptr a w) err h =
      (- 1, set_error err CodeInvalidInput (''cannot abort writer in '' @ state_name (wr_state w) @ '' state''), Ptr a w, h)"
  using assms
  by (simp_all add: od_writer_write_def od_writer_write_body_def od_writer_close_def od_writer_close_body_def
      od_writer_abort_def od_writer_abort_body_def require_open_def ffi_guard_def)

text \<open>How an open writer moves.\<close>

lemma fail_writer_moves:
  assumes "fail_writer E a w e err h = (r, e', p, h')" and "unpanicking E"
  shows "\<exists>w' m. p = Ptr a w' \<and> r = Ret (- 1) \<and> e' = set_error err (opendal_error_code e) m
    \<and> h' = h @ [AbortWriter (wr_handle w)] \<and> wr_handle w' = wr_handle w
    \<and> (wr_state w' = WAborted \<and> on_unit E h' = ROk () \<or> wr_state w' = WFailed \<and> (\<exists>x. on_unit E h' = RErr x))"
  using assms
  by (auto simp: fail_writer_def abort_after_failure_def invoke_def unpanicking_def split: reply.splits)

definition ended :: "env \<Rightarrow> nat \<Rightarrow> od_writer \<Rightarrow> history \<Rightarrow> bool" where
  "ended E n w h \<longleftrightarrow> wr_handle w = n \<and>
     (wr_state w = WAborted \<and> on_unit E h = ROk () \<or> wr_state w = WFailed \<and> (\<exists>x. on_unit E h = RErr x))"

lemma fail_writer_ended:
  assumes "fail_writer E a w e err h = (r, e', p, h')" "unpanicking E"
  obtains w' m where "p = Ptr a w'" "r = Ret (- 1)" "e' = set_error err (opendal_error_code e) m"
    "h' = h @ [AbortWriter (wr_handle w)]" "ended E (wr_handle w) w' h'"
  using fail_writer_moves [OF assms] that by (auto simp: ended_def)

definition open_move :: "env \<Rightarrow> nat \<Rightarrow> od_writer \<times> history \<Rightarrow> od_writer \<times> history \<Rightarrow> bool" where
  "open_move E n s t \<longleftrightarrow>
     (let (w, h) = s; (w', h') = t in
        t = s
      \<or> (\<exists>d. w' = w \<and> h' = h @ [Write n d] \<and> on_unit E h' = ROk ())
      \<or> (wr_state w' = WClosed \<and> wr_handle w' = n \<and> h' = h @ [CloseWriter n] \<and> on_unit E h' = ROk ())
      \<or> (\<exists>c. (c = [] \<or> c = [CloseWriter n] \<or> (\<exists>d. c = [Write n d])) \<and> h' = h @ c @ [AbortWriter n] \<and> ended E n w' h'))"

lemma open_write_moves:
  assumes "wr_state w = WOpen" "unpanicking E" "od_writer_write E (Ptr a w) data len err h = (r, e, Ptr b w', h')"
  shows "open_move E (wr_handle w) (w, h) (w', h')"
proof -
  have "on_unit E x \<noteq> RPanic" for x using assms(2) by (simp add: unpanicking_def)
  with assms show ?thesis
    by (auto simp: od_writer_write_def od_writer_write_body_def ffi_guard_def require_open_def open_move_def
        invoke_def split: if_splits reply.splits outcome.splits prod.splits elim!: fail_writer_ended)
qed

lemma open_close_moves:
  assumes "wr_state w = WOpen" "unpanicking E" "od_writer_close E (Ptr a w) err h = (r, e, Ptr b w', h')"
  shows "open_move E (wr_handle w) (w, h) (w', h')"
proof -
  have "on_unit E x \<noteq> RPanic" for x using assms(2) by (simp add: unpanicking_def)
  with assms show ?thesis
    by (auto simp: od_writer_close_def od_writer_close_body_def ffi_guard_def require_open_def open_move_def
        invoke_def split: if_splits reply.splits outcome.splits prod.splits elim!: fail_writer_ended)
qed

lemma open_abort_moves:
  assumes "wr_state w = WOpen" "unpanicking E" "od_writer_abort E (Ptr a w) err h = (r, e, Ptr b w', h')"
  shows "open_move E (wr_handle w) (w, h) (w', h')"
proof -
  have "on_unit E x \<noteq> RPanic" for x using assms(2) by (simp add: unpanicking_def)
  with assms show ?thesis
    by (auto simp: od_writer_abort_def od_writer_abort_body_def ffi_guard_def require_open_def open_move_def
        invoke_def ended_def split: if_splits reply.splits)
qed

lemma step_cases:
  assumes "writer_step E (w, h) (w', h')" "unpanicking E"
  shows "if wr_state w = WOpen then open_move E (wr_handle w) (w, h) (w', h') else (w', h') = (w, h)"
  using assms
  by (auto elim!: writer_stepE simp: not_open intro: open_write_moves open_close_moves open_abort_moves split: if_splits)

lemma writer_inv_step:
  assumes "writer_inv E n h0 s" "writer_step E s t" "unpanicking E"
  shows "writer_inv E n h0 t"
proof -
  obtain w h w' h' where s: "s = (w, h)" and t: "t = (w', h')" by fastforce
  show ?thesis
  proof (cases "wr_state w = WOpen")
    case False
    with step_cases [OF assms(2) [unfolded s t] assms(3)] assms(1) s t show ?thesis by simp
  next
    case True
    with assms(1) s obtain ws where n: "wr_handle w = n" and h: "h = h0 @ map (Write n) ws" and ak: "acked E n h0 ws"
      by (auto simp: writer_inv_def)
    from step_cases [OF assms(2) [unfolded s t] assms(3)] True n
    have "open_move E n (w, h) (w', h')" by simp
    then consider "(w', h') = (w, h)"
      | d where "w' = w" "h' = h @ [Write n d]" "on_unit E h' = ROk ()"
      | "wr_state w' = WClosed" "wr_handle w' = n" "h' = h @ [CloseWriter n]" "on_unit E h' = ROk ()"
      | c where "c = [] \<or> c = [CloseWriter n] \<or> (\<exists>d. c = [Write n d])" "h' = h @ c @ [AbortWriter n]" "ended E n w' h'"
      by (auto simp: open_move_def)
    then show ?thesis
    proof cases
      case 1
      with assms(1) s t show ?thesis by simp
    next
      case (2 d)
      then have "acked E n h0 (ws @ [d])" using ak h by (auto intro: acked_snoc)
      with 2 True n h show ?thesis
        unfolding t writer_inv_def by (auto intro!: exI [of _ "ws @ [d]"])
    next
      case 3
      with h ak show ?thesis unfolding t writer_inv_def by auto
    next
      case (4 c)
      have "aborted_history n h0 h'"
        using 4(1,2) h unfolding aborted_history_def
        by (elim disjE exE) (force intro: exI [of _ ws], force intro: exI [of _ ws], force intro: exI [of _ "ws @ [_]"])
      with 4(3) show ?thesis unfolding t writer_inv_def ended_def by auto
    qed
  qed
qed

lemma writer_reach_inv: "writer_reach E n h0 s \<Longrightarrow> unpanicking E \<Longrightarrow> writer_inv E n h0 s"
proof (induction rule: writer_reach.induct)
  case opened
  show ?case by (auto simp: writer_inv_def acked_def intro: exI [of _ "[]"])
next
  case (stepped s t)
  then show ?case by (blast intro: writer_inv_step)
qed

section \<open>The abstract stream\<close>

text \<open>
  What a writer is for: bytes are appended to a buffer, closing publishes the buffer, aborting
  discards it, and nothing happens after that (an empty write is accepted in every state).
\<close>

datatype stream = Buffering bytes | Published bytes | Discarded

datatype writer_op = WriteOp bytes | CloseOp | AbortOp

fun stream_step :: "stream \<Rightarrow> writer_op \<Rightarrow> int \<times> stream" where
  "stream_step s (WriteOp []) = (0, s)"
| "stream_step (Buffering b) (WriteOp d) = (0, Buffering (b @ d))"
| "stream_step (Buffering b) CloseOp = (0, Published b)"
| "stream_step (Buffering b) AbortOp = (0, Discarded)"
| "stream_step s _ = (- 1, s)"

fun stream_run :: "stream \<Rightarrow> writer_op list \<Rightarrow> int list \<times> stream" where
  "stream_run s [] = ([], s)"
| "stream_run s (c # cs) = (let (r, s1) = stream_step s c; (rs, s2) = stream_run s1 cs in (r # rs, s2))"

text \<open>The same calls on the writer.\<close>

fun writer_call :: "env \<Rightarrow> od_writer ptr \<times> history \<Rightarrow> writer_op \<Rightarrow> int \<times> (od_writer ptr \<times> history)" where
  "writer_call E (p, h) (WriteOp d) =
     (let (r, _, s) = od_writer_write E p (Some d) (of_nat (length d)) None h in (r, s))"
| "writer_call E (p, h) CloseOp = (let (r, _, s) = od_writer_close E p None h in (r, s))"
| "writer_call E (p, h) AbortOp = (let (r, _, s) = od_writer_abort E p None h in (r, s))"

fun writer_run :: "env \<Rightarrow> od_writer ptr \<times> history \<Rightarrow> writer_op list \<Rightarrow> int list \<times> (od_writer ptr \<times> history)" where
  "writer_run E s [] = ([], s)"
| "writer_run E s (c # cs) = (let (r, s1) = writer_call E s c; (rs, s2) = writer_run E s1 cs in (r # rs, s2))"

text \<open>The bytes a handle was given.\<close>

fun payload :: "nat \<Rightarrow> history \<Rightarrow> bytes" where
  "payload n [] = []"
| "payload n (c # h) = (case c of Write k d \<Rightarrow> if k = n then d @ payload n h else payload n h | _ \<Rightarrow> payload n h)"

lemma payload_append [simp]: "payload n (h @ g) = payload n h @ payload n g"
  by (induction h) (auto split: call.split)

definition stream_of :: "od_writer ptr \<times> history \<Rightarrow> stream" where
  "stream_of s = (case s of (Ptr _ w, h) \<Rightarrow>
     (case wr_state w of WOpen \<Rightarrow> Buffering (payload (wr_handle w) h)
      | WClosed \<Rightarrow> Published (payload (wr_handle w) h) | _ \<Rightarrow> Discarded) | _ \<Rightarrow> Discarded)"

definition op_fits :: "writer_op \<Rightarrow> bool" where
  "op_fits c \<longleftrightarrow> (case c of WriteOp d \<Rightarrow> length d < 2 ^ 63 | _ \<Rightarrow> True)"

lemma unat_length: "n < 2 ^ 63 \<Longrightarrow> unat (of_nat n :: u64) = n"
  by (simp add: unsigned_of_nat take_bit_nat_eq_self)

lemma writer_call_refines:
  assumes "\<And>g. on_unit E g = ROk ()" "op_fits c" "writer_call E (Ptr a w, h) c = (r, t)"
  shows "\<exists>w' h'. t = (Ptr a w', h') \<and> stream_step (stream_of (Ptr a w, h)) c = (r, stream_of t)"
proof (cases "wr_state w = WOpen")
  case False
  with assms show ?thesis
  proof (cases c)
    case (WriteOp d)
    with assms(2) have "of_nat (length d) = (0 :: u64) \<longleftrightarrow> d = []"
      using unat_length [of "length d"] by (auto simp: op_fits_def unat_eq_0 [symmetric])
    with False WriteOp assms(3) show ?thesis
      by (cases d; cases "wr_state w") (auto simp: not_open stream_of_def)
  qed (use False assms(3) in \<open>cases "wr_state w"; auto simp: not_open stream_of_def\<close>)+
next
  case True
  show ?thesis
  proof (cases c)
    case (WriteOp d)
    then have len: "unat (of_nat (length d) :: u64) = length d" "length d < 2 ^ 63"
      using assms(2) unat_length by (auto simp: op_fits_def)
    then have "of_nat (length d) = (0 :: u64) \<longleftrightarrow> d = []"
      by (auto simp: unat_eq_0 [symmetric])
    moreover have "\<not> of_nat (length d) > slice_limit"
      using len by (simp add: word_less_nat_alt slice_limit_def)
    ultimately show ?thesis
      using True WriteOp assms(1,3) len
      by (cases d) (auto simp: od_writer_write_def od_writer_write_body_def ffi_guard_def require_open_def
        invoke_def stream_of_def)
  next
    case CloseOp
    with True assms(1,3) show ?thesis
      by (auto simp: od_writer_close_def od_writer_close_body_def ffi_guard_def require_open_def
        invoke_def stream_of_def)
  next
    case AbortOp
    with True assms(1,3) show ?thesis
      by (auto simp: od_writer_abort_def od_writer_abort_body_def ffi_guard_def require_open_def
        invoke_def stream_of_def)
  qed
qed

lemma writer_run_refines:
  "(\<And>g. on_unit E g = ROk ()) \<Longrightarrow> list_all op_fits cs \<Longrightarrow> writer_run E (Ptr a w, h) cs = (rs, t) \<Longrightarrow>
     stream_run (stream_of (Ptr a w, h)) cs = (rs, stream_of t)"
proof (induction cs arbitrary: w h rs)
  case Nil
  then show ?case by simp
next
  case (Cons c cs)
  obtain r s1 where c: "writer_call E (Ptr a w, h) c = (r, s1)" by (metis surj_pair)
  from writer_call_refines [OF Cons.prems(1) _ c] Cons.prems(2) obtain w' h' where
    s1: "s1 = (Ptr a w', h')" and st: "stream_step (stream_of (Ptr a w, h)) c = (r, stream_of s1)"
    by auto
  obtain rs' t' where r: "writer_run E s1 cs = (rs', t')" by (metis surj_pair)
  with Cons.IH [OF Cons.prems(1), of w' h' rs'] Cons.prems(2,3) c s1 st show ?case by auto
qed

section \<open>Properties\<close>

text \<open>
  C15: the writer protocol, for any service that does not panic and any calls with any arguments:
  on the handle there are only writes, then at most one close, then at most one abort, and
  nothing after; an open or closed writer has had every write acknowledged, a closed one its close
  as well, and an aborted or failed one records the answer of its single abort.
\<close>

theorem writer_protocol:
  assumes "writer_reach E n h0 s" and "unpanicking E"
  shows "writer_inv E n h0 s"
  using assms by (rule writer_reach_inv)

theorem writer_protocol_witness:
  "\<exists>w. writer_inv calm_env 7 [] (w, [Write 7 ''ab'', CloseWriter 7]) \<and> wr_state w = WClosed"
proof -
  let ?w = "\<lparr>wr_handle = 7, wr_state = WOpen\<rparr>"
  have "od_writer_write calm_env (Ptr 1 ?w) (Some ''ab'') 2 None [] = (0, None, Ptr 1 ?w, [Write 7 ''ab''])"
    by (simp add: od_writer_write_def od_writer_write_body_def ffi_guard_def require_open_def invoke_def slice_limit_def)
  moreover have "od_writer_close calm_env (Ptr 1 ?w) None [Write 7 ''ab''] =
      (0, None, Ptr 1 (?w\<lparr>wr_state := WClosed\<rparr>), [Write 7 ''ab'', CloseWriter 7])"
    by (simp add: od_writer_close_def od_writer_close_body_def ffi_guard_def require_open_def invoke_def)
  ultimately have r: "writer_reach calm_env 7 [] (?w\<lparr>wr_state := WClosed\<rparr>, [Write 7 ''ab'', CloseWriter 7])"
    by (blast intro: writer_reach.intros writer_step.intros)
  have "unpanicking calm_env" by (simp add: unpanicking_def)
  from writer_protocol [OF r this] show ?thesis by force
qed

text \<open>
  A writer that was closed, aborted or failed is final: no entry point makes a call or
  changes the state, and each reports invalid input, except that an empty write succeeds.
\<close>

lemma writer_final:
  assumes "wr_state w \<noteq> WOpen"
  shows "(\<exists>e. od_writer_write E (Ptr a w) data len err h = (if len = 0 then 0 else - 1, e, Ptr a w, h)
           \<and> reports err (len \<noteq> 0) e)
    \<and> (\<exists>e. od_writer_close E (Ptr a w) err h = (- 1, e, Ptr a w, h) \<and> reports err True e)
    \<and> (\<exists>e. od_writer_abort E (Ptr a w) err h = (- 1, e, Ptr a w, h) \<and> reports err True e)"
  using assms by (simp add: not_open reports_intro)

text \<open>
  Refinement: against a service that accepts every call, any sequence of writes, closes and
  aborts on an opened writer gives the results of the abstract stream, and ends with the bytes
  the stream buffers or publishes: exactly the bytes written, in order, none lost or repeated.
\<close>

lemma writer_refines_stream:
  assumes "\<And>g. on_unit E g = ROk ()" and "list_all op_fits cs"
    and "writer_run E (Ptr a \<lparr>wr_handle = n, wr_state = WOpen\<rparr>, h) cs = (rs, t)" and "payload n h = []"
  shows "stream_run (Buffering []) cs = (rs, stream_of t)"
  using writer_run_refines [OF assms(1-3)] assms(4) by (simp add: stream_of_def)

text \<open>
  C38: a write the service rejects is cleaned up at once: the next and last call is the abort,
  the writer leaves the open state for good, and the error reported has the code of the write's
  failure, not of the abort's.
\<close>

theorem failed_write_aborts:
  assumes "wr_state w = WOpen" "0 < len" "len \<le> slice_limit" "unpanicking E"
    and "on_unit E (h @ [Write (wr_handle w) (take (unat len) d)]) = RErr x"
  shows "\<exists>w' m. od_writer_write E (Ptr a w) (Some d) len err h =
      (- 1, set_error err (opendal_error_code x) m, Ptr a w',
       h @ [Write (wr_handle w) (take (unat len) d), AbortWriter (wr_handle w)])
    \<and> wr_state w' \<in> {WAborted, WFailed} \<and> wr_handle w' = wr_handle w"
proof -
  let ?h = "h @ [Write (wr_handle w) (take (unat len) d)]"
  obtain r e' p h' where f: "fail_writer E a w x err ?h = (r, e', p, h')" by (metis surj_pair)
  from fail_writer_moves [OF f assms(4)] obtain w' m where
    "p = Ptr a w'" "r = Ret (- 1)" "e' = set_error err (opendal_error_code x) m" "h' = ?h @ [AbortWriter (wr_handle w)]"
    "wr_handle w' = wr_handle w" "wr_state w' \<in> {WAborted, WFailed}" by auto
  with f assms show ?thesis
    by (auto simp: od_writer_write_def od_writer_write_body_def ffi_guard_def require_open_def invoke_def not_less
        word_less_nat_alt word_le_nat_alt)
qed

theorem failed_write_aborts_witness:
  "\<exists>E w' m. od_writer_write E (Ptr 1 \<lparr>wr_handle = 7, wr_state = WOpen\<rparr>) (Some ''ab'') 2 (Some error_ok) [] =
     (- 1, set_error (Some error_ok) CodePermissionDenied m, Ptr 1 w', [Write 7 ''ab'', AbortWriter 7])
     \<and> wr_state w' \<in> {WAborted, WFailed}"
proof -
  let ?E = "calm_env\<lparr>on_unit := \<lambda>h. (case last h of Write _ _ \<Rightarrow> RErr \<lparr>kind = KPermissionDenied, display = []\<rparr> | _ \<Rightarrow> ROk ())\<rparr>"
  have "unpanicking ?E" by (simp add: unpanicking_def split: call.split)
  from failed_write_aborts [of "\<lparr>wr_handle = 7, wr_state = WOpen\<rparr>" 2 ?E "[]" "''ab''"
      "\<lparr>kind = KPermissionDenied, display = []\<rparr>" 1 "Some error_ok", OF _ _ _ this]
  show ?thesis by (intro exI [of _ ?E]) (auto simp: slice_limit_def opendal_error_code_def)
qed

text \<open>
  Every writer entry point keeps the error contract: \<open>-1\<close> (a null writer for opening)
  exactly when the slot says failure, with a message, also when a call unwinds.
\<close>

lemma writer_entries_report:
  "reports err (fst (od_writer_open E q path err h) = None) (fst (snd (od_writer_open E q path err h)))
   \<and> reports err (fst (od_writer_write E p data len err h) = - 1) (fst (snd (od_writer_write E p data len err h)))
   \<and> reports err (fst (od_writer_close E p err h) = - 1) (fst (snd (od_writer_close E p err h)))
   \<and> reports err (fst (od_writer_abort E p err h) = - 1) (fst (snd (od_writer_abort E p err h)))"
  using writer_open.entry_contract [of err "''od_writer_open''" "(E, q, path, h)"]
    writer_write.entry_contract [of err "''od_writer_write''" "(E, p, data, len, h)"]
    writer_close.entry_contract [of err "''od_writer_close''" "(E, p, h)"]
    writer_abort.entry_contract [of err "''od_writer_abort''" "(E, p, h)"]
  by (simp add: od_writer_open_def od_writer_write_def od_writer_close_def od_writer_abort_def)

end
