(* ===== verification/Mutate.thy ===== *)
theory Mutate
  imports Entry
begin

text \<open>
  Mutations across the C boundary (\<open>opendal/src/mutate.rs\<close>): create, remove, rename and copy, each
  a body handed to the shared \<open>run\<close>, which turns its result into the return code and the error
  slot.
\<close>

section \<open>Definitions\<close>

datatype mut_err = MutOpendal oerror | MutInvalid string | MutUnsupported string

type_synonym mut_result = "(mut_err + unit) outcome \<times> history"

definition mut_guard :: "string \<Rightarrow> bool \<Rightarrow> string \<Rightarrow> mut_err + unit" where
  "mut_guard scheme supported op_name =
     (case require scheme supported op_name of Inl (_, msg) \<Rightarrow> Inl (MutUnsupported msg) | Inr u \<Rightarrow> Inr u)"

text \<open>\<open>block_on(call).map_err(MutErr::Opendal)\<close>\<close>

definition mut_call :: "env \<Rightarrow> call \<Rightarrow> history \<Rightarrow> mut_result" where
  "mut_call E c h =
     (case invoke (on_unit E) c h of
        (ROk _, h1) \<Rightarrow> (Ret (Inr ()), h1)
      | (RErr e, h1) \<Rightarrow> (Ret (Inl (MutOpendal e)), h1)
      | (RPanic, h1) \<Rightarrow> (Panic, h1))"

definition run_mutation ::
  "od_operator ptr \<Rightarrow> err_slot \<Rightarrow> history \<Rightarrow> (od_operator \<Rightarrow> history \<Rightarrow> mut_result) \<Rightarrow> int \<times> err_slot \<times> history" where
  "run_mutation p err h f =
     ffi_guard ''mutation'' (- 1)
       (case p of Null \<Rightarrow> leave err (- 1) h CodeInvalidInput ''null operator''
        | Ptr _ odop \<Rightarrow>
            (case f odop h of
               (Ret (Inr _), h1) \<Rightarrow> (Ret 0, set_ok err, h1)
             | (Ret (Inl (MutOpendal e)), h1) \<Rightarrow> (Ret (- 1), set_opendal_error err e, h1)
             | (Ret (Inl (MutInvalid msg)), h1) \<Rightarrow> (Ret (- 1), set_error err CodeInvalidInput msg, h1)
             | (Ret (Inl (MutUnsupported msg)), h1) \<Rightarrow> (Ret (- 1), set_error err CodeUnsupported msg, h1)
             | (Panic, h1) \<Rightarrow> (Panic, err, h1)))"

text \<open>A directory path ends with a slash.\<close>

definition as_directory :: "string \<Rightarrow> string" where
  "as_directory p = (if suffix ''/'' p then p else p @ ''/'')"

definition od_create_dir ::
  "env \<Rightarrow> od_operator ptr \<Rightarrow> c_str \<Rightarrow> err_slot \<Rightarrow> history \<Rightarrow> int \<times> err_slot \<times> history" where
  "od_create_dir E p path err h = run_mutation p err h (\<lambda>odop h.
     case cstr path of None \<Rightarrow> (Ret (Inl (MutInvalid ''path is null or not UTF-8'')), h)
     | Some s \<Rightarrow>
         (case mut_guard (od_scheme odop) (cap_create_dir (od_cap odop)) ''create_dir'' of
            Inl e \<Rightarrow> (Ret (Inl e), h)
          | Inr _ \<Rightarrow> mut_call E (CreateDir (od_op odop) (as_directory s)) h))"

definition od_remove ::
  "env \<Rightarrow> od_operator ptr \<Rightarrow> c_str \<Rightarrow> nat \<Rightarrow> err_slot \<Rightarrow> history \<Rightarrow> int \<times> err_slot \<times> history" where
  "od_remove E p path recursive err h = run_mutation p err h (\<lambda>odop h.
     case cstr path of None \<Rightarrow> (Ret (Inl (MutInvalid ''path is null or not UTF-8'')), h)
     | Some s \<Rightarrow>
         (case mut_guard (od_scheme odop) (cap_delete (od_cap odop)) ''delete'' of
            Inl e \<Rightarrow> (Ret (Inl e), h)
          | Inr _ \<Rightarrow>
              if recursive \<noteq> 0 then mut_call E (DeleteRecursive (od_op odop) s) h
              else mut_call E (Delete (od_op odop) s) h))"

definition od_rename ::
  "env \<Rightarrow> od_operator ptr \<Rightarrow> c_str \<Rightarrow> c_str \<Rightarrow> err_slot \<Rightarrow> history \<Rightarrow> int \<times> err_slot \<times> history" where
  "od_rename E p source_path dest_path err h = run_mutation p err h (\<lambda>odop h.
     case cstr source_path of None \<Rightarrow> (Ret (Inl (MutInvalid ''from is null or not UTF-8'')), h)
     | Some f \<Rightarrow>
     (case cstr dest_path of None \<Rightarrow> (Ret (Inl (MutInvalid ''to is null or not UTF-8'')), h)
      | Some t \<Rightarrow>
         (case mut_guard (od_scheme odop) (cap_rename (od_cap odop)) ''rename'' of
            Inl e \<Rightarrow> (Ret (Inl e), h)
          | Inr _ \<Rightarrow> mut_call E (Rename (od_op odop) f t) h)))"

definition od_copy ::
  "env \<Rightarrow> od_operator ptr \<Rightarrow> c_str \<Rightarrow> c_str \<Rightarrow> err_slot \<Rightarrow> history \<Rightarrow> int \<times> err_slot \<times> history" where
  "od_copy E p source_path dest_path err h = run_mutation p err h (\<lambda>odop h.
     case cstr source_path of None \<Rightarrow> (Ret (Inl (MutInvalid ''from is null or not UTF-8'')), h)
     | Some f \<Rightarrow>
     (case cstr dest_path of None \<Rightarrow> (Ret (Inl (MutInvalid ''to is null or not UTF-8'')), h)
      | Some t \<Rightarrow>
         (case mut_guard (od_scheme odop) (cap_copy (od_cap odop)) ''copy'' of
            Inl e \<Rightarrow> (Ret (Inl e), h)
          | Inr _ \<Rightarrow> mut_call E (Copy (od_op odop) f t) h)))"

section \<open>The specification\<close>

text \<open>A request, the capability it needs, its name in the error, and its one call.\<close>

datatype request = MakeDir string | Remove string bool | Move string string | Duplicate string string

fun needs :: "request \<Rightarrow> capability \<Rightarrow> bool" where
  "needs (MakeDir _) c = cap_create_dir c"
| "needs (Remove _ _) c = cap_delete c"
| "needs (Move _ _) c = cap_rename c"
| "needs (Duplicate _ _) c = cap_copy c"

fun request_name :: "request \<Rightarrow> string" where
  "request_name (MakeDir _) = ''create_dir''"
| "request_name (Remove _ _) = ''delete''"
| "request_name (Move _ _) = ''rename''"
| "request_name (Duplicate _ _) = ''copy''"

fun request_call :: "operator \<Rightarrow> request \<Rightarrow> call" where
  "request_call op (MakeDir p) = CreateDir op (if suffix ''/'' p then p else p @ ''/'')"
| "request_call op (Remove p r) = (if r then DeleteRecursive op p else Delete op p)"
| "request_call op (Move f t) = Rename op f t"
| "request_call op (Duplicate f t) = Copy op f t"

definition perform :: "env \<Rightarrow> od_operator \<Rightarrow> request \<Rightarrow> err_slot \<Rightarrow> history \<Rightarrow> int \<times> err_slot \<times> history" where
  "perform E odop q err h =
     (if \<not> needs q (od_cap odop)
      then (- 1, set_error err CodeUnsupported
              (''service '' @ quoted (od_scheme odop) @ '' does not support '' @ request_name q), h)
      else (let h1 = h @ [request_call (od_op odop) q]
            in case on_unit E h1 of ROk _ \<Rightarrow> (0, set_ok err, h1)
               | RErr e \<Rightarrow> (- 1, set_opendal_error err e, h1)
               | RPanic \<Rightarrow> (- 1, set_panic err ''panic in mutation'', h1)))"

lemma run_perform:
  "run_mutation (Ptr a odop) err h (\<lambda>odop h.
     case mut_guard (od_scheme odop) (needs q (od_cap odop)) (request_name q) of
       Inl e \<Rightarrow> (Ret (Inl e), h)
     | Inr _ \<Rightarrow> mut_call E (request_call (od_op odop) q) h) = perform E odop q err h"
  by (cases "needs q (od_cap odop)"; cases "on_unit E (h @ [request_call (od_op odop) q])")
    (simp_all add: run_mutation_def mut_guard_def mut_call_def require_def ffi_guard_def perform_def invoke_def)

lemma run_invalid:
  "run_mutation (Ptr a odop) err h (\<lambda>odop h. (Ret (Inl (MutInvalid m)), h)) = (- 1, set_error err CodeInvalidInput m, h)"
  by (simp add: run_mutation_def ffi_guard_def)

lemma run_null: "run_mutation Null err h f = (- 1, set_error err CodeInvalidInput ''null operator'', h)"
  by (simp add: run_mutation_def ffi_guard_def)

text \<open>Every mutation is a refusal or a performed request.\<close>

lemmas run_request = run_perform [where q = "MakeDir u" for u] run_perform [where q = "Remove u r" for u r]
  run_perform [where q = "Move u v" for u v] run_perform [where q = "Duplicate u v" for u v]

lemmas run_request_simps = run_request [unfolded needs.simps request_name.simps request_call.simps]

lemma single_path_cases:
  assumes "cstr s = Some u"
  shows "od_create_dir E (Ptr a odop) s err h = perform E odop (MakeDir u) err h"
    and "od_remove E (Ptr a odop) s recursive err h = perform E odop (Remove u (recursive \<noteq> 0)) err h"
proof -
  show "od_create_dir E (Ptr a odop) s err h = perform E odop (MakeDir u) err h"
    unfolding od_create_dir_def assms option.case as_directory_def by (rule run_request_simps(1))
  have "(if recursive \<noteq> 0 then mut_call E c h else mut_call E d h)
      = mut_call E (if recursive \<noteq> 0 then c else d) h" for c d h
    by simp
  then show "od_remove E (Ptr a odop) s recursive err h = perform E odop (Remove u (recursive \<noteq> 0)) err h"
    unfolding od_remove_def assms option.case by (simp only: run_request_simps(2))
qed

lemma two_path_cases:
  assumes "cstr s = Some u" "cstr t = Some v"
  shows "od_rename E (Ptr a odop) s t err h = perform E odop (Move u v) err h"
    and "od_copy E (Ptr a odop) s t err h = perform E odop (Duplicate u v) err h"
  unfolding od_rename_def od_copy_def assms option.case by (rule run_request_simps)+

lemmas mutation_cases = single_path_cases two_path_cases

text \<open>What every mutation keeps, and that performing and refusing keep it.\<close>

definition mutation_ok :: "err_slot \<Rightarrow> history \<Rightarrow> int \<times> err_slot \<times> history \<Rightarrow> bool" where
  "mutation_ok err h res \<longleftrightarrow>
     (let (r, e, h') = res in reports err (r \<noteq> 0) e \<and> (r = 0 \<or> r = - 1) \<and> (h' = h \<or> (\<exists>c. h' = h @ [c])))"

lemma perform_ok: "mutation_ok err h (perform E odop q err h)"
  by (auto simp: mutation_ok_def perform_def Let_def reports_intro split: reply.split)

lemma refuse_ok: "mutation_ok err h (- 1, set_error err CodeInvalidInput m, h)"
  by (simp add: mutation_ok_def reports_intro)

lemma mutation_refusals:
  "od_create_dir E Null s err h = (- 1, set_error err CodeInvalidInput ''null operator'', h)"
  "od_remove E Null s recursive err h = (- 1, set_error err CodeInvalidInput ''null operator'', h)"
  "od_rename E Null s t err h = (- 1, set_error err CodeInvalidInput ''null operator'', h)"
  "od_copy E Null s t err h = (- 1, set_error err CodeInvalidInput ''null operator'', h)"
  "cstr s = None \<Longrightarrow> od_create_dir E (Ptr a odop) s err h = (- 1, set_error err CodeInvalidInput ''path is null or not UTF-8'', h)"
  "cstr s = None \<Longrightarrow> od_remove E (Ptr a odop) s recursive err h = (- 1, set_error err CodeInvalidInput ''path is null or not UTF-8'', h)"
  "cstr s = None \<Longrightarrow> od_rename E (Ptr a odop) s t err h = (- 1, set_error err CodeInvalidInput ''from is null or not UTF-8'', h)"
  "cstr s = None \<Longrightarrow> od_copy E (Ptr a odop) s t err h = (- 1, set_error err CodeInvalidInput ''from is null or not UTF-8'', h)"
  "cstr s = Some u \<Longrightarrow> cstr t = None \<Longrightarrow>
     od_rename E (Ptr a odop) s t err h = (- 1, set_error err CodeInvalidInput ''to is null or not UTF-8'', h)"
  "cstr s = Some u \<Longrightarrow> cstr t = None \<Longrightarrow>
     od_copy E (Ptr a odop) s t err h = (- 1, set_error err CodeInvalidInput ''to is null or not UTF-8'', h)"
  by (simp_all add: od_create_dir_def od_remove_def od_rename_def od_copy_def run_null run_invalid)

lemma mutations_ok:
  "mutation_ok err h (od_create_dir E p s err h)" "mutation_ok err h (od_remove E p s recursive err h)"
  "mutation_ok err h (od_rename E p s t err h)" "mutation_ok err h (od_copy E p s t err h)"
proof -
  show "mutation_ok err h (od_create_dir E p s err h)"
    by (cases p; cases "cstr s") (simp_all add: mutation_refusals mutation_cases perform_ok refuse_ok)
  show "mutation_ok err h (od_remove E p s recursive err h)"
    by (cases p; cases "cstr s") (simp_all add: mutation_refusals mutation_cases perform_ok refuse_ok)
  show "mutation_ok err h (od_rename E p s t err h)"
    by (cases p; cases "cstr s"; cases "cstr t") (simp_all add: mutation_refusals mutation_cases perform_ok refuse_ok)
  show "mutation_ok err h (od_copy E p s t err h)"
    by (cases p; cases "cstr s"; cases "cstr t") (simp_all add: mutation_refusals mutation_cases perform_ok refuse_ok)
qed

section \<open>Properties\<close>

text \<open>
  The four mutations implement their specification on valid arguments: without the
  capability they report it and make no call; with it they make exactly the one call of the
  request, a directory path closed by one slash, and answer what the service answered.
\<close>

lemma mutations_perform:
  assumes "utf8_valid s" "utf8_valid t"
  shows "od_create_dir E (Ptr a odop) (Some s) err h = perform E odop (MakeDir s) err h
    \<and> od_remove E (Ptr a odop) (Some s) recursive err h = perform E odop (Remove s (recursive \<noteq> 0)) err h
    \<and> od_rename E (Ptr a odop) (Some s) (Some t) err h = perform E odop (Move s t) err h
    \<and> od_copy E (Ptr a odop) (Some s) (Some t) err h = perform E odop (Duplicate s t) err h"
  using assms by (simp add: mutation_cases cstr_def)

text \<open>
  The error contract and the call discipline of the mutations, on all arguments: 0 or \<open>-1\<close>,
  \<open>-1\<close> exactly when the slot says failure, and at most one call.
\<close>

lemma mutations_contract:
  assumes "(r, e, h') \<in> {od_create_dir E p s err h, od_remove E p s recursive err h,
      od_rename E p s t err h, od_copy E p s t err h}"
  shows "reports err (r \<noteq> 0) e \<and> (r = 0 \<or> r = - 1) \<and> (h' = h \<or> (\<exists>c. h' = h @ [c]))"
proof -
  from assms have "mutation_ok err h (r, e, h')"
    by (elim insertE emptyE) (simp_all only: mutations_ok)
  then show ?thesis by (simp add: mutation_ok_def)
qed

end
