(* ===== verification/Lister.thy ===== *)
theory Lister
  imports Stat
begin

text \<open>
  Directory listings across the C boundary (\<open>opendal/src/lister.rs\<close>): the materialised list, and
  its entries, whose C strings are built on first access and cached in the list.
\<close>

section \<open>Definitions\<close>

text \<open>The list and its cache; the cache is a hash map, keyed by index.\<close>

record od_entry_list =
  el_entries :: "entry list"
  el_strings :: "nat \<Rightarrow> (string \<times> string) option"

record od_entry =
  oe_path :: c_str
  oe_name :: c_str
  oe_content_length :: u64
  oe_last_modified_ms :: i64
  oe_is_dir :: nat

definition empty_entry :: od_entry where
  "empty_entry = \<lparr>oe_path = None, oe_name = None, oe_content_length = 0, oe_last_modified_ms = - 1,
     oe_is_dir = 0\<rparr>"

text \<open>\<open>CString::new(s).unwrap_or_default()\<close>\<close>

definition cstring_or_empty :: "string \<Rightarrow> string" where
  "cstring_or_empty s = (case cstring_new s of Some t \<Rightarrow> t | None \<Rightarrow> [])"

definition entry_strings :: "env \<Rightarrow> entry \<Rightarrow> string \<times> string" where
  "entry_strings E x = (cstring_or_empty (fst x), cstring_or_empty (get_basename E (fst x)))"

definition cached_ptrs :: "env \<Rightarrow> od_entry_list \<Rightarrow> nat \<Rightarrow> (string \<times> string) \<times> od_entry_list" where
  "cached_ptrs E l i =
     (case el_strings l i of Some s \<Rightarrow> (s, l)
      | None \<Rightarrow> (let s = entry_strings E (el_entries l ! i)
                in (s, l\<lparr>el_strings := (el_strings l)(i \<mapsto> s)\<rparr>)))"

definition od_list_body ::
  "env \<Rightarrow> od_operator ptr \<Rightarrow> c_str \<Rightarrow> nat \<Rightarrow> err_slot \<Rightarrow> history
     \<Rightarrow> od_entry_list option outcome \<times> err_slot \<times> history" where
  "od_list_body E p path recursive err h =
     (case (p, path) of
        (Ptr _ op, Some _) \<Rightarrow>
          check_guard (require (od_scheme op) (cap_list (od_cap op)) ''list'') err None h
            (decode_or_leave path ''path is null or not UTF-8'' err None h (\<lambda>s.
              await_or_leave (invoke (on_entries E) (ListWith (od_op op) s (recursive \<noteq> 0)) h) err None (\<lambda>h1. h1)
                (\<lambda>es h1. (Ret (Some \<lparr>el_entries = es, el_strings = Map.empty\<rparr>), set_ok err, h1))))
      | _ \<Rightarrow> leave err None h CodeInvalidInput ''null operator or path'')"

definition od_list ::
  "env \<Rightarrow> od_operator ptr \<Rightarrow> c_str \<Rightarrow> nat \<Rightarrow> err_slot \<Rightarrow> history
     \<Rightarrow> od_entry_list option \<times> err_slot \<times> history" where
  "od_list E p path recursive err h = ffi_guard ''od_list'' None (od_list_body E p path recursive err h)"

definition od_list_len :: "od_entry_list ptr \<Rightarrow> nat" where
  "od_list_len p = (case p of Null \<Rightarrow> 0 | Ptr _ l \<Rightarrow> length (el_entries l))"

text \<open>Reading an entry gives the output and the list with its cache extended.\<close>

definition od_list_entry_body ::
  "env \<Rightarrow> od_entry_list ptr \<Rightarrow> nat \<Rightarrow> od_entry option \<Rightarrow> err_slot
     \<Rightarrow> nat outcome \<times> err_slot \<times> od_entry option \<times> od_entry_list ptr" where
  "od_list_entry_body E p i out err =
     (let out0 = map_option (\<lambda>_. empty_entry) out
      in case (p, out) of
           (Ptr a l, Some _) \<Rightarrow>
             if length (el_entries l) \<le> i
             then leave err 0 (out0, p) CodeInvalidInput ''index out of bounds''
             else (let ((pth, nam), l') = cached_ptrs E l i; m = snd (el_entries l ! i)
                   in (Ret 1, set_ok err,
                       Some \<lparr>oe_path = Some pth, oe_name = Some nam, oe_content_length = content_length m,
                         oe_last_modified_ms = last_modified_ms m, oe_is_dir = (if is_dir m then 1 else 0)\<rparr>,
                       Ptr a l'))
         | _ \<Rightarrow> leave err 0 (out0, p) CodeInvalidInput ''null list or out parameter'')"

definition od_list_entry ::
  "env \<Rightarrow> od_entry_list ptr \<Rightarrow> nat \<Rightarrow> od_entry option \<Rightarrow> err_slot
     \<Rightarrow> nat \<times> err_slot \<times> od_entry option \<times> od_entry_list ptr" where
  "od_list_entry E p i out err = ffi_guard ''od_list_entry'' 0 (od_list_entry_body E p i out err)"

section \<open>The cache\<close>

text \<open>Every cached pair is the pair of the entry at its index.\<close>

definition cache_coherent :: "env \<Rightarrow> od_entry_list \<Rightarrow> bool" where
  "cache_coherent E l \<longleftrightarrow>
     (\<forall>i s. el_strings l i = Some s \<longrightarrow> i < length (el_entries l) \<and> s = entry_strings E (el_entries l ! i))"

lemma cached_ptrs_coherent:
  assumes "cache_coherent E l" "i < length (el_entries l)" "cached_ptrs E l i = (s, l')"
  shows "s = entry_strings E (el_entries l ! i) \<and> cache_coherent E l' \<and> el_entries l' = el_entries l
    \<and> el_strings l \<subseteq>\<^sub>m el_strings l' \<and> el_strings l' i = Some s"
proof (cases "el_strings l i")
  case None
  with assms show ?thesis
    by (auto simp: cached_ptrs_def cache_coherent_def Let_def map_le_def simp del: split_paired_All
        split: if_splits)
next
  case (Some t)
  with assms show ?thesis
    by (auto simp: cached_ptrs_def cache_coherent_def simp del: split_paired_All)
qed

text \<open>What entry \<open>i\<close> of a listing looks like from C.\<close>

definition entry_view :: "env \<Rightarrow> entry \<Rightarrow> od_entry" where
  "entry_view E x = \<lparr>oe_path = Some (fst (entry_strings E x)), oe_name = Some (snd (entry_strings E x)),
     oe_content_length = content_length (snd x), oe_last_modified_ms = last_modified_ms (snd x),
     oe_is_dir = (if is_dir (snd x) then 1 else 0)\<rparr>"

lemma od_list_entry_in_range:
  assumes "cache_coherent E l" "i < length (el_entries l)"
  shows "\<exists>l'. od_list_entry E (Ptr a l) i (Some out) err = (1, set_ok err, Some (entry_view E (el_entries l ! i)), Ptr a l')
    \<and> cache_coherent E l' \<and> el_entries l' = el_entries l \<and> el_strings l \<subseteq>\<^sub>m el_strings l'"
proof -
  obtain pth nam l' where c: "cached_ptrs E l i = ((pth, nam), l')" by (metis surj_pair)
  note l' = cached_ptrs_coherent [OF assms c]
  then have "entry_strings E (el_entries l ! i) = (pth, nam)" by simp
  moreover from l' have "cache_coherent E l'" "el_entries l' = el_entries l" "el_strings l \<subseteq>\<^sub>m el_strings l'"
    by simp_all
  ultimately show ?thesis
    using assms(2) c
    by (intro exI [of _ l'])
      (simp add: od_list_entry_def od_list_entry_body_def ffi_guard_def entry_view_def Let_def)
qed

text \<open>Reading a sequence of entries, with the list threaded through.\<close>

fun read_entries ::
  "env \<Rightarrow> od_entry_list ptr \<Rightarrow> nat list \<Rightarrow> err_slot \<Rightarrow> (nat \<times> od_entry option) list" where
  "read_entries E p [] err = []"
| "read_entries E p (i # is) err =
     (let (r, e, out, p') = od_list_entry E p i (Some empty_entry) err
      in (r, out) # read_entries E p' is err)"

lemma read_entries_coherent:
  "cache_coherent E l \<Longrightarrow>
     read_entries E (Ptr a l) is err =
       map (\<lambda>i. if i < length (el_entries l) then (1, Some (entry_view E (el_entries l ! i)))
                else (0, Some empty_entry)) is"
proof (induction "is" arbitrary: l)
  case Nil
  then show ?case by simp
next
  case (Cons i js)
  show ?case
  proof (cases "i < length (el_entries l)")
    case True
    from od_list_entry_in_range [OF Cons.prems True] obtain l' where
      "od_list_entry E (Ptr a l) i (Some empty_entry) err = (1, set_ok err, Some (entry_view E (el_entries l ! i)), Ptr a l')"
      "cache_coherent E l'" "el_entries l' = el_entries l" by blast
    with Cons.IH [of l'] True show ?thesis by simp
  next
    case False
    then have "od_list_entry E (Ptr a l) i (Some empty_entry) err =
        (0, set_error err CodeInvalidInput ''index out of bounds'', Some empty_entry, Ptr a l)"
      by (simp add: od_list_entry_def od_list_entry_body_def ffi_guard_def)
    with Cons.IH [OF Cons.prems] False show ?thesis by simp
  qed
qed

interpretation list_open: ffi_entry "\<lambda>(E, p, path, r, h) err. od_list_body E p path r err h" None
  by (rule ffi_entry_intro)
    (auto simp: od_list_body_def simp del: leave_simps intro!: body_intro split: ptr.split option.split)

interpretation list_entry: ffi_entry "\<lambda>(E, p, i, out) err. od_list_entry_body E p i out err" 0
  by (rule ffi_entry_intro)
    (auto simp: od_list_entry_body_def Let_def simp del: leave_simps intro!: body_intro
      split: ptr.split option.split prod.split)

section \<open>Properties\<close>

text \<open>
  Listing and reading back: what is read through the entry accessor, in any order and with
  any repetition, is the listing the service returned, whatever the cache of C strings already
  holds; an index past the end answers 0 with an empty entry, and the length is the number of
  entries.
\<close>

lemma od_list_reads_back:
  assumes "od_list E (Ptr b op) (Some path) recursive err h = (Some l, e, h')"
  shows "on_entries E (h @ [ListWith (od_op op) path (recursive \<noteq> 0)]) = ROk (el_entries l)
    \<and> h' = h @ [ListWith (od_op op) path (recursive \<noteq> 0)] \<and> od_list_len (Ptr a l) = length (el_entries l)
    \<and> read_entries E (Ptr a l) is err2 =
        map (\<lambda>i. if i < length (el_entries l) then (1, Some (entry_view E (el_entries l ! i)))
                 else (0, Some empty_entry)) is"
proof -
  from assms have l: "l = \<lparr>el_entries = el_entries l, el_strings = Map.empty\<rparr>"
    "on_entries E (h @ [ListWith (od_op op) path (recursive \<noteq> 0)]) = ROk (el_entries l)"
    "h' = h @ [ListWith (od_op op) path (recursive \<noteq> 0)]"
    by (auto simp: od_list_def od_list_body_def ffi_guard_def check_guard_def decode_or_leave_def cstr_def
        await_or_leave_def invoke_def split: sum.splits option.splits reply.splits if_splits)
  then have "el_strings l = Map.empty" by (metis od_entry_list.select_convs(2))
  then have "cache_coherent E l" by (simp add: cache_coherent_def)
  from read_entries_coherent [OF this] l show ?thesis by (simp add: od_list_len_def)
qed

end

