(* ===== verification/Table.thy ===== *)
theory Table
  imports Lister Paths
begin

text \<open>
  What the table functions share (\<open>opendal/src/table.rs\<close>): the C structs of options and rows, the
  decoding of options, and the owned row a scan keeps while C borrows from it.
\<close>

section \<open>C structs\<close>

record od_stat_options =
  os_version :: c_str
  os_if_match :: c_str
  os_if_none_match :: c_str
  os_if_modified_since_ms :: i64
  os_has_if_modified_since :: nat
  os_if_unmodified_since_ms :: i64
  os_has_if_unmodified_since :: nat

record od_list_options =
  ol_start_after :: c_str
  ol_recursive :: nat
  ol_versions :: nat
  ol_deleted :: nat

record od_entry_metadata =
  em_mode :: nat
  em_content_length :: u64
  em_cache_control :: c_str
  em_content_disposition :: c_str
  em_content_md5 :: c_str
  em_content_type :: c_str
  em_content_encoding :: c_str
  em_etag :: c_str
  em_last_modified_ms :: i64
  em_has_last_modified :: nat
  em_version :: c_str
  em_is_current :: nat
  em_has_is_current :: nat
  em_is_deleted :: nat
  em_user_keys :: "string list"
  em_user_values :: "string list"
  em_user_len :: nat

record od_entry_row =
  er_path :: c_str
  er_name :: c_str
  er_metadata :: od_entry_metadata

section \<open>Decoding options\<close>

definition optional_cstr :: "c_str \<Rightarrow> string \<Rightarrow> string option parsed" where
  "optional_cstr val name =
     (case val of None \<Rightarrow> Inr None
      | Some _ \<Rightarrow> (case cstr val of Some s \<Rightarrow> Inr (Some s) | None \<Rightarrow> Inl (name @ '' is not UTF-8'')))"

definition timestamp :: "env \<Rightarrow> i64 \<Rightarrow> nat \<Rightarrow> string \<Rightarrow> i64 option parsed" where
  "timestamp E ms present name =
     (if present = 0 then Inr None
      else case timestamp_from_ms E ms of Inr t \<Rightarrow> Inr (Some t)
           | Inl e \<Rightarrow> Inl (''invalid '' @ name @ '': '' @ e))"

definition stat_options :: "env \<Rightarrow> od_stat_options \<Rightarrow> stat_opts parsed" where
  "stat_options E raw =
     res_bind (optional_cstr (os_version raw) ''version'') (\<lambda>ver.
     res_bind (optional_cstr (os_if_match raw) ''if_match'') (\<lambda>im.
     res_bind (optional_cstr (os_if_none_match raw) ''if_none_match'') (\<lambda>inm.
     res_bind (timestamp E (os_if_modified_since_ms raw) (os_has_if_modified_since raw) ''if_modified_since'') (\<lambda>ms.
     res_bind (timestamp E (os_if_unmodified_since_ms raw) (os_has_if_unmodified_since raw)
       ''if_unmodified_since'') (\<lambda>us.
       Inr \<lparr>so_version = ver, so_if_match = im, so_if_none_match = inm,
         so_if_modified_since = ms, so_if_unmodified_since = us\<rparr>)))))"

definition list_options :: "od_list_options \<Rightarrow> list_opts parsed" where
  "list_options raw =
     res_bind (optional_cstr (ol_start_after raw) ''start_after'') (\<lambda>sa.
       Inr \<lparr>lo_start_after = sa, lo_recursive = (ol_recursive raw \<noteq> 0), lo_versions = (ol_versions raw \<noteq> 0),
         lo_deleted = (ol_deleted raw \<noteq> 0)\<rparr>)"

text \<open>\<open>match r { Ok(v) => ..., Err(message) => { set_error(InvalidInput, message); return fail; } }\<close>\<close>

definition value_or_leave ::
  "'a parsed \<Rightarrow> err_slot \<Rightarrow> 'r \<Rightarrow> 'x \<Rightarrow> ('a \<Rightarrow> 'r outcome \<times> err_slot \<times> 'x) \<Rightarrow> 'r outcome \<times> err_slot \<times> 'x" where
  "value_or_leave m err fail x k = (case m of Inr a \<Rightarrow> k a | Inl msg \<Rightarrow> leave err fail x CodeInvalidInput msg)"

lemma value_or_leave_simps [simp]:
  "value_or_leave (Inr a) err fail x k = k a"
  "value_or_leave (Inl msg) err fail x k = (Ret fail, set_error err CodeInvalidInput msg, x)"
  by (simp_all add: value_or_leave_def)

lemma body_ok_value [body_intro]:
  "(\<And>a. m = Inr a \<Longrightarrow> body_ok e fail (k a)) \<Longrightarrow> body_ok e fail (value_or_leave m e fail x k)"
  by (auto simp: value_or_leave_def body_ok_error split: sum.split)

section \<open>Owned rows\<close>

record owned_row =
  ow_path :: string
  ow_name :: string
  ow_cache_control :: "string option"
  ow_content_disposition :: "string option"
  ow_content_md5 :: "string option"
  ow_content_type :: "string option"
  ow_content_encoding :: "string option"
  ow_etag :: "string option"
  ow_version :: "string option"
  ow_user_keys :: "string list"
  ow_user_values :: "string list"
  ow_mode :: nat
  ow_content_length :: u64
  ow_last_modified_ms :: i64
  ow_has_last_modified :: nat
  ow_is_current :: nat
  ow_has_is_current :: nat
  ow_is_deleted :: nat

definition cstring :: "string \<Rightarrow> string \<Rightarrow> string parsed" where
  "cstring val field =
     (case cstring_new val of Some s \<Rightarrow> Inr s | None \<Rightarrow> Inl (''OpenDAL '' @ field @ '' contains a NUL byte''))"

definition optional_string :: "string option \<Rightarrow> string \<Rightarrow> string option parsed" where
  "optional_string val field =
     (case val of None \<Rightarrow> Inr None | Some v \<Rightarrow> res_bind (cstring v field) (\<lambda>s. Inr (Some s)))"

fun user_strings :: "(string \<times> string) list \<Rightarrow> (string list \<times> string list) parsed" where
  "user_strings [] = Inr ([], [])"
| "user_strings ((k, v) # kvs) =
     res_bind (cstring k ''user metadata key'') (\<lambda>k'.
     res_bind (cstring v ''user metadata value'') (\<lambda>v'.
     res_bind (user_strings kvs) (\<lambda>(ks, vs). Inr (k' # ks, v' # vs))))"

definition mode_number :: "entry_mode \<Rightarrow> nat" where
  "mode_number m = (case m of FILE \<Rightarrow> 1 | DIR \<Rightarrow> 2 | UnknownMode \<Rightarrow> 0)"

definition bool_number :: "bool \<Rightarrow> nat" where
  "bool_number b = (if b then 1 else 0)"

text \<open>\<open>user_metadata\<close> sorted by key; the sort is stable.\<close>

definition sorted_user_metadata :: "metadata \<Rightarrow> (string \<times> string) list" where
  "sorted_user_metadata m = sort_key fst (case user_metadata m of Some kvs \<Rightarrow> kvs | None \<Rightarrow> [])"

definition owned_from_parts :: "env \<Rightarrow> string \<Rightarrow> metadata \<Rightarrow> owned_row parsed" where
  "owned_from_parts E path m =
     res_bind (user_strings (sorted_user_metadata m)) (\<lambda>(uks, uvs).
     res_bind (cstring path ''path'') (\<lambda>p.
     res_bind (cstring (get_basename E path) ''name'') (\<lambda>n.
     res_bind (optional_string (cache_control m) ''cache_control'') (\<lambda>cc.
     res_bind (optional_string (content_disposition m) ''content_disposition'') (\<lambda>cd.
     res_bind (optional_string (content_md5 m) ''content_md5'') (\<lambda>md5.
     res_bind (optional_string (content_type m) ''content_type'') (\<lambda>ct.
     res_bind (optional_string (content_encoding m) ''content_encoding'') (\<lambda>ce.
     res_bind (optional_string (etag m) ''etag'') (\<lambda>et.
     res_bind (optional_string (version m) ''version'') (\<lambda>ver.
       Inr \<lparr>ow_path = p, ow_name = n, ow_cache_control = cc, ow_content_disposition = cd,
         ow_content_md5 = md5, ow_content_type = ct, ow_content_encoding = ce, ow_etag = et,
         ow_version = ver, ow_user_keys = uks, ow_user_values = uvs,
         ow_mode = mode_number (mode m), ow_content_length = content_length m,
         ow_last_modified_ms = (case last_modified m of Some t \<Rightarrow> t | None \<Rightarrow> 0),
         ow_has_last_modified = bool_number (last_modified m \<noteq> None),
         ow_is_current = bool_number (is_current m = Some True),
         ow_has_is_current = bool_number (is_current m \<noteq> None),
         ow_is_deleted = bool_number (is_deleted m)\<rparr>))))))))))"

definition owned_new :: "env \<Rightarrow> entry \<Rightarrow> owned_row parsed" where
  "owned_new E x = owned_from_parts E (fst x) (snd x)"

definition borrowed :: "owned_row \<Rightarrow> od_entry_row" where
  "borrowed r =
     \<lparr>er_path = Some (ow_path r), er_name = Some (ow_name r), er_metadata =
        \<lparr>em_mode = ow_mode r, em_content_length = ow_content_length r, em_cache_control = ow_cache_control r,
         em_content_disposition = ow_content_disposition r, em_content_md5 = ow_content_md5 r,
         em_content_type = ow_content_type r, em_content_encoding = ow_content_encoding r, em_etag = ow_etag r,
         em_last_modified_ms = ow_last_modified_ms r, em_has_last_modified = ow_has_last_modified r,
         em_version = ow_version r, em_is_current = ow_is_current r, em_has_is_current = ow_has_is_current r,
         em_is_deleted = ow_is_deleted r, em_user_keys = ow_user_keys r, em_user_values = ow_user_values r,
         em_user_len = length (ow_user_keys r)\<rparr>\<rparr>"

section \<open>Lemmas\<close>

lemma cstring_Inr_iff [result_iff]: "cstring s f = Inr t \<longleftrightarrow> t = s \<and> nul_free s"
  by (auto simp: cstring_def cstring_new_def)

lemma optional_string_Inr_iff [result_iff]:
  "optional_string v f = Inr w \<longleftrightarrow> w = v \<and> (\<forall>s. v = Some s \<longrightarrow> nul_free s)"
  by (auto simp: optional_string_def result_iff split: option.split)

lemma user_strings_Inr:
  "user_strings kvs = Inr (ks, vs) \<Longrightarrow> ks = map fst kvs \<and> vs = map snd kvs \<and> list_all nul_free (ks @ vs)"
  by (induction kvs arbitrary: ks vs rule: user_strings.induct) (auto simp: result_iff)

lemma user_strings_nul_free:
  "list_all (\<lambda>(k, v). nul_free k \<and> nul_free v) kvs \<Longrightarrow> user_strings kvs = Inr (map fst kvs, map snd kvs)"
  by (induction kvs rule: user_strings.induct) (auto simp: cstring_def cstring_new_def)

text \<open>What a row shows of an entry when nothing in it has a NUL byte.\<close>

lemma owned_from_parts_path: "owned_from_parts E path m = Inr r \<Longrightarrow> ow_path r = path"
  by (auto simp: owned_from_parts_def result_iff split: prod.splits)

lemma owned_from_parts_Inr:
  assumes "owned_from_parts E path m = Inr r"
  shows "ow_path r = path \<and> ow_name r = get_basename E path \<and> ow_content_length r = content_length m
    \<and> ow_mode r = mode_number (mode m)
    \<and> ow_user_keys r = map fst (sorted_user_metadata m) \<and> ow_user_values r = map snd (sorted_user_metadata m)
    \<and> nul_free path \<and> nul_free (get_basename E path) \<and> list_all nul_free (ow_user_keys r @ ow_user_values r)"
  using assms by (auto simp: owned_from_parts_def result_iff dest!: user_strings_Inr split: prod.splits)

section \<open>Properties\<close>

text \<open>
  C39: a row is built exactly when no string of the entry has a NUL byte, so that every C string
  C sees is the whole value; its user metadata are the entry's, key by key, in ascending key
  order, whatever order the service's map iterates in.
\<close>

theorem owned_row_faithful:
  assumes "owned_from_parts E path m = Inr r" and "user_metadata m = Some kvs" "distinct (map fst kvs)"
  shows "er_path (borrowed r) = Some path \<and> er_name (borrowed r) = Some (get_basename E path)
    \<and> nul_free path \<and> sorted_wrt (<) (em_user_keys (er_metadata (borrowed r)))
    \<and> em_user_len (er_metadata (borrowed r)) = length kvs
    \<and> length (em_user_values (er_metadata (borrowed r))) = length kvs
    \<and> map_of (zip (em_user_keys (er_metadata (borrowed r))) (em_user_values (er_metadata (borrowed r)))) = map_of kvs"
proof -
  let ?s = "sort_key fst kvs"
  have sorted: "sorted_user_metadata m = ?s" using assms(2) by (simp add: sorted_user_metadata_def)
  have "distinct (map fst ?s)"
    using assms(3) by (metis distinct_map distinct_sort inj_on_def set_sort)
  then have "sorted_wrt (<) (map fst ?s)" by (simp add: strict_sorted_iff)
  moreover have "map_of ?s = map_of kvs"
    using assms(3) \<open>distinct (map fst ?s)\<close> by (metis map_of_inject_set set_sort)
  moreover note owned_from_parts_Inr [OF assms(1)]
  ultimately show ?thesis by (simp add: borrowed_def sorted zip_map_fst_snd)
qed

theorem owned_row_faithful_witness:
  "\<exists>r. owned_from_parts calm_env ''d/a'' (plain_file\<lparr>user_metadata := Some [(''k2'', ''x''), (''k1'', ''y'')]\<rparr>) = Inr r
     \<and> map_of (zip (em_user_keys (er_metadata (borrowed r))) (em_user_values (er_metadata (borrowed r)))) ''k1'' = Some ''y''"
proof -
  let ?m = "plain_file\<lparr>user_metadata := Some [(''k2'', ''x''), (''k1'', ''y'')]\<rparr>"
  obtain r where r: "owned_from_parts calm_env ''d/a'' ?m = Inr r"
    by (simp add: owned_from_parts_def sorted_user_metadata_def plain_file_def cstring_def cstring_new_def
        optional_string_def calm_env_def less_char_def)
  from owned_row_faithful [OF r, of "[(''k2'', ''x''), (''k1'', ''y'')]"] r show ?thesis by auto
qed

end
