(* ===== verification/Scan.thy ===== *)
theory Scan
  imports Entry
begin

text \<open>
  The protocol all row cursors of \<open>opendal/src/table.rs\<close> share with their client: a step answers
  1 with a row, 0 when there is no more, and \<open>-1\<close> on an error, and the client steps until 0.  The
  interface says what a step promises in a state that is ready to give certain items; the client's
  lemma says that stepping then ends and gives one result per item, in order.
\<close>

fun collect :: "('s \<Rightarrow> (int \<times> 'r \<times> 's) option) \<Rightarrow> nat \<Rightarrow> 's \<Rightarrow> (int \<times> 'r) list option" where
  "collect step 0 s = None"
| "collect step (Suc n) s =
     (case step s of None \<Rightarrow> None
      | Some (c, r, s') \<Rightarrow> if c = 0 then Some [] else map_option ((#) (c, r)) (collect step n s'))"

locale row_cursor =
  fixes step :: "'s \<Rightarrow> (int \<times> 'r \<times> 's) option"
    and ready :: "'s \<Rightarrow> 'i list \<Rightarrow> bool"
    and gives :: "'i \<Rightarrow> int \<times> 'r \<Rightarrow> bool"
  assumes step_end: "ready s [] \<Longrightarrow> \<exists>r s'. step s = Some (0, r, s')"
    and step_item: "ready s (x # xs) \<Longrightarrow> \<exists>c r s'. step s = Some (c, r, s') \<and> c \<noteq> 0 \<and> gives x (c, r) \<and> ready s' xs"
begin

lemma scan:
  "ready s xs \<Longrightarrow> length xs < n \<Longrightarrow> \<exists>rs. collect step n s = Some rs \<and> list_all2 gives xs rs"
proof (induction n arbitrary: s xs)
  case 0
  then show ?case by simp
next
  case (Suc n)
  show ?case
  proof (cases xs)
    case Nil
    with step_end [of s] Suc.prems show ?thesis by auto
  next
    case (Cons x xs')
    with step_item [of s x xs'] Suc.prems obtain c r s' where
      st: "step s = Some (c, r, s')" "c \<noteq> 0" "gives x (c, r)" "ready s' xs'" by auto
    with Suc.IH [of s' xs'] Suc.prems Cons show ?thesis by auto
  qed
qed

text \<open>When each item determines its result, the scan gives the results of the items.\<close>

lemma scan_map:
  assumes "ready s xs" "length xs < n" and "\<And>x y. gives x y \<Longrightarrow> y = f x"
  shows "collect step n s = Some (map f xs)"
proof -
  from scan [OF assms(1,2)] obtain rs where rs: "collect step n s = Some rs" "list_all2 gives xs rs" by blast
  from rs(2) have "rs = map f xs" by induction (simp_all add: assms(3))
  with rs(1) show ?thesis by simp
qed

end

end
