(* ===== verification/Cursor.thy ===== *)
theory Cursor
  imports Table Scan
begin

text \<open>
  The table cursors of \<open>opendal/src/table.rs\<close>: opening one by \<open>stat\<close>, by listing and by glob, and
  stepping it.  A step loops until a row passes the filters, and a lister may yield entries
  forever, so the step is a partial function: \<open>None\<close> is a step that does not return.
\<close>

section \<open>Definitions\<close>

datatype cursor_source = One "(string \<times> metadata) option" | ListSource nat

record od_table_cursor =
  tc_source :: cursor_source
  tc_glob :: "string option"
  tc_self_path :: "string option"
  tc_current :: "owned_row option"

definition stat_checks :: "od_operator \<Rightarrow> stat_opts \<Rightarrow> guard_result list" where
  "stat_checks op o1 =
     [require_option (od_scheme op) (so_version o1 \<noteq> None) (cap_stat_with_version (od_cap op)) ''stat_with_version'',
      require_option (od_scheme op) (so_if_match o1 \<noteq> None) (cap_stat_with_if_match (od_cap op)) ''stat_with_if_match'',
      require_option (od_scheme op) (so_if_none_match o1 \<noteq> None) (cap_stat_with_if_none_match (od_cap op))
        ''stat_with_if_none_match'',
      require_option (od_scheme op) (so_if_modified_since o1 \<noteq> None) (cap_stat_with_if_modified_since (od_cap op))
        ''stat_with_if_modified_since'',
      require_option (od_scheme op) (so_if_unmodified_since o1 \<noteq> None) (cap_stat_with_if_unmodified_since (od_cap op))
        ''stat_with_if_unmodified_since'']"

definition od_table_stat_open_body ::
  "env \<Rightarrow> od_operator ptr \<Rightarrow> c_str \<Rightarrow> od_stat_options \<Rightarrow> err_slot \<Rightarrow> history
     \<Rightarrow> od_table_cursor option outcome \<times> err_slot \<times> history" where
  "od_table_stat_open_body E p path raw err h =
     (case p of Null \<Rightarrow> leave err None h CodeInvalidInput ''null operator''
      | Ptr _ op \<Rightarrow>
          decode_or_leave path ''path is null or not UTF-8'' err None h (\<lambda>s.
          check_guard (require (od_scheme op) (cap_stat (od_cap op)) ''stat'') err None h
          (value_or_leave (stat_options E raw) err None h (\<lambda>o1.
          check_guard (first_failure (stat_checks op o1)) err None h
          (await_or_leave (invoke (on_metadata E) (Stat (od_op op) s o1) h) err None (\<lambda>h1. h1)
            (\<lambda>m h1. (Ret (Some \<lparr>tc_source = One (Some (s, m)), tc_glob = None, tc_self_path = None,
                        tc_current = None\<rparr>), set_ok err, h1)))))))"

definition od_table_stat_open ::
  "env \<Rightarrow> od_operator ptr \<Rightarrow> c_str \<Rightarrow> od_stat_options \<Rightarrow> err_slot \<Rightarrow> history
     \<Rightarrow> od_table_cursor option \<times> err_slot \<times> history" where
  "od_table_stat_open E p path raw err h =
     ffi_guard ''od_table_stat_open'' None (od_table_stat_open_body E p path raw err h)"

definition list_checks :: "od_operator \<Rightarrow> list_opts \<Rightarrow> guard_result list" where
  "list_checks op o1 =
     [require_option (od_scheme op) (lo_start_after o1 \<noteq> None) (cap_list_with_start_after (od_cap op))
        ''list_with_start_after'',
      require_option (od_scheme op) (lo_versions o1) (cap_list_with_versions (od_cap op)) ''list_with_versions'',
      require_option (od_scheme op) (lo_deleted o1) (cap_list_with_deleted (od_cap op)) ''list_with_deleted'']"

definition od_table_list_open_body ::
  "env \<Rightarrow> od_operator ptr \<Rightarrow> c_str \<Rightarrow> c_str \<Rightarrow> od_list_options \<Rightarrow> err_slot \<Rightarrow> history
     \<Rightarrow> od_table_cursor option outcome \<times> err_slot \<times> history" where
  "od_table_list_open_body E p path glob raw err h =
     (case p of Null \<Rightarrow> leave err None h CodeInvalidInput ''null operator''
      | Ptr _ op \<Rightarrow>
          decode_or_leave path ''path is null or not UTF-8'' err None h (\<lambda>s.
          value_or_leave (optional_cstr glob ''glob'') err None h (\<lambda>g.
          check_guard (require (od_scheme op) (cap_list (od_cap op)) ''list'') err None h
          (value_or_leave (list_options raw) err None h (\<lambda>o1.
          check_guard (first_failure (list_checks op o1)) err None h
          (await_or_leave (invoke (on_handle E) (ListerOptions (od_op op) s o1) h) err None (\<lambda>h1. h1)
            (\<lambda>n h1. (Ret (Some \<lparr>tc_source = ListSource n, tc_glob = g,
                        tc_self_path = Some (trim_char CHR ''/'' s), tc_current = None\<rparr>), set_ok err, h1))))))))"

definition od_table_list_open ::
  "env \<Rightarrow> od_operator ptr \<Rightarrow> c_str \<Rightarrow> c_str \<Rightarrow> od_list_options \<Rightarrow> err_slot \<Rightarrow> history
     \<Rightarrow> od_table_cursor option \<times> err_slot \<times> history" where
  "od_table_list_open E p path glob raw err h =
     ffi_guard ''od_table_list_open'' None (od_table_list_open_body E p path glob raw err h)"

definition od_table_glob_open_body ::
  "env \<Rightarrow> od_operator ptr \<Rightarrow> c_str \<Rightarrow> od_list_options \<Rightarrow> err_slot \<Rightarrow> history
     \<Rightarrow> od_table_cursor option outcome \<times> err_slot \<times> history" where
  "od_table_glob_open_body E p pattern raw err h =
     decode_or_leave pattern ''pattern is null or not UTF-8'' err None h (\<lambda>pat.
       case position is_wildcard pat of
         None \<Rightarrow> leave err None h CodeInvalidInput ''glob pattern has no wildcard''
       | Some w \<Rightarrow>
           (let list_root = (case rfind_char CHR ''/'' (take w pat) of None \<Rightarrow> []
                             | Some slash \<Rightarrow> take (slash + 1) pat);
                raw' = raw\<lparr>ol_recursive := 1\<rparr>
            in case cstring_new (trim_start_char CHR ''/'' pat) of
                 None \<Rightarrow> leave err None h CodeInvalidInput ''glob pattern contains a NUL byte''
               | Some pat' \<Rightarrow>
                   (case cstring_new list_root of None \<Rightarrow> (Panic, err, h)
                    | Some root' \<Rightarrow>
                        (let (c, e, h1) = od_table_list_open E p (Some root') (Some pat') raw' err h
                         in (Ret c, e, h1)))))"

definition od_table_glob_open ::
  "env \<Rightarrow> od_operator ptr \<Rightarrow> c_str \<Rightarrow> od_list_options \<Rightarrow> err_slot \<Rightarrow> history
     \<Rightarrow> od_table_cursor option \<times> err_slot \<times> history" where
  "od_table_glob_open E p pattern raw err h =
     ffi_guard ''od_table_glob_open'' None (od_table_glob_open_body E p pattern raw err h)"

text \<open>Fetching one row from the source; a single row is taken out of its slot.\<close>

datatype fetched = NoMore | Fetched "owned_row parsed" | Failed oerror | Unwound

definition fetch :: "env \<Rightarrow> cursor_source \<Rightarrow> history \<Rightarrow> fetched \<times> cursor_source \<times> history" where
  "fetch E src h =
     (case src of
        One None \<Rightarrow> (NoMore, One None, h)
      | One (Some (path, m)) \<Rightarrow> (Fetched (owned_from_parts E path m), One None, h)
      | ListSource n \<Rightarrow>
          (case invoke (on_entry E) (ListerNext n) h of
             (ROk None, h1) \<Rightarrow> (NoMore, src, h1)
           | (ROk (Some x), h1) \<Rightarrow> (Fetched (owned_new E x), src, h1)
           | (RErr e, h1) \<Rightarrow> (Failed e, src, h1)
           | (RPanic, h1) \<Rightarrow> (Unwound, src, h1)))"

text \<open>The listed directory itself, with or without its closing slash.\<close>

definition is_self :: "string option \<Rightarrow> string \<Rightarrow> bool" where
  "is_self self_path path \<longleftrightarrow>
     (case self_path of None \<Rightarrow> False | Some s \<Rightarrow> path = s \<or> strip_suffix ''/'' path = Some s)"

definition glob_rejects :: "string option \<Rightarrow> string \<Rightarrow> bool" where
  "glob_rejects glob path \<longleftrightarrow> (case glob of None \<Rightarrow> False | Some g \<Rightarrow> \<not> glob_matches g path)"

type_synonym step_result = "int outcome \<times> err_slot \<times> od_entry_row option \<times> od_table_cursor \<times> history"

partial_function (option) cursor_loop ::
  "env \<Rightarrow> od_table_cursor \<Rightarrow> err_slot \<Rightarrow> history \<Rightarrow> step_result option" where
  "cursor_loop E c err h =
     (case fetch E (tc_source c) h of (f, src, h1) \<Rightarrow>
        (case f of
           Failed e \<Rightarrow> Some (Ret (- 1), set_opendal_error err e, None, c\<lparr>tc_source := src\<rparr>, h1)
         | Unwound \<Rightarrow> Some (Panic, err, None, c\<lparr>tc_source := src\<rparr>, h1)
         | NoMore \<Rightarrow> Some (Ret 0, set_ok err, None, c\<lparr>tc_source := src\<rparr>, h1)
         | Fetched r \<Rightarrow>
             (case r of
                Inl message \<Rightarrow>
                  Some (Ret (- 1), set_error err CodeUnexpected message, None, c\<lparr>tc_source := src\<rparr>, h1)
              | Inr row \<Rightarrow>
                  if is_self (tc_self_path c) (ow_path row) then cursor_loop E (c\<lparr>tc_source := src\<rparr>) err h1
                  else if glob_rejects (tc_glob c) (ow_path row) then cursor_loop E (c\<lparr>tc_source := src\<rparr>) err h1
                  else Some (Ret 1, set_ok err, Some (borrowed row),
                        c\<lparr>tc_source := src, tc_current := Some row\<rparr>, h1))))"

definition od_table_cursor_next ::
  "env \<Rightarrow> od_table_cursor ptr \<Rightarrow> od_entry_row option \<Rightarrow> err_slot \<Rightarrow> history
     \<Rightarrow> (int \<times> err_slot \<times> od_entry_row option \<times> od_table_cursor ptr \<times> history) option" where
  "od_table_cursor_next E p out err h =
     map_option (ffi_guard ''od_table_cursor_next'' (- 1))
       (case (p, out) of
          (Ptr a c, Some old) \<Rightarrow>
            map_option (\<lambda>(r, e, row, c', h').
                (r, e, Some (case row of Some x \<Rightarrow> x | None \<Rightarrow> old), Ptr a c', h')) (cursor_loop E c err h)
        | _ \<Rightarrow> Some (leave err (- 1) (out, p, h) CodeInvalidInput ''null cursor or row output''))"

lemma is_self_iff: "is_self (Some self) path \<longleftrightarrow> path \<in> {self, self @ ''/''}"
  by (auto simp: is_self_def strip_suffix_def suffix_def)

section \<open>Contracts\<close>

lemma guard_ok_stat_checks [body_intro]: "guard_ok (first_failure (stat_checks op o1))"
  by (rule guard_ok_first_failure) (auto simp: stat_checks_def guard_ok_require_option)

lemma guard_ok_list_checks [body_intro]: "guard_ok (first_failure (list_checks op o1))"
  by (rule guard_ok_first_failure) (auto simp: list_checks_def guard_ok_require_option)

interpretation table_stat_open: ffi_entry "\<lambda>(E, p, path, raw, h) err. od_table_stat_open_body E p path raw err h" None
  by (rule ffi_entry_intro)
    (auto simp: od_table_stat_open_body_def simp del: leave_simps intro!: body_intro split: ptr.split)

interpretation table_list_open: ffi_entry
  "\<lambda>(E, p, path, glob, raw, h) err. od_table_list_open_body E p path glob raw err h" None
  by (rule ffi_entry_intro)
    (auto simp: od_table_list_open_body_def simp del: leave_simps intro!: body_intro split: ptr.split)

lemma list_open_body_ok [body_intro]:
  "body_ok err None (case od_table_list_open E p path glob raw err h of (c, x) \<Rightarrow> (Ret c, x))"
  using table_list_open.entry_contract [of err "''od_table_list_open''" "(E, p, path, glob, raw, h)"]
  by (auto simp: od_table_list_open_def body_ok_def split: prod.splits)

interpretation table_glob_open: ffi_entry "\<lambda>(E, p, pattern, raw, h) err. od_table_glob_open_body E p pattern raw err h" None
  by (rule ffi_entry_intro)
    (auto simp: od_table_glob_open_body_def Let_def simp del: leave_simps intro!: body_intro
      split: option.split)

lemma cursor_loop_body_ok: "cursor_loop E c err h = Some res \<Longrightarrow> body_ok err (- 1) res"
proof (rule cursor_loop.raw_induct [where P = "\<lambda>E c err h res. body_ok err (- 1) res"])
  fix loop E c err h and res :: step_result
  assume IH: "\<And>E c err h res. loop E c err h = Some res \<Longrightarrow> body_ok err (- 1) res"
    and eq: "(case fetch E (tc_source c) h of (f, src, h1) \<Rightarrow>
        (case f of
           Failed e \<Rightarrow> Some (Ret (- 1), set_opendal_error err e, None, c\<lparr>tc_source := src\<rparr>, h1)
         | Unwound \<Rightarrow> Some (Panic, err, None, c\<lparr>tc_source := src\<rparr>, h1)
         | NoMore \<Rightarrow> Some (Ret 0, set_ok err, None, c\<lparr>tc_source := src\<rparr>, h1)
         | Fetched r \<Rightarrow>
             (case r of
                Inl message \<Rightarrow>
                  Some (Ret (- 1), set_error err CodeUnexpected message, None, c\<lparr>tc_source := src\<rparr>, h1)
              | Inr row \<Rightarrow>
                  if is_self (tc_self_path c) (ow_path row) then loop E (c\<lparr>tc_source := src\<rparr>) err h1
                  else if glob_rejects (tc_glob c) (ow_path row) then loop E (c\<lparr>tc_source := src\<rparr>) err h1
                  else Some (Ret 1, set_ok err, Some (borrowed row),
                        c\<lparr>tc_source := src, tc_current := Some row\<rparr>, h1)))) = Some res"
  then show "body_ok err (- 1) res"
    by (auto split: prod.splits fetched.splits sum.splits if_splits intro!: body_intro elim: IH)
qed

lemma cursor_next_reports:
  assumes "od_table_cursor_next E p out err h = Some (v, e, x)"
  shows "reports err (v = - 1) e"
proof -
  from assms obtain res where "ffi_guard ''od_table_cursor_next'' (- 1) res = (v, e, x)" "body_ok err (- 1) res"
    by (auto simp: od_table_cursor_next_def body_ok_error dest!: cursor_loop_body_ok split: ptr.splits option.splits)
      (auto simp: body_ok_def split: outcome.splits)
  from guard_reports [OF this(2,1)] show ?thesis .
qed

section \<open>Scanning a finite listing\<close>

text \<open>A lister that, after a history, yields the given entries, one per call, then ends.\<close>

abbreviation pulls :: "nat \<Rightarrow> nat \<Rightarrow> history" where
  "pulls n k \<equiv> replicate k (ListerNext n)"

definition lister_yields :: "env \<Rightarrow> nat \<Rightarrow> history \<Rightarrow> entry list \<Rightarrow> bool" where
  "lister_yields E n h0 es \<longleftrightarrow>
     (\<forall>k. on_entry E (h0 @ pulls n (Suc k)) = ROk (if k < length es then Some (es ! k) else None))"

lemma pulls_snoc: "pulls n k @ [ListerNext n] = pulls n (Suc k)"
  by (simp add: replicate_append_same)

text \<open>Whether a cursor shows an entry, and the rows it shows of a listing.\<close>

definition shows_path :: "od_table_cursor \<Rightarrow> string \<Rightarrow> bool" where
  "shows_path c path \<longleftrightarrow> \<not> is_self (tc_self_path c) path \<and> \<not> glob_rejects (tc_glob c) path"

definition row_of :: "env \<Rightarrow> entry \<Rightarrow> owned_row" where
  "row_of E x = (case owned_new E x of Inr r \<Rightarrow> r | Inl _ \<Rightarrow> undefined)"

definition representable :: "env \<Rightarrow> entry \<Rightarrow> bool" where
  "representable E x \<longleftrightarrow> (\<exists>r. owned_new E x = Inr r)"

definition shown :: "od_table_cursor \<Rightarrow> entry list \<Rightarrow> entry list" where
  "shown c es = filter (\<lambda>x. shows_path c (fst x)) es"

lemma row_of_representable: "representable E x \<Longrightarrow> owned_new E x = Inr (row_of E x) \<and> ow_path (row_of E x) = fst x"
  by (auto simp: representable_def row_of_def owned_new_def dest: owned_from_parts_path)

lemma fetch_list:
  assumes "lister_yields E n h0 es"
  shows "fetch E (ListSource n) (h0 @ pulls n k) =
    (if k < length es then Fetched (owned_new E (es ! k)) else NoMore, ListSource n, h0 @ pulls n (Suc k))"
proof -
  have "on_entry E ((h0 @ pulls n k) @ [ListerNext n]) = ROk (if k < length es then Some (es ! k) else None)"
    using assms by (simp add: lister_yields_def pulls_snoc)
  then show ?thesis by (simp add: fetch_def invoke_def pulls_snoc)
qed

lemma shows_path_update [simp]:
  "shows_path (c\<lparr>tc_source := src\<rparr>) = shows_path c" "shows_path (c\<lparr>tc_current := r\<rparr>) = shows_path c"
  by (simp_all add: shows_path_def fun_eq_iff)

lemma shown_update [simp]:
  "shown (c\<lparr>tc_source := src\<rparr>) es = shown c es" "shown (c\<lparr>tc_current := r\<rparr>) es = shown c es"
  by (simp_all add: shown_def)

text \<open>One step of the loop on a listing: it stops at the first entry shown, or at the end.\<close>

lemma cursor_loop_list:
  assumes "lister_yields E n h0 es" "list_all (representable E) es" "tc_source c = ListSource n"
  shows "\<exists>j. k \<le> j \<and>
     cursor_loop E c err (h0 @ pulls n k) =
       (case shown c (drop k es) of
          [] \<Rightarrow> Some (Ret 0, set_ok err, None, c, h0 @ pulls n (Suc j))
        | x # _ \<Rightarrow> Some (Ret 1, set_ok err, Some (borrowed (row_of E x)), c\<lparr>tc_current := Some (row_of E x)\<rparr>,
                        h0 @ pulls n (Suc j)))
     \<and> shown c (drop (Suc j) es) = tl (shown c (drop k es))"
proof (induction "length es - k" arbitrary: k)
  case 0
  then have "\<not> k < length es" by simp
  then show ?case
    using assms(3) fetch_list [OF assms(1), of k]
    by (intro exI [of _ k]) (subst cursor_loop.simps, simp add: shown_def)
next
  case (Suc m)
  from Suc.hyps(2) have lt: "k < length es" by simp
  then have d: "drop k es = es ! k # drop (Suc k) es" by (rule Cons_nth_drop_Suc [symmetric])
  have rep: "owned_new E (es ! k) = Inr (row_of E (es ! k))" "ow_path (row_of E (es ! k)) = fst (es ! k)"
    using assms(2) lt row_of_representable [of E "es ! k"] by (simp_all add: list_all_length)
  have upd: "c\<lparr>tc_source := ListSource n\<rparr> = c" using assms(3) by simp
  show ?case
  proof (cases "shows_path c (fst (es ! k))")
    case True
    then have "cursor_loop E c err (h0 @ pulls n k) =
        Some (Ret 1, set_ok err, Some (borrowed (row_of E (es ! k))), c\<lparr>tc_current := Some (row_of E (es ! k))\<rparr>,
          h0 @ pulls n (Suc k))"
      using assms(3) fetch_list [OF assms(1), of k] lt rep
      by (subst cursor_loop.simps) (simp add: shows_path_def)
    with True show ?thesis
      by (intro exI [of _ k]) (simp add: d shown_def)
  next
    case False
    then have "cursor_loop E c err (h0 @ pulls n k) = cursor_loop E c err (h0 @ pulls n (Suc k))"
      using assms(3) fetch_list [OF assms(1), of k] lt rep
      by (subst cursor_loop.simps) (auto simp: shows_path_def upd simp del: replicate.simps)
    moreover have "m = length es - Suc k" using Suc.hyps(2) by simp
    from Suc.hyps(1) [OF this] obtain j where "Suc k \<le> j"
      "cursor_loop E c err (h0 @ pulls n (Suc k)) =
       (case shown c (drop (Suc k) es) of
          [] \<Rightarrow> Some (Ret 0, set_ok err, None, c, h0 @ pulls n (Suc j))
        | x # _ \<Rightarrow> Some (Ret 1, set_ok err, Some (borrowed (row_of E x)), c\<lparr>tc_current := Some (row_of E x)\<rparr>,
                        h0 @ pulls n (Suc j)))"
      "shown c (drop (Suc j) es) = tl (shown c (drop (Suc k) es))" by blast
    moreover have "shown c (drop k es) = shown c (drop (Suc k) es)"
      using False by (simp add: d shown_def)
    ultimately show ?thesis by (intro exI [of _ j]) simp
  qed
qed

text \<open>The client's step, and when a cursor over a finite listing is ready to give certain rows.\<close>

definition table_step ::
  "env \<times> err_slot \<times> od_table_cursor ptr \<times> od_entry_row \<times> history
     \<Rightarrow> (int \<times> od_entry_row \<times> env \<times> err_slot \<times> od_table_cursor ptr \<times> od_entry_row \<times> history) option" where
  "table_step = (\<lambda>(E, err, p, old, h).
     case od_table_cursor_next E p (Some old) err h of
       Some (c, _, Some row, p', h') \<Rightarrow> Some (c, row, E, err, p', row, h')
     | _ \<Rightarrow> None)"

definition table_ready ::
  "env \<times> err_slot \<times> od_table_cursor ptr \<times> od_entry_row \<times> history \<Rightarrow> od_entry_row list \<Rightarrow> bool" where
  "table_ready = (\<lambda>(E, err, p, old, h) rows. \<exists>a c n h0 k es. p = Ptr a c \<and> tc_source c = ListSource n
     \<and> h = h0 @ pulls n k \<and> lister_yields E n h0 es
     \<and> list_all (representable E) es \<and> rows = map (\<lambda>x. borrowed (row_of E x)) (shown c (drop k es)))"

definition table_row :: "od_entry_row \<Rightarrow> int \<times> od_entry_row \<Rightarrow> bool" where
  "table_row row y \<longleftrightarrow> y = (1, row)"

interpretation table_scan: row_cursor table_step table_ready table_row
proof
  fix s
  assume "table_ready s []"
  then obtain E err a c old n h0 k es where s: "s = (E, err, Ptr a c, old, h0 @ pulls n k)"
    and c: "tc_source c = ListSource n" "lister_yields E n h0 es" "list_all (representable E) es" "shown c (drop k es) = []"
    by (cases s) (auto simp: table_ready_def)
  from cursor_loop_list [OF c(2,3,1), of k err] c(4) obtain h' where
    "cursor_loop E c err (h0 @ pulls n k) = Some (Ret 0, set_ok err, None, c, h')" by auto
  then show "\<exists>r s'. table_step s = Some (0, r, s')"
    by (simp add: s table_step_def od_table_cursor_next_def ffi_guard_def)
next
  fix s row rows
  assume "table_ready s (row # rows)"
  then obtain E err a c old n h0 k es x xs where s: "s = (E, err, Ptr a c, old, h0 @ pulls n k)"
    and c: "tc_source c = ListSource n" "lister_yields E n h0 es" "list_all (representable E) es"
      "shown c (drop k es) = x # xs" "row = borrowed (row_of E x)" "rows = map (\<lambda>x. borrowed (row_of E x)) xs"
    by (cases s) (auto simp: table_ready_def Cons_eq_map_conv)
  from cursor_loop_list [OF c(2,3,1), of k err] c(4) obtain j where
    loop: "cursor_loop E c err (h0 @ pulls n k) =
      Some (Ret 1, set_ok err, Some row, c\<lparr>tc_current := Some (row_of E x)\<rparr>, h0 @ pulls n (Suc j))"
    and rest: "shown c (drop (Suc j) es) = xs" by (auto simp: c(5))
  have "table_ready (E, err, Ptr a (c\<lparr>tc_current := Some (row_of E x)\<rparr>), row, h0 @ pulls n (Suc j)) rows"
    unfolding table_ready_def using c rest
    by (auto simp del: replicate.simps intro!: exI [of _ n] exI [of _ h0] exI [of _ "Suc j"] exI [of _ es])
  with loop show "\<exists>c r s'. table_step s = Some (c, r, s') \<and> c \<noteq> 0 \<and> table_row row (c, r) \<and> table_ready s' rows"
    by (simp add: s table_step_def od_table_cursor_next_def ffi_guard_def table_row_def del: replicate.simps)
qed

lemma scan_list:
  assumes "lister_yields E n h es" "list_all (representable E) es" "tc_source c = ListSource n"
    and "length (shown c es) < steps"
  shows "collect table_step steps (E, err, Ptr a c, old, h) = Some (map (\<lambda>x. (1, borrowed (row_of E x))) (shown c es))"
proof -
  have "table_ready (E, err, Ptr a c, old, h) (map (\<lambda>x. borrowed (row_of E x)) (shown c es))"
    using assms by (auto simp: table_ready_def intro!: exI [of _ n] exI [of _ h] exI [of _ "0::nat"] exI [of _ es])
  from table_scan.scan_map [OF this, of steps "Pair 1"] assms(4) show ?thesis by (simp add: table_row_def o_def)
qed

section \<open>What opening gives\<close>

lemma list_open_Some:
  assumes "od_table_list_open E p path glob raw err h = (Some c, e, h')"
  obtains a op s g o1 n where "p = Ptr a op" "cstr path = Some s" "optional_cstr glob ''glob'' = Inr g"
    "list_options raw = Inr o1" "cap_list (od_cap op)" "list_all (\<lambda>g. g = Inr ()) (list_checks op o1)"
    "h' = h @ [ListerOptions (od_op op) s o1]" "on_handle E h' = ROk n" "e = set_ok err"
    "c = \<lparr>tc_source = ListSource n, tc_glob = g, tc_self_path = Some (trim_char CHR ''/'' s), tc_current = None\<rparr>"
  using assms
  by (auto simp: od_table_list_open_def od_table_list_open_body_def ffi_guard_def decode_or_leave_def value_or_leave_def
      check_guard_def await_or_leave_def invoke_def first_failure_Inr_iff list_all_iff require_Inr_iff
      split: ptr.splits option.splits sum.splits reply.splits)

lemma stat_open_Some:
  assumes "od_table_stat_open E p path raw err h = (Some c, e, h')"
  obtains a op s o1 m where "p = Ptr a op" "cstr path = Some s" "stat_options E raw = Inr o1"
    "cap_stat (od_cap op)" "list_all (\<lambda>g. g = Inr ()) (stat_checks op o1)"
    "h' = h @ [Stat (od_op op) s o1]" "on_metadata E h' = ROk m" "e = set_ok err"
    "c = \<lparr>tc_source = One (Some (s, m)), tc_glob = None, tc_self_path = None, tc_current = None\<rparr>"
  using assms
  by (auto simp: od_table_stat_open_def od_table_stat_open_body_def ffi_guard_def decode_or_leave_def value_or_leave_def
      check_guard_def await_or_leave_def invoke_def first_failure_Inr_iff list_all_iff require_Inr_iff
      split: ptr.splits option.splits sum.splits reply.splits)

lemma glob_open_root:
  assumes "cstr pattern = Some pat" "has_glob pat" "nul_free pat"
  shows "od_table_glob_open E p pattern raw err h =
    od_table_list_open E p (Some (glob_root pat)) (Some (trim_start_char CHR ''/'' pat)) (raw\<lparr>ol_recursive := 1\<rparr>) err h"
proof -
  obtain w where w: "position is_wildcard pat = Some w" using assms(2) by (auto simp: has_glob_iff)
  have root: "(case rfind_char CHR ''/'' (take w pat) of None \<Rightarrow> [] | Some slash \<Rightarrow> take (slash + 1) pat) = glob_root pat"
    by (simp add: glob_root_def w)
  have "nul_free (glob_root pat)"
    using assms(3) glob_root_split [of pat] by (metis nul_free_simps(3))
  moreover have "nul_free (trim_start_char CHR ''/'' pat)"
    using assms(3) trim_start_char_eq [of pat "CHR ''/''"] by (metis nul_free_simps(3))
  ultimately show ?thesis
    using assms(1) w root
    by (simp add: od_table_glob_open_def od_table_glob_open_body_def decode_or_leave_def cstring_new_def Let_def
        ffi_guard_def split: prod.split)
qed

section \<open>A finite service\<close>

definition pulled :: "nat \<Rightarrow> history \<Rightarrow> nat" where
  "pulled n h = length (filter (\<lambda>c. c = ListerNext n) h)"

definition listing_env :: "entry list \<Rightarrow> env" where
  "listing_env es = calm_env\<lparr>on_handle := \<lambda>_. ROk 0, on_entry := \<lambda>h.
     ROk (if pulled 0 (butlast h) < length es then Some (es ! pulled 0 (butlast h)) else None)\<rparr>"

lemma listing_env_simps [simp]:
  "on_handle (listing_env es) h = ROk 0" "on_metadata (listing_env es) h = ROk plain_file"
  "get_basename (listing_env es) s = s"
  by (simp_all add: listing_env_def) (simp add: calm_env_def)

lemma listing_env_yields: "pulled 0 h = 0 \<Longrightarrow> lister_yields (listing_env es) 0 h es"
proof -
  assume "pulled 0 h = 0"
  moreover have "butlast (h @ pulls 0 (Suc k)) = h @ pulls 0 k" for k
    by (metis append_assoc butlast_snoc pulls_snoc)
  ultimately show ?thesis by (simp add: listing_env_def lister_yields_def pulled_def del: replicate.simps)
qed

lemma plain_representable: "nul_free s \<Longrightarrow> representable (listing_env es) (s, plain_file)"
  by (simp add: representable_def owned_new_def owned_from_parts_def sorted_user_metadata_def plain_file_def
      cstring_def cstring_new_def optional_string_def)

lemma listing_row_path [simp]: "nul_free s \<Longrightarrow> er_path (borrowed (row_of (listing_env es) (s, plain_file))) = Some s"
  using row_of_representable [OF plain_representable [of s es]] by (simp add: borrowed_def)

definition full_operator :: od_operator where
  "full_operator = \<lparr>od_op = \<lparr>service = 0, layers = []\<rparr>, od_scheme = ''memory'', od_io = default_io,
     od_cap = \<lparr>cap_stat = True, cap_stat_with_version = True, cap_stat_with_if_match = True,
       cap_stat_with_if_none_match = True, cap_stat_with_if_modified_since = True,
       cap_stat_with_if_unmodified_since = True, cap_read = True, cap_read_with_version = True,
       cap_write = True, cap_write_with_if_not_exists = True, cap_write_with_if_match = True,
       cap_create_dir = True, cap_delete = True, cap_copy = True, cap_copy_with_if_not_exists = True,
       cap_copy_with_if_match = True, cap_copy_with_source_version = True, cap_rename = True, cap_list = True,
       cap_list_with_start_after = True, cap_list_with_versions = True, cap_list_with_deleted = True\<rparr>,
     od_info_root = ''/'', od_warning = None\<rparr>"

definition plain_list_options :: od_list_options where
  "plain_list_options = \<lparr>ol_start_after = None, ol_recursive = 0, ol_versions = 0, ol_deleted = 0\<rparr>"

lemma list_open_full:
  assumes "utf8_valid path" "case glob of None \<Rightarrow> True | Some g \<Rightarrow> utf8_valid g"
  shows "\<exists>o1. od_table_list_open (listing_env es) (Ptr b full_operator) (Some path) glob
       (plain_list_options\<lparr>ol_recursive := r\<rparr>) err [] =
     (Some \<lparr>tc_source = ListSource 0, tc_glob = glob, tc_self_path = Some (trim_char CHR ''/'' path), tc_current = None\<rparr>,
      set_ok err, [ListerOptions (od_op full_operator) path o1])"
  using assms
  by (auto simp: od_table_list_open_def od_table_list_open_body_def ffi_guard_def decode_or_leave_def cstr_def
      optional_cstr_def require_def full_operator_def list_options_def plain_list_options_def list_checks_def
      require_option_def invoke_def split: option.splits)

section \<open>Properties\<close>

text \<open>
  A list scan is complete, sound and in order: stepping the cursor of a listing that ends
  returns every time and gives exactly the listed entries that are not the listed directory
  itself and match the glob, once each, in the service's order.
\<close>

lemma table_list_scan:
  assumes "od_table_list_open E p (Some path) glob raw err h = (Some c, e, h')"
    and "tc_source c = ListSource n" "lister_yields E n h' es" "list_all (representable E) es"
  shows "collect table_step (Suc (length es)) (E, slot, Ptr a c, old, h') =
    Some (map (\<lambda>x. (1, borrowed (row_of E x)))
      (filter (\<lambda>x. fst x \<notin> {trim_char CHR ''/'' path, trim_char CHR ''/'' path @ ''/''}
          \<and> (case glob of None \<Rightarrow> True | Some g \<Rightarrow> glob_matches g (fst x))) es))"
proof -
  from assms(1) obtain g where c: "tc_glob c = g" "tc_self_path c = Some (trim_char CHR ''/'' path)"
    and g: "optional_cstr glob ''glob'' = Inr g"
    by (elim list_open_Some) (auto simp: cstr_def split: if_splits)
  have "g = glob" using g by (auto simp: optional_cstr_def cstr_def split: option.splits if_splits)
  then have "shown c es = filter (\<lambda>x. fst x \<notin> {trim_char CHR ''/'' path, trim_char CHR ''/'' path @ ''/''}
      \<and> (case glob of None \<Rightarrow> True | Some g \<Rightarrow> glob_matches g (fst x))) es"
    using c unfolding shown_def shows_path_def glob_rejects_def is_self_iff [symmetric]
    by (intro filter_cong) (auto split: option.splits)
  moreover have "length (shown c es) < Suc (length es)"
    by (simp add: shown_def less_Suc_eq_le)
  ultimately show ?thesis
    using scan_list [OF assms(3,4,2), of "Suc (length es)" slot a old] by simp
qed

text \<open>
  A glob scan finds exactly the matching keys: when the recursive listing of the pattern's
  root yields every key under it, the rows are the keys that match the pattern (less its leading
  slashes), wherever they are in the store, except a marker of the root itself.
\<close>

lemma glob_scan_complete:
  assumes "od_table_glob_open E p (Some pat) raw err h = (Some c, e, h')"
    and "nul_free pat" "tc_source c = ListSource n"
    and "lister_yields E n h' (filter (\<lambda>x. prefix (trim_start_char CHR ''/'' (glob_root pat)) (fst x)) keys)"
    and "list_all (representable E) keys"
  shows "collect table_step (Suc (length keys)) (E, slot, Ptr a c, old, h') =
    Some (map (\<lambda>x. (1, borrowed (row_of E x)))
      (filter (\<lambda>x. glob_matches (trim_start_char CHR ''/'' pat) (fst x)
          \<and> fst x \<notin> {trim_char CHR ''/'' (glob_root pat), trim_char CHR ''/'' (glob_root pat) @ ''/''}) keys))"
proof -
  let ?es = "filter (\<lambda>x. prefix (trim_start_char CHR ''/'' (glob_root pat)) (fst x)) keys"
  have pat: "cstr (Some pat) = Some pat \<and> has_glob pat"
    using assms(1)
    by (auto simp: od_table_glob_open_def od_table_glob_open_body_def ffi_guard_def decode_or_leave_def has_glob_iff
        cstr_def split: option.splits if_splits)
  with assms(1,2) have opened: "od_table_list_open E p (Some (glob_root pat)) (Some (trim_start_char CHR ''/'' pat))
      (raw\<lparr>ol_recursive := 1\<rparr>) err h = (Some c, e, h')"
    using glob_open_root [of "Some pat" pat E p raw err h] by simp
  from opened obtain g where c: "tc_glob c = g" "tc_self_path c = Some (trim_char CHR ''/'' (glob_root pat))"
    and g: "optional_cstr (Some (trim_start_char CHR ''/'' pat)) ''glob'' = Inr g"
    by (elim list_open_Some) (auto simp: cstr_def split: if_splits)
  have "g = Some (trim_start_char CHR ''/'' pat)"
    using g by (auto simp: optional_cstr_def cstr_def split: if_splits)
  then have "shown c ?es = filter (\<lambda>x. glob_matches (trim_start_char CHR ''/'' pat) (fst x)
      \<and> fst x \<notin> {trim_char CHR ''/'' (glob_root pat), trim_char CHR ''/'' (glob_root pat) @ ''/''}) keys"
    using c glob_root_prefix unfolding shown_def shows_path_def glob_rejects_def filter_filter is_self_iff [symmetric]
    by (intro filter_cong) auto
  moreover have "length (shown c ?es) < Suc (length keys)"
    by (simp add: shown_def less_Suc_eq_le order_trans [OF length_filter_le length_filter_le])
  moreover have "list_all (representable E) ?es" using assms(5) by (auto simp: list_all_iff)
  ultimately show ?thesis
    using scan_list [OF assms(4) _ assms(3), of "Suc (length keys)" slot a old] by simp
qed



end
