(* ===== verification/Du.thy ===== *)
theory Du
  imports Cursor
begin

text \<open>
  Disk usage (\<open>opendal/src/table.rs\<close>, \<open>od_table_du_open\<close> and \<open>od_du_cursor_next\<close>): the files
  under a target, rolled up by parent directory into an ordered map with checked sums, and a
  cursor over the rows of that map.
\<close>

section \<open>Definitions\<close>

record od_du_row =
  du_directory :: c_str
  du_file_count :: u64
  du_total_size :: u64

record owned_du_row =
  dr_directory :: string
  dr_file_count :: u64
  dr_total_size :: u64

record od_du_cursor =
  dc_rows :: "owned_du_row list"
  dc_current :: "owned_du_row option"

text \<open>The entries to add up: a glob's matches, a single file, or everything under a directory.\<close>

definition du_entries ::
  "env \<Rightarrow> od_operator \<Rightarrow> string \<Rightarrow> list_opts \<Rightarrow> history \<Rightarrow> entry list reply \<times> history" where
  "du_entries E op target o1 h =
     (if has_glob target
      then (case invoke (on_entries E) (ListOptions (od_op op) (glob_root target) (o1\<lparr>lo_recursive := True\<rparr>)) h of
              (ROk es, h1) \<Rightarrow> (ROk (filter (\<lambda>x. glob_matches (trim_start_char CHR ''/'' target) (fst x)) es), h1)
            | (RErr e, h1) \<Rightarrow> (RErr e, h1)
            | (RPanic, h1) \<Rightarrow> (RPanic, h1))
      else (case invoke (on_metadata E) (Stat (od_op op) target default_stat_opts) h of
              (ROk m, h1) \<Rightarrow>
                if is_file m then (ROk [(target, m)], h1)
                else (let directory = (if suffix ''/'' target then target else target @ ''/'')
                      in invoke (on_entries E) (ListOptions (od_op op) directory (o1\<lparr>lo_recursive := True\<rparr>)) h1)
            | (RErr e, h1) \<Rightarrow> (RErr e, h1)
            | (RPanic, h1) \<Rightarrow> (RPanic, h1)))"

type_synonym du_groups = "(string \<times> u64 \<times> u64) list"

text \<open>One turn of the grouping loop; directories and other entries that are no file are skipped.\<close>

definition du_add :: "entry \<Rightarrow> du_groups \<Rightarrow> du_groups parsed" where
  "du_add x groups =
     (case x of (path, m) \<Rightarrow>
        if \<not> is_file m then Inr groups
        else (let (n, t) = (case map_of groups (parent path) of Some g \<Rightarrow> g | None \<Rightarrow> (0, 0))
              in case checked_add n 1 of
                   None \<Rightarrow> Inl ''du file count overflow''
                 | Some n' \<Rightarrow>
                     (case checked_add t (content_length m) of
                        None \<Rightarrow> Inl ''du byte count overflow''
                      | Some t' \<Rightarrow> Inr (bt_insert (parent path) (n', t') groups))))"

fun du_group :: "entry list \<Rightarrow> du_groups \<Rightarrow> du_groups parsed" where
  "du_group [] groups = Inr groups"
| "du_group (x # xs) groups = res_bind (du_add x groups) (du_group xs)"

fun du_rows :: "du_groups \<Rightarrow> owned_du_row list parsed" where
  "du_rows [] = Inr []"
| "du_rows ((directory, n, t) # groups) =
     res_bind (cstring directory ''du directory'') (\<lambda>d.
     res_bind (du_rows groups) (\<lambda>rows. Inr (\<lparr>dr_directory = d, dr_file_count = n, dr_total_size = t\<rparr> # rows)))"

definition od_table_du_open_body ::
  "env \<Rightarrow> od_operator ptr \<Rightarrow> c_str \<Rightarrow> od_list_options \<Rightarrow> err_slot \<Rightarrow> history
     \<Rightarrow> od_du_cursor option outcome \<times> err_slot \<times> history" where
  "od_table_du_open_body E p target raw err h =
     (case p of Null \<Rightarrow> leave err None h CodeInvalidInput ''null operator''
      | Ptr _ op \<Rightarrow>
          decode_or_leave target ''target is null or not UTF-8'' err None h (\<lambda>t.
          value_or_leave (list_options raw) err None h (\<lambda>o1.
          await_or_leave (du_entries E op t o1 h) err None (\<lambda>h1. h1) (\<lambda>es h1.
            case res_bind (du_group es []) du_rows of
              Inl message \<Rightarrow> leave err None h1 CodeUnexpected message
            | Inr rows \<Rightarrow> (Ret (Some \<lparr>dc_rows = rows, dc_current = None\<rparr>), set_ok err, h1)))))"

definition od_table_du_open ::
  "env \<Rightarrow> od_operator ptr \<Rightarrow> c_str \<Rightarrow> od_list_options \<Rightarrow> err_slot \<Rightarrow> history
     \<Rightarrow> od_du_cursor option \<times> err_slot \<times> history" where
  "od_table_du_open E p target raw err h =
     ffi_guard ''od_table_du_open'' None (od_table_du_open_body E p target raw err h)"

definition od_du_cursor_next_body ::
  "od_du_cursor ptr \<Rightarrow> od_du_row option \<Rightarrow> err_slot \<Rightarrow> int outcome \<times> err_slot \<times> od_du_row option \<times> od_du_cursor ptr" where
  "od_du_cursor_next_body p out err =
     (case (p, out) of
        (Ptr a c, Some _) \<Rightarrow>
          (case dc_rows c of
             [] \<Rightarrow> (Ret 0, set_ok err, out, p)
           | row # rows \<Rightarrow>
               (Ret 1, set_ok err,
                Some \<lparr>du_directory = Some (dr_directory row), du_file_count = dr_file_count row,
                  du_total_size = dr_total_size row\<rparr>,
                Ptr a (c\<lparr>dc_rows := rows, dc_current := Some row\<rparr>)))
      | _ \<Rightarrow> leave err (- 1) (out, p) CodeInvalidInput ''null du cursor or row output'')"

definition od_du_cursor_next ::
  "od_du_cursor ptr \<Rightarrow> od_du_row option \<Rightarrow> err_slot \<Rightarrow> int \<times> err_slot \<times> od_du_row option \<times> od_du_cursor ptr" where
  "od_du_cursor_next p out err = ffi_guard ''od_du_cursor_next'' (- 1) (od_du_cursor_next_body p out err)"

section \<open>Contracts\<close>

interpretation table_du_open: ffi_entry "\<lambda>(E, p, target, raw, h) err. od_table_du_open_body E p target raw err h" None
  by (rule ffi_entry_intro)
    (auto simp: od_table_du_open_body_def simp del: leave_simps intro!: body_intro split: ptr.split sum.split)

interpretation du_cursor_next: ffi_entry "\<lambda>(p, out) err. od_du_cursor_next_body p out err" "- 1"
  by (rule ffi_entry_intro)
    (auto simp: od_du_cursor_next_body_def simp del: leave_simps intro!: body_intro split: ptr.split option.split list.split)

section \<open>The roll-up as a specification\<close>

text \<open>The files directly in a directory, the directories that hold files, and a directory's size.\<close>

definition files_in :: "string \<Rightarrow> entry list \<Rightarrow> entry list" where
  "files_in d es = filter (\<lambda>x. is_file (snd x) \<and> parent (fst x) = d) es"

definition du_dirs :: "entry list \<Rightarrow> string set" where
  "du_dirs es = (\<lambda>x. parent (fst x)) ` {x \<in> set es. is_file (snd x)}"

definition du_size :: "string \<Rightarrow> entry list \<Rightarrow> nat" where
  "du_size d es = sum_list (map (\<lambda>x. unat (content_length (snd x))) (files_in d es))"

definition du_spec :: "entry list \<Rightarrow> owned_du_row list" where
  "du_spec es = map (\<lambda>d. \<lparr>dr_directory = d, dr_file_count = of_nat (length (files_in d es)),
     dr_total_size = of_nat (du_size d es)\<rparr>) (sorted_list_of_set (du_dirs es))"

definition du_fits :: "entry list \<Rightarrow> bool" where
  "du_fits es \<longleftrightarrow> (\<forall>d. length (files_in d es) < 2 ^ 64 \<and> du_size d es < 2 ^ 64)"

lemma files_in_simps [simp]:
  "files_in d [] = []"
  "files_in d (x # xs) = (if is_file (snd x) \<and> parent (fst x) = d then x # files_in d xs else files_in d xs)"
  by (simp_all add: files_in_def)

lemma du_size_simps [simp]:
  "du_size d [] = 0"
  "du_size d (x # xs) = (if is_file (snd x) \<and> parent (fst x) = d then unat (content_length (snd x)) else 0) + du_size d xs"
  by (simp_all add: du_size_def)

lemma du_dirs_simps [simp]:
  "du_dirs [] = {}"
  "du_dirs (x # xs) = (if is_file (snd x) then insert (parent (fst x)) (du_dirs xs) else du_dirs xs)"
  by (auto simp: du_dirs_def)

lemma du_dirs_iff: "d \<in> du_dirs es \<longleftrightarrow> files_in d es \<noteq> []"
  by (force simp: du_dirs_def files_in_def filter_empty_conv image_iff)

lemma finite_du_dirs [simp]: "finite (du_dirs es)"
  by (simp add: du_dirs_def)

text \<open>What the groups hold for a directory, as numbers.\<close>

definition tally :: "du_groups \<Rightarrow> string \<Rightarrow> nat \<times> nat" where
  "tally g d = (case map_of g d of None \<Rightarrow> (0, 0) | Some (n, t) \<Rightarrow> (unat n, unat t))"

lemma du_add_spec:
  assumes "bt_ok g" "du_add x g = Inr g'"
  shows "bt_ok g' \<and> (map_of g' d = None \<longleftrightarrow> map_of g d = None \<and> files_in d [x] = [])
    \<and> tally g' d = (fst (tally g d) + length (files_in d [x]), snd (tally g d) + du_size d [x])"
  using assms
  by (auto simp: du_add_def tally_def checked_add_Some_iff map_of_bt_insert bt_ok_insert split: prod.splits option.splits if_splits)

lemma du_add_total:
  assumes "fst (tally g d) + length (files_in d [x]) < 2 ^ 64" "snd (tally g d) + du_size d [x] < 2 ^ 64"
    and "d = parent (fst x)"
  shows "\<exists>g'. du_add x g = Inr g'"
  using assms
  by (auto simp: du_add_def tally_def checked_add_def split: prod.splits option.splits if_splits)

lemma du_group_spec:
  assumes "bt_ok g" "du_group es g = Inr g'"
  shows "bt_ok g' \<and> (map_of g' d = None \<longleftrightarrow> map_of g d = None \<and> files_in d es = [])
    \<and> tally g' d = (fst (tally g d) + length (files_in d es), snd (tally g d) + du_size d es)"
  using assms
proof (induction es arbitrary: g)
  case Nil
  then show ?case by simp
next
  case (Cons x es)
  then obtain g1 where g1: "du_add x g = Inr g1" "du_group es g1 = Inr g'" by (auto simp: result_iff)
  from du_add_spec [OF Cons.prems(1) g1(1), of d] Cons.IH [of g1] g1(2) show ?case
    by (auto split: if_splits)
qed

lemma du_group_total:
  assumes "bt_ok g" "\<And>d. fst (tally g d) + length (files_in d es) < 2 ^ 64 \<and> snd (tally g d) + du_size d es < 2 ^ 64"
  shows "\<exists>g'. du_group es g = Inr g'"
  using assms
proof (induction es arbitrary: g)
  case Nil
  then show ?case by simp
next
  case (Cons x es)
  have now: "fst (tally g d) + length (files_in d [x]) < 2 ^ 64" "snd (tally g d) + du_size d [x] < 2 ^ 64" for d
    using Cons.prems(2) [of d] by (auto split: if_splits)
  obtain g1 where g1: "du_add x g = Inr g1"
    using du_add_total [OF now refl] by blast
  note step = du_add_spec [OF Cons.prems(1) g1]
  have "\<exists>g'. du_group es g1 = Inr g'"
  proof (rule Cons.IH)
    show "bt_ok g1" using step by blast
  next
    fix d
    from step [of d] Cons.prems(2) [of d]
    show "fst (tally g1 d) + length (files_in d es) < 2 ^ 64 \<and> snd (tally g1 d) + du_size d es < 2 ^ 64"
      by (auto split: if_splits)
  qed
  with g1 show ?case by simp
qed

lemma du_rows_Inr_iff:
  "du_rows g = Inr rows \<longleftrightarrow> list_all (\<lambda>x. nul_free (fst x)) g
     \<and> rows = map (\<lambda>(d, n, t). \<lparr>dr_directory = d, dr_file_count = n, dr_total_size = t\<rparr>) g"
  by (induction g arbitrary: rows rule: du_rows.induct) (auto simp: result_iff)

text \<open>Grouping succeeds exactly when every sum fits, and then it is the specification.\<close>

lemma du_group_Inr:
  assumes "du_group es [] = Inr g"
  shows "du_fits es \<and> g = map (\<lambda>d. (d, of_nat (length (files_in d es)), of_nat (du_size d es))) (sorted_list_of_set (du_dirs es))"
proof -
  note spec = du_group_spec [OF bt.invar_empty assms]
  have ok: "bt_ok g" using spec by blast
  have tally: "tally g d = (length (files_in d es), du_size d es)" for d
    using spec [of d] by (simp add: tally_def)
  have "length (files_in d es) < 2 ^ 64 \<and> du_size d es < 2 ^ 64" for d
  proof -
    have "unat n < 2 ^ 64" for n :: u64 using unsigned_less [of n] by simp
    then have "fst (tally g d) < 2 ^ 64 \<and> snd (tally g d) < 2 ^ 64"
      by (simp add: tally_def split: option.split prod.split)
    then show ?thesis by (simp add: tally)
  qed
  then have fits: "du_fits es" by (simp add: du_fits_def)
  have keys: "map fst g = sorted_list_of_set (du_dirs es)"
  proof (rule sorted_distinct_set_unique)
    have "d \<in> set (map fst g) \<longleftrightarrow> d \<in> du_dirs es" for d
      using spec [of d] by (auto simp: du_dirs_iff map_of_eq_None_iff)
    then show "set (map fst g) = set (sorted_list_of_set (du_dirs es))" by auto
  qed (use ok in \<open>simp_all add: bt_ok_def strict_sorted_iff\<close>)
  have "snd x = (of_nat (length (files_in (fst x) es)), of_nat (du_size (fst x) es))" if "x \<in> set g" for x
  proof -
    from that ok have "map_of g (fst x) = Some (snd x)" by (simp add: bt_ok_def strict_sorted_iff)
    with tally [of "fst x"] show ?thesis
      by (cases "snd x") (auto simp: tally_def, (metis of_nat_unat ucast_id)+)
  qed
  then have "g = map (\<lambda>d. (d, of_nat (length (files_in d es)), of_nat (du_size d es))) (map fst g)"
    unfolding map_map by (intro map_idI [symmetric]) (auto simp: prod_eq_iff)
  with keys fits show ?thesis by simp
qed

lemma du_rows_spec:
  "res_bind (du_group es []) du_rows = Inr rows \<longleftrightarrow>
     du_fits es \<and> (\<forall>d \<in> du_dirs es. nul_free d) \<and> rows = du_spec es"
proof (cases "du_group es []")
  case (Inl m)
  have "\<not> du_fits es"
    using du_group_total [OF bt.invar_empty, of es] Inl by (auto simp: tally_def du_fits_def)
  with Inl show ?thesis by simp
next
  case (Inr g)
  with du_group_Inr [OF Inr] show ?thesis
    by (auto simp: du_rows_Inr_iff du_spec_def list_all_iff)
qed

section \<open>Draining the cursor\<close>

definition du_view :: "owned_du_row \<Rightarrow> od_du_row" where
  "du_view row = \<lparr>du_directory = Some (dr_directory row), du_file_count = dr_file_count row,
     du_total_size = dr_total_size row\<rparr>"

definition du_step ::
  "od_du_cursor ptr \<times> od_du_row \<times> err_slot \<Rightarrow> (int \<times> od_du_row \<times> od_du_cursor ptr \<times> od_du_row \<times> err_slot) option" where
  "du_step = (\<lambda>(p, old, err).
     case od_du_cursor_next p (Some old) err of (c, _, Some row, p') \<Rightarrow> Some (c, row, p', row, err) | _ \<Rightarrow> None)"

definition du_ready :: "od_du_cursor ptr \<times> od_du_row \<times> err_slot \<Rightarrow> owned_du_row list \<Rightarrow> bool" where
  "du_ready = (\<lambda>(p, old, err) rows. \<exists>a c. p = Ptr a c \<and> rows = dc_rows c)"

interpretation du_scan: row_cursor du_step du_ready "\<lambda>row y. y = (1, du_view row)"
proof
  fix s
  assume "du_ready s []"
  then show "\<exists>r s'. du_step s = Some (0, r, s')"
    by (cases s) (auto simp: du_ready_def du_step_def od_du_cursor_next_def od_du_cursor_next_body_def ffi_guard_def)
next
  fix s row rows
  assume "du_ready s (row # rows)"
  then obtain a c old err where s: "s = (Ptr a c, old, err)" "dc_rows c = row # rows"
    by (cases s) (auto simp: du_ready_def)
  then have "du_step s = Some (1, du_view row, Ptr a (c\<lparr>dc_rows := rows, dc_current := Some row\<rparr>), du_view row, err)"
    by (simp add: du_step_def od_du_cursor_next_def od_du_cursor_next_body_def ffi_guard_def du_view_def)
  then show "\<exists>c r s'. du_step s = Some (c, r, s') \<and> c \<noteq> 0 \<and> (c, r) = (1, du_view row) \<and> du_ready s' rows"
    by (auto simp: du_ready_def)
qed

lemma du_scan_rows:
  assumes "length (dc_rows c) < steps"
  shows "collect du_step steps (Ptr a c, old, err) = Some (map (\<lambda>row. (1, du_view row)) (dc_rows c))"
  using assms by (intro du_scan.scan_map) (auto simp: du_ready_def)

lemma du_open_cases:
  assumes "du_entries E op t o1 h = (ROk es, h')" "list_options raw = Inr o1" "utf8_valid t"
  shows "od_table_du_open E (Ptr a op) (Some t) raw err h =
    (case res_bind (du_group es []) du_rows of
       Inl message \<Rightarrow> (None, set_error err CodeUnexpected message, h')
     | Inr rows \<Rightarrow> (Some \<lparr>dc_rows = rows, dc_current = None\<rparr>, set_ok err, h'))"
  using assms
  by (simp add: od_table_du_open_def od_table_du_open_body_def ffi_guard_def decode_or_leave_def cstr_def split: sum.split)

text \<open>Adding up the directories adds up the files.\<close>

lemma sum_files_in:
  fixes w :: "entry \<Rightarrow> nat"
  shows "(\<Sum>d \<in> du_dirs es. sum_list (map w (files_in d es))) = sum_list (map w (filter (is_file \<circ> snd) es))"
proof -
  have "(\<Sum>d \<in> D. sum_list (map w (files_in d es))) = sum_list (map w (filter (is_file \<circ> snd) es))"
    if "finite D" "du_dirs es \<subseteq> D" for D
    using that
  proof (induction es)
    case Nil
    then show ?case by simp
  next
    case (Cons x es)
    have sub: "du_dirs es \<subseteq> D" using Cons.prems(2) by (simp split: if_splits)
    have split: "sum_list (map w (files_in d (x # es))) =
        (if parent (fst x) = d then (if is_file (snd x) then w x else 0) else 0) + sum_list (map w (files_in d es))" for d
      by simp
    have "is_file (snd x) \<Longrightarrow> parent (fst x) \<in> D" using Cons.prems(2) by simp
    with Cons.IH [OF Cons.prems(1) sub] Cons.prems(1) show ?case
      by (auto simp: split sum.distrib sum.delta simp del: files_in_simps)
  qed
  from this [OF finite_du_dirs subset_refl] show ?thesis .
qed

lemma sum_du_spec:
  fixes f :: "owned_du_row \<Rightarrow> nat"
  assumes "\<And>d. f \<lparr>dr_directory = d, dr_file_count = of_nat (length (files_in d es)), dr_total_size = of_nat (du_size d es)\<rparr>
      = sum_list (map w (files_in d es))"
  shows "sum_list (map f (du_spec es)) = sum_list (map w (filter (is_file \<circ> snd) es))"
  using sum_files_in [of w es] by (simp add: du_spec_def o_def assms sum_list_distinct_conv_sum_set)

section \<open>Properties\<close>

text \<open>
  C17: disk usage is the reference roll-up: once the entries are known, opening succeeds exactly
  when every directory's count and size fit 64 bits and its name is a C string, and then stepping
  the cursor gives one row per directory that directly holds a file, in ascending order, with the
  exact count and size; otherwise the error is reported and there is no cursor.
\<close>

theorem du_exact:
  assumes "du_entries E op t o1 h = (ROk es, h')" "list_options raw = Inr o1" "utf8_valid t"
  shows "case od_table_du_open E (Ptr a op) (Some t) raw err h of
      (None, e, h2) \<Rightarrow> h2 = h' \<and> reports err True e \<and> \<not> (du_fits es \<and> (\<forall>d \<in> du_dirs es. nul_free d))
    | (Some c, e, h2) \<Rightarrow> h2 = h' \<and> reports err False e \<and> du_fits es
        \<and> collect du_step (Suc (card (du_dirs es))) (Ptr b c, old, slot) = Some (map (\<lambda>row. (1, du_view row)) (du_spec es))"
proof (cases "res_bind (du_group es []) du_rows")
  case (Inl message)
  with du_rows_spec [of es "du_spec es"] have "\<not> (du_fits es \<and> (\<forall>d \<in> du_dirs es. nul_free d))" by auto
  with Inl show ?thesis by (simp add: du_open_cases [OF assms] set_error_reports)
next
  case (Inr rows)
  then have rows: "du_fits es" "rows = du_spec es" by (simp_all add: du_rows_spec)
  have "length (du_spec es) = card (du_dirs es)" by (simp add: du_spec_def)
  then have "collect du_step (Suc (card (du_dirs es))) (Ptr b \<lparr>dc_rows = rows, dc_current = None\<rparr>, old, slot) = Some (map (\<lambda>row. (1, du_view row)) (du_spec es))"
    using rows by (subst du_scan_rows) simp_all
  with Inr rows show ?thesis by (simp add: du_open_cases [OF assms] set_ok_reports del: collect.simps)
qed

abbreviation du_env_files :: "entry list" where
  "du_env_files \<equiv> [(''d/b/y'', plain_file), (''d/'', plain_file\<lparr>mode := DIR\<rparr>), (''d/x'', plain_file), (''d/b/z'', plain_file)]"

definition du_env :: env where
  "du_env = calm_env\<lparr>on_metadata := \<lambda>_. ROk (plain_file\<lparr>mode := DIR\<rparr>),
     on_entries := \<lambda>_. ROk du_env_files\<rparr>"

lemma du_env_entries:
  "\<exists>h'. du_entries du_env op ''d'' o1 h = (ROk du_env_files, h')"
  by (simp add: du_entries_def has_glob_def is_wildcard_def invoke_def du_env_def is_file_def)

lemma du_env_spec:
  "du_dirs du_env_files = {''d'', ''d/b''}" "du_fits du_env_files" "\<forall>d \<in> du_dirs du_env_files. nul_free d"
  "du_spec du_env_files = [\<lparr>dr_directory = ''d'', dr_file_count = 1, dr_total_size = 3\<rparr>,
     \<lparr>dr_directory = ''d/b'', dr_file_count = 2, dr_total_size = 6\<rparr>]"
proof -
  have p: "parent ''d/b/y'' = ''d/b''" "parent ''d/b/z'' = ''d/b''" "parent ''d/x'' = ''d''"
    by (simp_all add: parent_def trim_end_char_def)
  have files: "is_file plain_file" "\<not> is_file (plain_file\<lparr>mode := DIR\<rparr>)" "content_length plain_file = 3"
    by (simp_all add: is_file_def plain_file_def)
  show dirs: "du_dirs du_env_files = {''d'', ''d/b''}" by (auto simp: p files)
  show "du_fits du_env_files" by (simp add: du_fits_def p files)
  show "\<forall>d \<in> du_dirs du_env_files. nul_free d" unfolding dirs by simp
  show "du_spec du_env_files = [\<lparr>dr_directory = ''d'', dr_file_count = 1, dr_total_size = 3\<rparr>,
     \<lparr>dr_directory = ''d/b'', dr_file_count = 2, dr_total_size = 6\<rparr>]"
    unfolding du_spec_def dirs by (simp add: p files)
qed

theorem du_exact_witness:
  "\<exists>c e h'. od_table_du_open du_env (Ptr 1 full_operator) (Some ''d'') plain_list_options None [] = (Some c, e, h')
     \<and> collect du_step 3 (Ptr 2 c, du_view undefined, None) = Some [(1, \<lparr>du_directory = Some ''d'', du_file_count = 1, du_total_size = 3\<rparr>),
         (1, \<lparr>du_directory = Some ''d/b'', du_file_count = 2, du_total_size = 6\<rparr>)]"
proof -
  obtain o1 where o1: "list_options plain_list_options = Inr o1" by (simp add: list_options_def plain_list_options_def optional_cstr_def)
  obtain h' where es: "du_entries du_env full_operator ''d'' o1 [] = (ROk du_env_files, h')" using du_env_entries by blast
  have card: "card (du_dirs du_env_files) = 2" unfolding du_env_spec by simp
  let ?open = "od_table_du_open du_env (Ptr 1 full_operator) (Some ''d'') plain_list_options None []"
  have "utf8_valid ''d''" by (simp add: is_ascii_def)
  from du_exact [OF es o1 this, where a = 1 and err = None and b = 2 and old = "du_view undefined" and slot = None]
    du_env_spec(2,3)
  show ?thesis
    unfolding card du_env_spec(4)
    by (cases ?open; cases "fst ?open") (simp_all add: du_view_def eval_nat_numeral del: collect.simps du_dirs_simps)
qed

text \<open>
  No byte is lost or counted twice: the rows' sizes add up to the size of all files found and
  their counts to the number of files, whichever directories they are in.
\<close>

lemma du_conserves:
  assumes "od_table_du_open E (Ptr a op) (Some t) raw err h = (Some c, e, h')"
    and "list_options raw = Inr o1" "du_entries E op t o1 h = (ROk es, h2)"
  shows "sum_list (map (\<lambda>row. unat (dr_total_size row)) (dc_rows c))
      = sum_list (map (\<lambda>x. unat (content_length (snd x))) (filter (is_file \<circ> snd) es))
    \<and> sum_list (map (\<lambda>row. unat (dr_file_count row)) (dc_rows c)) = length (filter (is_file \<circ> snd) es)"
proof -
  from assms(1) have "utf8_valid t"
    by (auto simp: od_table_du_open_def od_table_du_open_body_def ffi_guard_def decode_or_leave_def cstr_def
        split: if_splits)
  from assms(1) du_open_cases [OF assms(3,2) this, of a err] have "res_bind (du_group es []) du_rows = Inr (dc_rows c)"
    by (auto split: sum.splits)
  then have fits: "du_fits es" and rows: "dc_rows c = du_spec es" by (simp_all add: du_rows_spec)
  have "unat (of_nat (du_size d es) :: u64) = du_size d es" "unat (of_nat (length (files_in d es)) :: u64) = length (files_in d es)" for d
    using fits by (simp_all add: du_fits_def unat_of_nat)
  then have "sum_list (map (\<lambda>row. unat (dr_total_size row)) (du_spec es))
      = sum_list (map (\<lambda>x. unat (content_length (snd x))) (filter (is_file \<circ> snd) es))"
    "sum_list (map (\<lambda>row. unat (dr_file_count row)) (du_spec es)) = sum_list (map (\<lambda>_. 1) (filter (is_file \<circ> snd) es))"
    by (intro sum_du_spec; simp add: du_size_def sum_list_triv)+
  with rows show ?thesis by (simp add: sum_list_triv)
qed

end
