(* ===== verification/Copy.thy ===== *)
theory Copy
  imports Cursor Writer
begin

text \<open>
  Copies of files, trees and globs (\<open>opendal/src/table.rs\<close>, from \<open>copy_options\<close> to
  \<open>od_copy_cursor_next\<close>).  Opening a cursor checks the capabilities and plans the pairs of source
  and destination; each step copies one pair, on the server or by a bounded stream.  The server's
  copier may make progress forever and a stream with an empty chunk would not advance, so both
  loops are partial functions: \<open>None\<close> is a step that does not return.
\<close>

section \<open>Definitions\<close>

record od_copy_options =
  cp_if_not_exists :: nat
  cp_if_match :: c_str
  cp_source_version :: c_str
  cp_hint :: u64
  cp_has_hint :: nat
  cp_concurrent :: u64
  cp_has_concurrent :: nat
  cp_chunk_size :: u64
  cp_has_chunk_size :: nat

record od_copy_row =
  cr_source :: c_str
  cr_destination :: c_str
  cr_bytes_copied :: u64
  cr_metadata :: od_entry_metadata

record owned_copy_row =
  oc_bytes_copied :: u64
  oc_source :: string
  oc_destination :: owned_row

text \<open>The cursor borrows its operators; they do not change while it lives.\<close>

record od_copy_cursor =
  cc_source_op :: od_operator
  cc_destination_op :: od_operator
  cc_options :: copy_opts
  cc_same_op_copy :: bool
  cc_plan :: "(string \<times> string \<times> u64) list"
  cc_current :: "owned_copy_row option"

definition copy_options :: "od_copy_options \<Rightarrow> copy_opts parsed" where
  "copy_options raw =
     (if cp_has_concurrent raw \<noteq> 0 \<and> cp_concurrent raw = 0 then Inl ''copy concurrent must be positive''
      else if cp_has_chunk_size raw \<noteq> 0 \<and> cp_chunk_size raw = 0 then Inl ''copy chunk_size must be positive''
      else
        res_bind (optional_cstr (cp_if_match raw) ''if_match'') (\<lambda>im.
        res_bind (optional_cstr (cp_source_version raw) ''source_version'') (\<lambda>sv.
          Inr \<lparr>co_if_not_exists = (cp_if_not_exists raw \<noteq> 0), co_if_match = im, co_source_version = sv,
            co_hint = (if cp_has_hint raw \<noteq> 0 then Some (cp_hint raw) else None),
            co_concurrent = (if cp_has_concurrent raw \<noteq> 0 then cp_concurrent raw else 0),
            co_chunk = (if cp_has_chunk_size raw \<noteq> 0 then Some (cp_chunk_size raw) else None)\<rparr>)))"

text \<open>\<open>Err(abort_writer(writer, primary))\<close>: the failure of the abort becomes context of the primary error.\<close>

definition abort_writer :: "env \<Rightarrow> nat \<Rightarrow> oerror \<Rightarrow> history \<Rightarrow> 'a reply \<times> history" where
  "abort_writer E w primary h =
     (case invoke (on_unit E) (AbortWriter w) h of
        (ROk _, h1) \<Rightarrow> (RErr primary, h1)
      | (RErr abort, h1) \<Rightarrow> (RErr (with_context E primary ''abort_error'' (display abort)), h1)
      | (RPanic, h1) \<Rightarrow> (RPanic, h1))"

text \<open>\<open>let _ = block_on(copier.abort()); return Err(error)\<close>\<close>

definition abort_copier :: "env \<Rightarrow> nat \<Rightarrow> oerror \<Rightarrow> history \<Rightarrow> 'a reply \<times> history" where
  "abort_copier E n error h =
     (case invoke (on_unit E) (CopierAbort n) h of (RPanic, h1) \<Rightarrow> (RPanic, h1) | (_, h1) \<Rightarrow> (RErr error, h1))"

text \<open>The question mark operator on the reply of a call.\<close>

definition reply_bind ::
  "'a reply \<times> history \<Rightarrow> ('a \<Rightarrow> history \<Rightarrow> ('b reply \<times> history) option) \<Rightarrow> ('b reply \<times> history) option" where
  "reply_bind res k =
     (case res of (ROk a, h) \<Rightarrow> k a h | (RErr e, h) \<Rightarrow> Some (RErr e, h) | (RPanic, h) \<Rightarrow> Some (RPanic, h))"

partial_function (option) copier_loop :: "env \<Rightarrow> nat \<Rightarrow> u64 \<Rightarrow> history \<Rightarrow> (u64 reply \<times> history) option" where
  "copier_loop E n copied h =
     (case invoke (on_progress E) (CopierNext n) h of (r, h1) \<Rightarrow>
        (case r of
           ROk p \<Rightarrow>
             (case p of
                Some step \<Rightarrow>
                  (case checked_add copied step of
                     Some copied' \<Rightarrow> copier_loop E n copied' h1
                   | None \<Rightarrow> Some (abort_copier E n (new_error E KUnexpected ''copy byte count overflow'') h1))
              | None \<Rightarrow> Some (ROk copied, h1))
         | RErr e \<Rightarrow> Some (abort_copier E n e h1)
         | RPanic \<Rightarrow> Some (RPanic, h1)))"

partial_function (option) stream_loop ::
  "env \<Rightarrow> nat \<Rightarrow> nat \<Rightarrow> u64 \<Rightarrow> u64 \<Rightarrow> u64 \<Rightarrow> history \<Rightarrow> (u64 reply \<times> history) option" where
  "stream_loop E r w source_len chunk offset h =
     (if \<not> offset < source_len then Some (ROk offset, h)
      else (let end_pos = min source_len (saturating_add offset chunk)
            in case invoke (on_bytes E) (ReadRange r offset end_pos) h of (br, h1) \<Rightarrow>
              (case br of
                 RErr e \<Rightarrow> Some (abort_writer E w e h1)
               | RPanic \<Rightarrow> Some (RPanic, h1)
               | ROk buffer \<Rightarrow>
                   (case invoke (on_unit E) (Write w buffer) h1 of (wr, h2) \<Rightarrow>
                      (case wr of
                         RErr e \<Rightarrow> Some (abort_writer E w e h2)
                       | RPanic \<Rightarrow> Some (RPanic, h2)
                       | ROk _ \<Rightarrow> stream_loop E r w source_len chunk end_pos h2)))))"

text \<open>The copy on the server.\<close>

definition server_copy ::
  "env \<Rightarrow> od_operator \<Rightarrow> string \<Rightarrow> string \<Rightarrow> copy_opts \<Rightarrow> u64 \<Rightarrow> history \<Rightarrow> ((u64 \<times> metadata) reply \<times> history) option" where
  "server_copy E sop source destination o1 source_len h =
     reply_bind (invoke (on_handle E) (CopierOptions (od_op sop) source destination o1) h) (\<lambda>n h1.
     Option.bind (copier_loop E n 0 h1) (\<lambda>res.
     reply_bind res (\<lambda>copied h2.
     reply_bind (invoke (on_metadata E) (CopierClose n) h2) (\<lambda>m h3. Some (ROk (max copied source_len, m), h3)))))"

text \<open>The copy by a reader and a writer, with the options of both.\<close>

definition copy_reader_options :: "copy_opts \<Rightarrow> u64 \<Rightarrow> reader_opts" where
  "copy_reader_options o1 source_len =
     \<lparr>ro_version = co_source_version o1, ro_hint = Some source_len,
      ro_concurrent = (if co_concurrent o1 = 0 then 1 else co_concurrent o1), ro_chunk = co_chunk o1\<rparr>"

definition copy_writer_options :: "copy_opts \<Rightarrow> write_opts" where
  "copy_writer_options o1 =
     \<lparr>wo_if_not_exists = co_if_not_exists o1, wo_if_match = co_if_match o1,
      wo_concurrent = co_concurrent o1, wo_chunk = co_chunk o1\<rparr>"

definition copy_chunk :: "copy_opts \<Rightarrow> u64" where
  "copy_chunk o1 = (case co_chunk o1 of Some c \<Rightarrow> c | None \<Rightarrow> 8 * 1024 * 1024)"

definition stream_copy ::
  "env \<Rightarrow> od_operator \<Rightarrow> od_operator \<Rightarrow> string \<Rightarrow> string \<Rightarrow> copy_opts \<Rightarrow> u64 \<Rightarrow> history
     \<Rightarrow> ((u64 \<times> metadata) reply \<times> history) option" where
  "stream_copy E sop dop source destination o1 source_len h =
     reply_bind (invoke (on_handle E) (ReaderOptions (od_op sop) source (copy_reader_options o1 source_len)) h) (\<lambda>r h1.
     reply_bind (invoke (on_handle E) (WriterOptions (od_op dop) destination (copy_writer_options o1)) h1) (\<lambda>w h2.
     Option.bind (stream_loop E r w source_len (copy_chunk o1) 0 h2) (\<lambda>res.
     reply_bind res (\<lambda>offset h3.
       case invoke (on_metadata E) (CloseWriter w) h3 of
         (ROk m, h4) \<Rightarrow> Some (ROk (offset, m), h4)
       | (RErr e, h4) \<Rightarrow> Some (abort_writer E w e h4)
       | (RPanic, h4) \<Rightarrow> Some (RPanic, h4)))))"

definition copy_one ::
  "env \<Rightarrow> od_operator \<Rightarrow> od_operator \<Rightarrow> string \<Rightarrow> string \<Rightarrow> copy_opts \<Rightarrow> bool \<Rightarrow> u64 \<Rightarrow> history
     \<Rightarrow> ((u64 \<times> metadata) reply \<times> history) option" where
  "copy_one E sop dop source destination base_options same_op_copy source_len h =
     (let o1 = base_options\<lparr>co_hint := Some source_len\<rparr>
      in Option.bind (if same_op_copy then server_copy E sop source destination o1 source_len h
                      else stream_copy E sop dop source destination o1 source_len h) (\<lambda>res.
         reply_bind res (\<lambda>(bytes_copied, completion) h1.
           case invoke (on_metadata E) (Stat (od_op dop) destination default_stat_opts) h1 of
             (ROk m, h2) \<Rightarrow> Some (ROk (bytes_copied, m), h2)
           | (RErr _, h2) \<Rightarrow> Some (ROk (bytes_copied, completion), h2)
           | (RPanic, h2) \<Rightarrow> Some (RPanic, h2))))"

text \<open>The guards, checked once for every planned file.\<close>

definition copy_checks :: "od_operator \<Rightarrow> od_operator \<Rightarrow> copy_opts \<Rightarrow> bool \<Rightarrow> guard_result list" where
  "copy_checks sop dop o1 same_op_copy =
     (if same_op_copy then
        [require_option (od_scheme sop) (co_if_not_exists o1) (cap_copy_with_if_not_exists (od_cap sop)) ''copy_with_if_not_exists'',
         require_option (od_scheme sop) (co_if_match o1 \<noteq> None) (cap_copy_with_if_match (od_cap sop)) ''copy_with_if_match'',
         require_option (od_scheme sop) (co_source_version o1 \<noteq> None) (cap_copy_with_source_version (od_cap sop))
           ''copy_with_source_version'']
      else
        [require (od_scheme sop) (cap_read (od_cap sop)) ''read'',
         require (od_scheme dop) (cap_write (od_cap dop)) ''write'',
         require_option (od_scheme sop) (co_source_version o1 \<noteq> None) (cap_read_with_version (od_cap sop)) ''read_with_version'',
         require_option (od_scheme dop) (co_if_not_exists o1) (cap_write_with_if_not_exists (od_cap dop)) ''write_with_if_not_exists'',
         require_option (od_scheme dop) (co_if_match o1 \<noteq> None) (cap_write_with_if_match (od_cap dop)) ''write_with_if_match''])"

text \<open>The pairs planned for the files of a listing that pass a filter, moved from a base to a destination.\<close>

definition plan_pairs :: "(string \<Rightarrow> bool) \<Rightarrow> string \<Rightarrow> string \<Rightarrow> entry list \<Rightarrow> (string \<times> string \<times> u64) list" where
  "plan_pairs keep base destination es =
     map (\<lambda>(path, m). (path, join_dest destination (strip_base base path), content_length m))
       (filter (\<lambda>(path, m). is_file m \<and> keep path) es)"

definition single_file_only :: string where
  "single_file_only = ''source_content_length_hint and source_version are only valid for single-file copy''"

definition hint_mismatch :: "u64 \<Rightarrow> u64 \<Rightarrow> string" where
  "hint_mismatch hint source_len =
     ''source_content_length_hint='' @ show_nat (unat hint) @ '' does not match source size '' @ show_nat (unat source_len)"

text \<open>Planning: a glob, a single file, or everything under a directory; \<open>k\<close> is what follows.\<close>

definition plan_copy ::
  "env \<Rightarrow> od_operator \<Rightarrow> string \<Rightarrow> string \<Rightarrow> copy_opts \<Rightarrow> err_slot \<Rightarrow> history
     \<Rightarrow> ((string \<times> string \<times> u64) list \<Rightarrow> history \<Rightarrow> 'r option outcome \<times> err_slot \<times> history)
     \<Rightarrow> 'r option outcome \<times> err_slot \<times> history" where
  "plan_copy E sop source destination o1 err h k =
     (let single_only = co_hint o1 \<noteq> None \<or> co_source_version o1 \<noteq> None;
          recursive = default_list_opts\<lparr>lo_recursive := True\<rparr>
      in if has_glob source then
           if single_only then leave err None h CodeInvalidInput single_file_only
           else (let base = glob_root source; pattern = trim_start_char CHR ''/'' source
                 in await_or_leave (invoke (on_entries E) (ListOptions (od_op sop) base recursive) h) err None (\<lambda>h1. h1)
                      (\<lambda>es h1. k (plan_pairs (glob_matches pattern) base destination es) h1))
         else
           await_or_leave
             (invoke (on_metadata E) (Stat (od_op sop) source (default_stat_opts\<lparr>so_version := co_source_version o1\<rparr>)) h)
             err None (\<lambda>h1. h1) (\<lambda>m h1.
               if is_file m then
                 (case co_hint o1 of
                    Some hint \<Rightarrow>
                      if hint \<noteq> content_length m
                      then leave err None h1 CodeInvalidInput (hint_mismatch hint (content_length m))
                      else k [(source, destination, content_length m)] h1
                  | None \<Rightarrow> k [(source, destination, content_length m)] h1)
               else if single_only then leave err None h1 CodeInvalidInput single_file_only
               else (let base = (if suffix ''/'' source then source else source @ ''/'')
                     in await_or_leave (invoke (on_entries E) (ListOptions (od_op sop) base recursive) h1) err None (\<lambda>h2. h2)
                          (\<lambda>es h2. k (plan_pairs (\<lambda>_. True) base destination es) h2))))"

definition od_table_copy_open_body ::
  "env \<Rightarrow> od_operator ptr \<Rightarrow> c_str \<Rightarrow> od_operator ptr \<Rightarrow> c_str \<Rightarrow> od_copy_options \<Rightarrow> err_slot \<Rightarrow> history
     \<Rightarrow> od_copy_cursor option outcome \<times> err_slot \<times> history" where
  "od_table_copy_open_body E p source q destination raw err h =
     (case (p, q) of
        (Ptr a sop, Ptr b dop) \<Rightarrow>
          decode_or_leave source ''source is null or not UTF-8'' err None h (\<lambda>s.
          decode_or_leave destination ''destination is null or not UTF-8'' err None h (\<lambda>d.
          value_or_leave (copy_options raw) err None h (\<lambda>o1.
            let same_op_copy = (a = b \<and> cap_copy (od_cap sop))
            in check_guard (first_failure (copy_checks sop dop o1 same_op_copy)) err None h
                 (plan_copy E sop s d o1 err h (\<lambda>pairs h1.
                    (Ret (Some \<lparr>cc_source_op = sop, cc_destination_op = dop, cc_options = o1,
                       cc_same_op_copy = same_op_copy, cc_plan = pairs, cc_current = None\<rparr>), set_ok err, h1))))))
      | _ \<Rightarrow> leave err None h CodeInvalidInput ''null source or destination operator'')"

definition od_table_copy_open ::
  "env \<Rightarrow> od_operator ptr \<Rightarrow> c_str \<Rightarrow> od_operator ptr \<Rightarrow> c_str \<Rightarrow> od_copy_options \<Rightarrow> err_slot \<Rightarrow> history
     \<Rightarrow> od_copy_cursor option \<times> err_slot \<times> history" where
  "od_table_copy_open E p source q destination raw err h =
     ffi_guard ''od_table_copy_open'' None (od_table_copy_open_body E p source q destination raw err h)"

text \<open>The row of one finished copy.\<close>

definition copy_row_of :: "env \<Rightarrow> string \<Rightarrow> string \<Rightarrow> u64 \<Rightarrow> metadata \<Rightarrow> owned_copy_row parsed" where
  "copy_row_of E source_path dest_path bytes_copied m =
     res_bind (cstring source_path ''copy source'') (\<lambda>src.
     res_bind (owned_from_parts E dest_path m) (\<lambda>row.
       Inr \<lparr>oc_bytes_copied = bytes_copied, oc_source = src, oc_destination = row\<rparr>))"

type_synonym copy_step_result = "int outcome \<times> err_slot \<times> od_copy_row option \<times> od_copy_cursor ptr \<times> history"

definition od_copy_cursor_next_body ::
  "env \<Rightarrow> od_copy_cursor ptr \<Rightarrow> od_copy_row option \<Rightarrow> err_slot \<Rightarrow> history \<Rightarrow> copy_step_result option" where
  "od_copy_cursor_next_body E p out err h =
     (case (p, out) of
        (Ptr a c, Some _) \<Rightarrow>
          (case cc_plan c of
             [] \<Rightarrow> Some (Ret 0, set_ok err, out, p, h)
           | (source_path, dest_path, source_len) # plan \<Rightarrow>
               map_option (\<lambda>(r, h1).
                 let c1 = c\<lparr>cc_plan := plan\<rparr>
                 in case r of
                      RErr e \<Rightarrow> (Ret (- 1), set_opendal_error err e, out, Ptr a c1, h1)
                    | RPanic \<Rightarrow> (Panic, err, out, Ptr a c1, h1)
                    | ROk (bytes_copied, m) \<Rightarrow>
                        (case copy_row_of E source_path dest_path bytes_copied m of
                           Inl message \<Rightarrow> (Ret (- 1), set_error err CodeUnexpected message, out, Ptr a c1, h1)
                         | Inr row \<Rightarrow>
                             (Ret 1, set_ok err,
                              Some \<lparr>cr_source = Some (oc_source row), cr_destination = Some (ow_path (oc_destination row)),
                                cr_bytes_copied = oc_bytes_copied row,
                                cr_metadata = er_metadata (borrowed (oc_destination row))\<rparr>,
                              Ptr a (c1\<lparr>cc_current := Some row\<rparr>), h1)))
                 (copy_one E (cc_source_op c) (cc_destination_op c) source_path dest_path (cc_options c)
                    (cc_same_op_copy c) source_len h))
      | _ \<Rightarrow> Some (leave err (- 1) (out, p, h) CodeInvalidInput ''null copy cursor or row output''))"

definition od_copy_cursor_next ::
  "env \<Rightarrow> od_copy_cursor ptr \<Rightarrow> od_copy_row option \<Rightarrow> err_slot \<Rightarrow> history
     \<Rightarrow> (int \<times> err_slot \<times> od_copy_row option \<times> od_copy_cursor ptr \<times> history) option" where
  "od_copy_cursor_next E p out err h =
     map_option (ffi_guard ''od_copy_cursor_next'' (- 1)) (od_copy_cursor_next_body E p out err h)"

section \<open>Contracts\<close>

lemma guard_ok_copy_checks [body_intro]: "guard_ok (first_failure (copy_checks sop dop o1 same))"
  by (rule guard_ok_first_failure) (auto simp: copy_checks_def guard_ok_require guard_ok_require_option split: if_splits)

lemma body_ok_plan_copy [body_intro]:
  "(\<And>pairs h1. body_ok err None (k pairs h1)) \<Longrightarrow> body_ok err None (plan_copy E sop s d o1 err h k)"
  by (auto simp: plan_copy_def Let_def simp del: leave_simps intro!: body_intro split: option.split)

interpretation table_copy_open: ffi_entry
  "\<lambda>(E, p, source, q, destination, raw, h) err. od_table_copy_open_body E p source q destination raw err h" None
  by (rule ffi_entry_intro)
    (auto simp: od_table_copy_open_body_def Let_def simp del: leave_simps intro!: body_intro split: ptr.split)

lemma copy_next_body_ok: "od_copy_cursor_next_body E p out err h = Some res \<Longrightarrow> body_ok err (- 1) res"
  by (auto simp: od_copy_cursor_next_body_def Let_def body_ok_error split: ptr.splits option.splits list.splits reply.splits sum.splits
      intro!: body_intro)

lemma copy_next_reports:
  "od_copy_cursor_next E p out err h = Some (v, e, x) \<Longrightarrow> reports err (v = - 1) e"
  by (auto simp: od_copy_cursor_next_def dest!: copy_next_body_ok guard_reports)

lemma reply_bind_simps [simp]:
  "reply_bind (ROk a, h) k = k a h"
  "reply_bind (RErr e, h) k = Some (RErr e, h)"
  "reply_bind (RPanic, h) k = Some (RPanic, h)"
  by (simp_all add: reply_bind_def)

section \<open>The stream\<close>

text \<open>The end of a chunk: past its start, within the file, and at most a chunk away.\<close>

lemma chunk_end:
  assumes "offset < n" "chunk \<noteq> 0"
  shows "unat offset < unat (min n (saturating_add offset chunk))"
    "unat (min n (saturating_add offset chunk)) \<le> unat n"
    "unat (min n (saturating_add offset chunk)) \<le> unat offset + unat chunk"
proof -
  have e: "unat (min n (saturating_add offset chunk)) = min (unat n) (min (unat offset + unat chunk) (2 ^ LENGTH('a) - 1))"
    by (simp add: min_def word_le_nat_alt unat_saturating_add)
  have "0 < unat chunk" using assms(2) by (simp add: unat_gt_0)
  moreover have "unat offset < unat n" using assms(1) by (simp add: word_less_nat_alt)
  moreover have "unat n < 2 ^ LENGTH('a)" by simp
  ultimately show "unat offset < unat (min n (saturating_add offset chunk))"
    "unat (min n (saturating_add offset chunk)) \<le> unat n"
    "unat (min n (saturating_add offset chunk)) \<le> unat offset + unat chunk"
    unfolding e by linarith+
qed

lemma stream_loop_returns:
  assumes "chunk \<noteq> 0"
  shows "\<exists>res. stream_loop E r w n chunk offset h = Some res"
proof (induction "unat n - unat offset" arbitrary: offset h rule: less_induct)
  case less
  show ?case
  proof (cases "offset < n")
    case False
    then show ?thesis by (subst stream_loop.simps) simp
  next
    case True
    have "\<exists>res. stream_loop E r w n chunk (min n (saturating_add offset chunk)) h2 = Some res" for h2
      using chunk_end [OF True assms] by (intro less) linarith
    with True show ?thesis
      by (subst stream_loop.simps) (simp add: Let_def split: prod.split reply.split)
  qed
qed

text \<open>
  The calls of a stream: pairs of a read and a write, the reads consecutive, none longer than a
  chunk; the function gives where the reads end, or none when the calls are of another form.
\<close>

fun tiles :: "nat \<Rightarrow> nat \<Rightarrow> u64 \<Rightarrow> u64 \<Rightarrow> history \<Rightarrow> u64 option" where
  "tiles r w chunk offset [] = Some offset"
| "tiles r w chunk offset (ReadRange r' a b # Write w' d # cs) =
     (if r' = r \<and> w' = w \<and> a = offset \<and> a < b \<and> unat b - unat a \<le> unat chunk then tiles r w chunk b cs else None)"
| "tiles r w chunk offset cs = None"

text \<open>How a stream can end: done after tiling the file, or with a failed read or write and then the abort.\<close>

definition stream_ends :: "env \<Rightarrow> nat \<Rightarrow> nat \<Rightarrow> u64 \<Rightarrow> u64 \<Rightarrow> u64 \<Rightarrow> history \<Rightarrow> u64 reply \<times> history \<Rightarrow> bool" where
  "stream_ends E r w n chunk offset h res \<longleftrightarrow>
     (case res of
        (ROk k, h') \<Rightarrow> k = n \<and> (\<exists>cs. h' = h @ cs \<and> tiles r w chunk offset cs = Some n)
      | (RErr _, h') \<Rightarrow> (\<exists>cs mid tail. h' = h @ cs @ tail @ [AbortWriter w] \<and> tiles r w chunk offset cs = Some mid \<and> mid < n
          \<and> (tail = [ReadRange r mid (min n (saturating_add mid chunk))]
              \<or> (\<exists>d. tail = [ReadRange r mid (min n (saturating_add mid chunk)), Write w d])))
      | (RPanic, h') \<Rightarrow> True)"

lemma stream_ends_step:
  assumes "stream_ends E r w n chunk (min n (saturating_add offset chunk))
      (h @ [ReadRange r offset (min n (saturating_add offset chunk)), Write w d]) res"
    and "offset < n" "chunk \<noteq> 0"
  shows "stream_ends E r w n chunk offset h res"
proof -
  let ?e = "min n (saturating_add offset chunk)"
  have "tiles r w chunk offset (ReadRange r offset ?e # Write w d # cs) = tiles r w chunk ?e cs" for cs
    using chunk_end [OF assms(2,3)] by (simp add: word_less_nat_alt le_diff_conv add.commute)
  then have t: "tiles r w chunk offset ([ReadRange r offset ?e, Write w d] @ cs) = tiles r w chunk ?e cs" for cs
    by simp
  obtain res1 h' where res: "res = (res1, h')" by (metis surj_pair)
  show ?thesis
  proof (cases res1)
    case (ROk k)
    with assms(1) res show ?thesis
      by (auto simp: stream_ends_def simp flip: t)
  next
    case (RErr e)
    from assms(1) obtain cs mid l where l: "h' = (h @ [ReadRange r offset ?e, Write w d]) @ cs @ l @ [AbortWriter w]"
      "tiles r w chunk ?e cs = Some mid" "mid < n"
      "l = [ReadRange r mid (min n (saturating_add mid chunk))]
          \<or> (\<exists>d. l = [ReadRange r mid (min n (saturating_add mid chunk)), Write w d])"
      unfolding res RErr stream_ends_def by auto
    have h': "h' = h @ ([ReadRange r offset ?e, Write w d] @ cs) @ l @ [AbortWriter w]" using l(1) by simp
    have "tiles r w chunk offset ([ReadRange r offset ?e, Write w d] @ cs) = Some mid" using l(2) t by simp
    with h' l(3,4) show ?thesis unfolding res RErr stream_ends_def prod.case reply.case by blast
  next
    case RPanic
    with res show ?thesis by (simp add: stream_ends_def)
  qed
qed

lemma stream_ends_abort:
  assumes "offset < n" "tail = [ReadRange r offset (min n (saturating_add offset chunk))]
      \<or> (\<exists>d. tail = [ReadRange r offset (min n (saturating_add offset chunk)), Write w d])"
  shows "stream_ends E r w n chunk offset h (abort_writer E w e (h @ tail))"
proof -
  have "h @ tail @ [AbortWriter w] = h @ [] @ tail @ [AbortWriter w]" "tiles r w chunk offset [] = Some offset" by simp_all
  with assms have "\<exists>cs mid l. h @ tail @ [AbortWriter w] = h @ cs @ l @ [AbortWriter w]
      \<and> tiles r w chunk offset cs = Some mid \<and> mid < n
      \<and> (l = [ReadRange r mid (min n (saturating_add mid chunk))]
          \<or> (\<exists>d. l = [ReadRange r mid (min n (saturating_add mid chunk)), Write w d]))" by blast
  then show ?thesis
    by (simp add: abort_writer_def invoke_def stream_ends_def split: reply.split)
qed

lemma stream_loop_ends:
  assumes "chunk \<noteq> 0"
  shows "stream_loop E r w n chunk offset h = Some res \<Longrightarrow> offset \<le> n \<Longrightarrow> stream_ends E r w n chunk offset h res"
proof (induction "unat n - unat offset" arbitrary: offset h rule: less_induct)
  case less
  let ?e = "min n (saturating_add offset chunk)"
  show ?case
  proof (cases "offset < n")
    case False
    with less.prems show ?thesis
      by (subst (asm) stream_loop.simps) (auto simp: stream_ends_def)
  next
    case True
    have dec: "unat n - unat ?e < unat n - unat offset"
      using chunk_end(1,2) [OF True assms] by linarith
    have IH: "stream_loop E r w n chunk ?e h2 = Some res \<Longrightarrow> stream_ends E r w n chunk ?e h2 res" for h2
      using less.hyps [OF dec, of h2] by simp
    let ?h1 = "h @ [ReadRange r offset ?e]"
    show ?thesis
    proof (cases "on_bytes E ?h1")
      case (ROk d)
      let ?h2 = "h @ [ReadRange r offset ?e, Write w d]"
      show ?thesis
      proof (cases "on_unit E ?h2")
        case (ROk u)
        with \<open>on_bytes E ?h1 = ROk d\<close> less.prems(1) True have "stream_loop E r w n chunk ?e ?h2 = Some res"
          by (subst (asm) stream_loop.simps) (simp add: Let_def invoke_def)
        from stream_ends_step [OF IH [OF this] True assms] show ?thesis .
      next
        case (RErr x)
        with \<open>on_bytes E ?h1 = ROk d\<close> less.prems(1) True have "res = abort_writer E w x (h @ [ReadRange r offset ?e, Write w d])"
          by (subst (asm) stream_loop.simps) (simp add: Let_def invoke_def)
        then show ?thesis using True by (simp only:) (rule stream_ends_abort, simp_all)
      next
        case RPanic
        with \<open>on_bytes E ?h1 = ROk d\<close> less.prems(1) True show ?thesis
          by (subst (asm) stream_loop.simps) (auto simp: Let_def invoke_def stream_ends_def)
      qed
    next
      case (RErr x)
      with less.prems(1) True have "res = abort_writer E w x (h @ [ReadRange r offset ?e])"
        by (subst (asm) stream_loop.simps) (simp add: Let_def invoke_def)
      then show ?thesis using True by (simp only:) (rule stream_ends_abort, simp_all)
    next
      case RPanic
      with less.prems(1) True show ?thesis
        by (subst (asm) stream_loop.simps) (auto simp: Let_def invoke_def stream_ends_def)
    qed
  qed
qed

lemma copy_chunk_pos: "co_chunk o1 \<noteq> Some 0 \<Longrightarrow> copy_chunk o1 \<noteq> 0"
  by (auto simp: copy_chunk_def split: option.split)

text \<open>A file served by ranges, and a writer that takes every write.\<close>

definition serves_range :: "env \<Rightarrow> nat \<Rightarrow> bytes \<Rightarrow> bool" where
  "serves_range E r file \<longleftrightarrow>
     (\<forall>h a b. on_bytes E (h @ [ReadRange r a b]) = ROk (take (unat b - unat a) (drop (unat a) file)))"

definition accepts :: "env \<Rightarrow> nat \<Rightarrow> bool" where
  "accepts E w \<longleftrightarrow> (\<forall>h d. on_unit E (h @ [Write w d]) = ROk ())"

lemma stream_loop_copies:
  assumes "serves_range E r file" "accepts E w" "chunk \<noteq> 0" "length file = unat n"
  shows "offset \<le> n \<Longrightarrow> \<exists>h'. stream_loop E r w n chunk offset h = Some (ROk n, h')
    \<and> payload w h' = payload w h @ drop (unat offset) file"
proof (induction "unat n - unat offset" arbitrary: offset h rule: less_induct)
  case less
  let ?e = "min n (saturating_add offset chunk)"
  show ?case
  proof (cases "offset < n")
    case False
    with less.prems assms(4) show ?thesis
      by (subst stream_loop.simps) (auto simp: not_less)
  next
    case True
    note e = chunk_end [OF True assms(3)]
    let ?d = "take (unat ?e - unat offset) (drop (unat offset) file)"
    let ?h2 = "h @ [ReadRange r offset ?e, Write w ?d]"
    have "unat n - unat ?e < unat n - unat offset" using e(1,2) by linarith
    from less.hyps [OF this, of ?h2] obtain h' where
      h': "stream_loop E r w n chunk ?e ?h2 = Some (ROk n, h')" "payload w h' = payload w ?h2 @ drop (unat ?e) file" by auto
    have "stream_loop E r w n chunk offset h = stream_loop E r w n chunk ?e ?h2"
      using True assms(1,2) by (subst stream_loop.simps) (simp add: Let_def invoke_def serves_range_def accepts_def)
    moreover have "?d @ drop (unat ?e) file = drop (unat offset) file"
      using e(1) by (metis append_take_drop_id drop_drop le_add_diff_inverse2 less_imp_le)
    ultimately show ?thesis using h' by simp
  qed
qed

section \<open>The copy on the server\<close>

text \<open>
  The progress calls of a copier: each answers a number of bytes, which add up without
  wrap-around, until one answers that it is done.
\<close>

definition copier_done :: "env \<Rightarrow> nat \<Rightarrow> u64 \<Rightarrow> history \<Rightarrow> u64 \<Rightarrow> history \<Rightarrow> bool" where
  "copier_done E n copied h copied' h' \<longleftrightarrow>
     (\<exists>steps. h' = h @ replicate (Suc (length steps)) (CopierNext n) \<and> on_progress E h' = ROk None
        \<and> (\<forall>i < length steps. on_progress E (h @ replicate (Suc i) (CopierNext n)) = ROk (Some (steps ! i)))
        \<and> unat copied' = unat copied + sum_list (map unat steps))"

lemma copier_done_step:
  assumes "on_progress E (h @ [CopierNext n]) = ROk (Some step)" "checked_add copied step = Some c1"
    and "copier_done E n c1 (h @ [CopierNext n]) copied' h'"
  shows "copier_done E n copied h copied' h'"
proof -
  from assms(3) obtain steps where st: "h' = (h @ [CopierNext n]) @ replicate (Suc (length steps)) (CopierNext n)"
    "on_progress E h' = ROk None"
    "\<And>i. i < length steps \<Longrightarrow> on_progress E ((h @ [CopierNext n]) @ replicate (Suc i) (CopierNext n)) = ROk (Some (steps ! i))"
    "unat copied' = unat c1 + sum_list (map unat steps)"
    by (auto simp: copier_done_def)
  have "on_progress E (h @ replicate (Suc i) (CopierNext n)) = ROk (Some ((step # steps) ! i))" if "i < Suc (length steps)" for i
    using that assms(1) st(3) [of "i - 1"] by (cases i) simp_all
  with st assms(2) show ?thesis
    unfolding copier_done_def by (intro exI [of _ "step # steps"]) (simp add: checked_add_Some_iff)
qed

text \<open>How the loop can end: done, or a failed step and then the abort.\<close>

definition copier_ends :: "env \<Rightarrow> nat \<Rightarrow> u64 \<Rightarrow> history \<Rightarrow> u64 reply \<times> history \<Rightarrow> bool" where
  "copier_ends E n copied h res \<longleftrightarrow>
    (case res of (ROk copied', h') \<Rightarrow> copier_done E n copied h copied' h'
     | (RErr _, h') \<Rightarrow> \<exists>k. h' = h @ replicate (Suc k) (CopierNext n) @ [CopierAbort n]
     | (RPanic, _) \<Rightarrow> True)"

lemma copier_ends_abort: "copier_ends E n copied h (abort_copier E n e (h @ [CopierNext n]))"
  by (auto simp: copier_ends_def abort_copier_def invoke_def split: reply.split intro: exI [of _ 0])

lemma copier_ends_none:
  "on_progress E (h @ [CopierNext n]) = ROk None \<Longrightarrow> copier_ends E n copied h (ROk copied, h @ [CopierNext n])"
  by (auto simp: copier_ends_def copier_done_def intro!: exI [of _ "[]"])

lemma copier_ends_step:
  assumes "on_progress E (h @ [CopierNext n]) = ROk (Some step)" "checked_add copied step = Some c1"
    and "copier_ends E n c1 (h @ [CopierNext n]) res"
  shows "copier_ends E n copied h res"
  using assms copier_done_step [OF assms(1,2)]
  by (auto simp: copier_ends_def split: prod.splits reply.splits simp flip: replicate_Suc)

lemma copier_loop_ends: "copier_loop E n copied h = Some res \<Longrightarrow> copier_ends E n copied h res"
proof (rule copier_loop.raw_induct [where P = copier_ends])
  fix loop E n copied h and res :: "u64 reply \<times> history"
  assume IH: "\<And>E n copied h res. loop E n copied h = Some res \<Longrightarrow> copier_ends E n copied h res"
    and eq: "(case invoke (on_progress E) (CopierNext n) h of (r, h1) \<Rightarrow>
        (case r of
           ROk p \<Rightarrow>
             (case p of
                Some step \<Rightarrow>
                  (case checked_add copied step of
                     Some copied' \<Rightarrow> loop E n copied' h1
                   | None \<Rightarrow> Some (abort_copier E n (new_error E KUnexpected ''copy byte count overflow'') h1))
              | None \<Rightarrow> Some (ROk copied, h1))
         | RErr e \<Rightarrow> Some (abort_copier E n e h1)
         | RPanic \<Rightarrow> Some (RPanic, h1))) = Some res"
  show "copier_ends E n copied h res"
  proof (cases "\<exists>step c1. on_progress E (h @ [CopierNext n]) = ROk (Some step) \<and> checked_add copied step = Some c1")
    case True
    then obtain step c1 where st: "on_progress E (h @ [CopierNext n]) = ROk (Some step)" "checked_add copied step = Some c1"
      by blast
    with eq have "loop E n c1 (h @ [CopierNext n]) = Some res" by (simp add: invoke_def)
    from copier_ends_step [OF st IH [OF this]] show ?thesis .
  next
    case False
    with eq show ?thesis
      by (auto simp: invoke_def copier_ends_abort copier_ends_none split: reply.splits option.splits)
        (simp add: copier_ends_def)
  qed
qed

text \<open>A copier that stops making progress at some call lets the loop return.\<close>

lemma copier_loop_returns:
  "(\<And>step. on_progress E (h @ replicate (Suc k) (CopierNext n)) \<noteq> ROk (Some step)) \<Longrightarrow>
    \<exists>res. copier_loop E n copied h = Some res"
proof (induction k arbitrary: h copied)
  case 0
  then show ?case
    by (subst copier_loop.simps) (auto simp: invoke_def split: reply.split option.split)
next
  case (Suc k)
  have "\<exists>res. copier_loop E n c1 (h @ [CopierNext n]) = Some res" for c1
    using Suc.prems by (intro Suc.IH) simp
  then show ?case
    by (subst copier_loop.simps) (auto simp: invoke_def split: reply.split option.split)
qed

section \<open>One copy\<close>

text \<open>The calls of a stream copy, up to the opened writer, and how it can end.\<close>

definition stream_opened :: "od_operator \<Rightarrow> od_operator \<Rightarrow> string \<Rightarrow> string \<Rightarrow> copy_opts \<Rightarrow> u64 \<Rightarrow> history \<Rightarrow> history" where
  "stream_opened sop dop source destination o1 n h =
     h @ [ReaderOptions (od_op sop) source (copy_reader_options o1 n),
          WriterOptions (od_op dop) destination (copy_writer_options o1)]"

definition stream_failed :: "env \<Rightarrow> nat \<Rightarrow> nat \<Rightarrow> u64 \<Rightarrow> u64 \<Rightarrow> history \<Rightarrow> history \<Rightarrow> bool" where
  "stream_failed E r w n chunk h h' \<longleftrightarrow>
     (\<exists>cs mid tail. h' = h @ cs @ tail @ [AbortWriter w] \<and> tiles r w chunk 0 cs = Some mid
        \<and> (mid < n \<and> (tail = [ReadRange r mid (min n (saturating_add mid chunk))]
                      \<or> (\<exists>d. tail = [ReadRange r mid (min n (saturating_add mid chunk)), Write w d]))
           \<or> mid = n \<and> tail = [CloseWriter w] \<and> (\<exists>x. on_metadata E (h @ cs @ tail) = RErr x)))"

definition copy_one_ends ::
  "env \<Rightarrow> od_operator \<Rightarrow> string \<Rightarrow> copy_opts \<Rightarrow> u64 \<Rightarrow> history \<Rightarrow> (u64 \<times> metadata) reply \<Rightarrow> history \<Rightarrow> bool" where
  "copy_one_ends E dop d o1 n g res h' \<longleftrightarrow>
    (case res of
       ROk (k, _) \<Rightarrow> k = n \<and> (\<exists>r w cs. h' = g @ cs @ [CloseWriter w, Stat (od_op dop) d default_stat_opts]
           \<and> tiles r w (copy_chunk o1) 0 cs = Some n)
     | RErr _ \<Rightarrow> h' = butlast g \<or> h' = g \<or> (\<exists>r w. stream_failed E r w n (copy_chunk o1) g h')
     | RPanic \<Rightarrow> True)"

lemma stream_failed_intro:
  assumes "stream_ends E r w n chunk 0 g (RErr x, h')"
  shows "stream_failed E r w n chunk g h'"
  using assms unfolding stream_ends_def stream_failed_def by (simp only: prod.case reply.case) blast

lemma stream_failed_close:
  assumes "tiles r w chunk 0 cs = Some n" "on_metadata E (g @ cs @ [CloseWriter w]) = RErr x"
  shows "stream_failed E r w n chunk g (g @ cs @ [CloseWriter w, AbortWriter w])"
  using assms unfolding stream_failed_def
  by (intro exI [of _ cs] exI [of _ n] exI [of _ "[CloseWriter w]"]) simp

text \<open>After both handles are open: the stream, its close, and the stat of the destination.\<close>

lemma copy_one_opened:
  assumes g: "g = stream_opened sop dop s d (o1\<lparr>co_hint := Some n\<rparr>) n h"
    and handles: "on_handle E (butlast g) = ROk r" "on_handle E g = ROk w"
    and loop: "stream_loop E r w n (copy_chunk o1) 0 g = Some (res1, h1)" and chunk: "copy_chunk o1 \<noteq> 0"
  shows "\<exists>res h'. copy_one E sop dop s d o1 False n h = Some (res, h') \<and> copy_one_ends E dop d o1 n g res h'"
proof -
  have same: "copy_chunk (o1\<lparr>co_hint := Some n\<rparr>) = copy_chunk o1" by (simp add: copy_chunk_def)
  note run = copy_one_def Let_def stream_copy_def invoke_def same copy_one_ends_def
  note opened = handles [unfolded g stream_opened_def, simplified butlast_append, simplified] loop [unfolded g stream_opened_def]
  from stream_loop_ends [OF chunk loop] have ends: "stream_ends E r w n (copy_chunk o1) 0 g (res1, h1)" by simp
  show ?thesis
  proof (cases res1)
    case k: (ROk k)
    with ends obtain cs where cs: "k = n" "h1 = g @ cs" "tiles r w (copy_chunk o1) 0 cs = Some n"
      by (auto simp: stream_ends_def)
    then have tiled: "\<exists>r cs'. h1 = g @ cs' \<and> tiles r w (copy_chunk o1) 0 cs' = Some n" by auto
    show ?thesis
    proof (cases "on_metadata E (h1 @ [CloseWriter w])")
      case (ROk m)
      then show ?thesis
        using opened k cs(1) tiled
        by (cases "on_metadata E (h1 @ [CloseWriter w, Stat (od_op dop) d default_stat_opts])") (simp_all add: run)
    next
      case (RErr x)
      with cs have "stream_failed E r w n (copy_chunk o1) g (h1 @ [CloseWriter w, AbortWriter w])"
        using stream_failed_close [of r w "copy_chunk o1" cs n E g x] by simp
      with opened k RErr show ?thesis by (auto simp: run abort_writer_def split: reply.split)
    next
      case RPanic
      with opened k show ?thesis by (simp add: run)
    qed
  next
    case (RErr x)
    with ends have "stream_failed E r w n (copy_chunk o1) g h1" by (simp add: stream_failed_intro)
    with opened RErr show ?thesis by (auto simp: run)
  next
    case RPanic
    with opened show ?thesis by (simp add: run)
  qed
qed

lemma copy_one_stream:
  assumes "co_chunk o1 \<noteq> Some 0" and g: "g = stream_opened sop dop s d (o1\<lparr>co_hint := Some n\<rparr>) n h"
  shows "\<exists>res h'. copy_one E sop dop s d o1 False n h = Some (res, h') \<and> copy_one_ends E dop d o1 n g res h'"
proof (cases "\<exists>r w. on_handle E (butlast g) = ROk r \<and> on_handle E g = ROk w")
  case True
  then obtain r w where handles: "on_handle E (butlast g) = ROk r" "on_handle E g = ROk w" by blast
  obtain res1 h1 where "stream_loop E r w n (copy_chunk o1) 0 g = Some (res1, h1)"
    using stream_loop_returns [OF copy_chunk_pos [OF assms(1)]] by (metis surj_pair)
  from copy_one_opened [OF g handles this copy_chunk_pos [OF assms(1)]] show ?thesis .
next
  case False
  then show ?thesis
    by (cases "on_handle E (butlast g)"; cases "on_handle E g")
      (auto simp: copy_one_def Let_def stream_copy_def invoke_def copy_one_ends_def g stream_opened_def butlast_append)
qed

section \<open>Plans\<close>

lemma glob_root_trimmed:
  assumes "trim_start_char CHR ''/'' s = s"
  shows "trim_start_char CHR ''/'' (glob_root s) = glob_root s"
proof (cases "glob_root s")
  case Nil
  then show ?thesis by (simp add: trim_start_char_def)
next
  case (Cons c cs)
  with glob_root_split [of s] have "hd s = c" "s \<noteq> []" by auto
  with assms have "c \<noteq> CHR ''/''" by (cases s) (auto simp: trim_start_char_def, metis impossible_Cons length_dropWhile_le)
  with Cons show ?thesis by (simp add: trim_start_char_def)
qed

lemma plan_pairs_glob:
  assumes "trim_start_char CHR ''/'' s = s"
  shows "list_all (\<lambda>(path, dest, _). \<exists>rel. path = glob_root s @ rel \<and> dest = join_dest d rel)
    (plan_pairs (glob_matches (trim_start_char CHR ''/'' s)) (glob_root s) d es)"
proof -
  from glob_root_trimmed [OF assms] have "glob_matches (trim_start_char CHR ''/'' s) path \<Longrightarrow> prefix (glob_root s) path" for path
    using glob_root_prefix [of s path] by simp
  then show ?thesis
    by (fastforce simp: plan_pairs_def list_all_iff prefix_def strip_base_prefix)
qed

lemma plan_pairs_paths: "map fst (plan_pairs keep base d es) = map fst (filter (\<lambda>(path, m). is_file m \<and> keep path) es)"
  by (simp add: plan_pairs_def case_prod_beta o_def)

text \<open>What opening a copy gives.\<close>

lemma copy_options_chunk: "copy_options raw = Inr o1 \<Longrightarrow> co_chunk o1 \<noteq> Some 0"
  by (auto simp: copy_options_def result_iff split: if_splits)

lemma plan_copy_Some:
  assumes "plan_copy E sop s d o1 err h k = (Ret (Some c), e, h')"
    and "\<And>pairs h1. k pairs h1 = (Ret (Some (mk pairs)), e1, h1)"
  shows "\<exists>pairs. c = mk pairs \<and> e = e1
    \<and> (if has_glob s then co_hint o1 = None \<and> co_source_version o1 = None \<and>
         (\<exists>es. on_entries E h' = ROk es
            \<and> pairs = plan_pairs (glob_matches (trim_start_char CHR ''/'' s)) (glob_root s) d es)
       else (\<exists>n. pairs = [(s, d, n)] \<and> (\<forall>hint. co_hint o1 = Some hint \<longrightarrow> hint = n)) \<or>
         co_hint o1 = None \<and> co_source_version o1 = None \<and>
         (\<exists>es. on_entries E h' = ROk es
            \<and> pairs = plan_pairs (\<lambda>_. True) (if suffix ''/'' s then s else s @ ''/'') d es))"
  using assms
  by (auto simp: plan_copy_def Let_def await_or_leave_def invoke_def split: if_splits reply.splits option.splits)

lemma copy_open_Some:
  assumes "od_table_copy_open E p source q destination raw err h = (Some c, e, h')"
  obtains a sop b dop s d o1 pairs where "p = Ptr a sop" "q = Ptr b dop" "cstr source = Some s" "cstr destination = Some d"
    "copy_options raw = Inr o1" "list_all (\<lambda>g. g = Inr ()) (copy_checks sop dop o1 (cc_same_op_copy c))"
    "c = \<lparr>cc_source_op = sop, cc_destination_op = dop, cc_options = o1,
       cc_same_op_copy = (a = b \<and> cap_copy (od_cap sop)), cc_plan = pairs, cc_current = None\<rparr>"
    "if has_glob s then co_hint o1 = None \<and> co_source_version o1 = None \<and>
         (\<exists>es. on_entries E h' = ROk es
            \<and> pairs = plan_pairs (glob_matches (trim_start_char CHR ''/'' s)) (glob_root s) d es)
       else (\<exists>n. pairs = [(s, d, n)] \<and> (\<forall>hint. co_hint o1 = Some hint \<longrightarrow> hint = n)) \<or>
         co_hint o1 = None \<and> co_source_version o1 = None \<and>
         (\<exists>es. on_entries E h' = ROk es
            \<and> pairs = plan_pairs (\<lambda>_. True) (if suffix ''/'' s then s else s @ ''/'') d es)"
proof -
  from assms have body: "od_table_copy_open_body E p source q destination raw err h = (Ret (Some c), e, h')"
    by (auto simp: od_table_copy_open_def ffi_guard_def split: prod.splits outcome.splits)
  then obtain a sop b dop s d o1 where parts: "p = Ptr a sop" "q = Ptr b dop" "cstr source = Some s"
    "cstr destination = Some d" "copy_options raw = Inr o1"
    by (auto simp: od_table_copy_open_body_def decode_or_leave_def value_or_leave_def
        split: ptr.splits option.splits sum.splits)
  let ?same = "a = b \<and> cap_copy (od_cap sop)"
  let ?mk = "\<lambda>pairs. \<lparr>cc_source_op = sop, cc_destination_op = dop, cc_options = o1,
       cc_same_op_copy = ?same, cc_plan = pairs, cc_current = None\<rparr>"
  from body parts have checks: "first_failure (copy_checks sop dop o1 ?same) = Inr ()"
    and plan: "plan_copy E sop s d o1 err h (\<lambda>pairs h1. (Ret (Some (?mk pairs)), set_ok err, h1)) = (Ret (Some c), e, h')"
    by (auto simp: od_table_copy_open_body_def decode_or_leave_def Let_def check_guard_def split: sum.splits)
  from plan_copy_Some [OF plan, of ?mk "set_ok err"] checks parts that [of a sop b dop s d o1] show ?thesis
    by (auto simp: first_failure_Inr_iff list_all_iff)
qed

section \<open>Scanning\<close>

text \<open>The client's step, which goes on after a failed copy, and what a step gives for a planned pair.\<close>

definition copy_step ::
  "env \<times> err_slot \<times> od_copy_cursor ptr \<times> od_copy_row \<times> history
     \<Rightarrow> (int \<times> od_copy_row \<times> env \<times> err_slot \<times> od_copy_cursor ptr \<times> od_copy_row \<times> history) option" where
  "copy_step = (\<lambda>(E, err, p, old, h).
     case od_copy_cursor_next E p (Some old) err h of
       Some (c, _, Some row, p', h') \<Rightarrow> Some (c, row, E, err, p', row, h')
     | _ \<Rightarrow> None)"

definition result_of :: "string \<times> string \<times> u64 \<Rightarrow> int \<times> od_copy_row \<Rightarrow> bool" where
  "result_of x y = (case x of (s, d, n) \<Rightarrow> case y of (r, row) \<Rightarrow>
     r = - 1 \<or> r = 1 \<and> cr_source row = Some s \<and> cr_destination row = Some d \<and> cr_bytes_copied row = n)"

definition copy_ready ::
  "env \<times> err_slot \<times> od_copy_cursor ptr \<times> od_copy_row \<times> history \<Rightarrow> (string \<times> string \<times> u64) list \<Rightarrow> bool" where
  "copy_ready = (\<lambda>(E, err, p, old, h) pairs. \<exists>a c. p = Ptr a c \<and> pairs = cc_plan c
     \<and> co_chunk (cc_options c) \<noteq> Some 0 \<and> \<not> cc_same_op_copy c)"

lemma copy_next_step:
  assumes "co_chunk (cc_options c) \<noteq> Some 0" "\<not> cc_same_op_copy c" "cc_plan c = x # plan"
  shows "\<exists>r e row c' h'. od_copy_cursor_next E (Ptr a c) (Some old) err h = Some (r, e, Some row, Ptr a c', h')
    \<and> result_of x (r, row) \<and> cc_plan c' = plan \<and> cc_options c' = cc_options c \<and> \<not> cc_same_op_copy c'"
proof -
  obtain s d n where x: "x = (s, d, n)" by (metis surj_pair)
  let ?copy = "copy_one E (cc_source_op c) (cc_destination_op c) s d (cc_options c) False n h"
  obtain res h' where res: "?copy = Some (res, h')" and "case res of ROk (k, _) \<Rightarrow> k = n | _ \<Rightarrow> True"
  proof -
    from copy_one_stream [OF assms(1) refl, of E "cc_source_op c" "cc_destination_op c" s d n h] that show ?thesis
      unfolding copy_one_ends_def by (fastforce split: reply.splits)
  qed
  then have bytes: "res = ROk (k, m) \<Longrightarrow> k = n" for k m by simp
  show ?thesis
  proof (cases res)
    case (ROk km)
    then obtain k m where km: "res = ROk (k, m)" by (metis surj_pair)
    with bytes have "k = n" by blast
    with assms x res km show ?thesis
      by (auto simp: od_copy_cursor_next_def od_copy_cursor_next_body_def ffi_guard_def Let_def result_of_def
          copy_row_of_def result_iff dest: owned_from_parts_path split: sum.split)
  qed (use assms x res in \<open>auto simp: od_copy_cursor_next_def od_copy_cursor_next_body_def ffi_guard_def Let_def result_of_def\<close>)
qed

interpretation copy_scan: row_cursor copy_step copy_ready result_of
proof
  fix s
  assume "copy_ready s []"
  then show "\<exists>r s'. copy_step s = Some (0, r, s')"
    by (cases s) (auto simp: copy_ready_def copy_step_def od_copy_cursor_next_def od_copy_cursor_next_body_def ffi_guard_def)
next
  fix s x plan
  assume "copy_ready s (x # plan)"
  then obtain E err a c old h where s: "s = (E, err, Ptr a c, old, h)" "cc_plan c = x # plan"
    "co_chunk (cc_options c) \<noteq> Some 0" "\<not> cc_same_op_copy c"
    by (cases s) (auto simp: copy_ready_def)
  from copy_next_step [OF s(3,4,2), of E a old err h] obtain r e row c' h' where
    "od_copy_cursor_next E (Ptr a c) (Some old) err h = Some (r, e, Some row, Ptr a c', h')"
    "result_of x (r, row)" "cc_plan c' = plan" "cc_options c' = cc_options c" "\<not> cc_same_op_copy c'" by blast
  with s show "\<exists>c r s'. copy_step s = Some (c, r, s') \<and> c \<noteq> 0 \<and> result_of x (c, r) \<and> copy_ready s' plan"
    by (auto simp: copy_step_def copy_ready_def result_of_def split: prod.splits)
qed

lemma server_copy_ends:
  assumes "server_copy E sop s d o1 n h = Some (res, h')"
  shows "case res of
      ROk (k, m) \<Rightarrow> \<exists>c copied g. on_handle E (h @ [CopierOptions (od_op sop) s d o1]) = ROk c
        \<and> copier_done E c 0 (h @ [CopierOptions (od_op sop) s d o1]) copied g
        \<and> h' = g @ [CopierClose c] \<and> on_metadata E h' = ROk m \<and> unat k = max (unat copied) (unat n)
    | RErr _ \<Rightarrow> h' = h @ [CopierOptions (od_op sop) s d o1]
        \<or> (\<exists>c k. h' = h @ CopierOptions (od_op sop) s d o1 # replicate (Suc k) (CopierNext c) @ [CopierAbort c])
        \<or> (\<exists>c g. h' = g @ [CopierClose c] \<and> (\<exists>x. on_metadata E h' = RErr x))
    | RPanic \<Rightarrow> True"
proof (cases "on_handle E (h @ [CopierOptions (od_op sop) s d o1])")
  case (ROk c)
  let ?g = "h @ [CopierOptions (od_op sop) s d o1]"
  from assms ROk obtain res1 h1 where loop: "copier_loop E c 0 ?g = Some (res1, h1)"
    by (cases "copier_loop E c 0 ?g") (auto simp: server_copy_def invoke_def)
  note ends = copier_loop_ends [OF loop, unfolded copier_ends_def]
  show ?thesis
  proof (cases res1)
    case fin: (ROk copied)
    with ends have "copier_done E c 0 ?g copied h1" by simp
    with assms ROk loop fin show ?thesis
      by (cases "on_metadata E (h1 @ [CopierClose c])")
        (auto simp: server_copy_def invoke_def max_def word_le_nat_alt)
  next
    case (RErr x)
    with assms ROk loop ends show ?thesis by (auto simp: server_copy_def invoke_def)
  next
    case RPanic
    with assms ROk loop show ?thesis by (auto simp: server_copy_def invoke_def)
  qed
qed (use assms in \<open>auto simp: server_copy_def invoke_def\<close>)

section \<open>A service with one file\<close>

definition file_env :: "bytes \<Rightarrow> env" where
  "file_env file = calm_env\<lparr>on_bytes := \<lambda>h. (case last h of
     ReadRange _ a b \<Rightarrow> ROk (take (unat b - unat a) (drop (unat a) file)) | _ \<Rightarrow> ROk [])\<rparr>"

lemma file_env_simps [simp]:
  "serves_range (file_env file) r file" "accepts (file_env file) w" "on_handle (file_env file) h = ROk (length h)"
  "on_metadata (file_env file) h = ROk plain_file" "on_entries (file_env file) h = ROk []"
  "get_basename (file_env file) p = p" "on_unit (file_env file) h = ROk ()"
  by (simp_all add: file_env_def serves_range_def accepts_def) (simp add: calm_env_def)

definition two_byte_chunks :: copy_opts where
  "two_byte_chunks = \<lparr>co_if_not_exists = False, co_if_match = None, co_source_version = None, co_hint = None,
     co_concurrent = 0, co_chunk = Some 2\<rparr>"

definition no_copy_options :: od_copy_options where
  "no_copy_options = \<lparr>cp_if_not_exists = 0, cp_if_match = None, cp_source_version = None, cp_hint = 0,
     cp_has_hint = 0, cp_concurrent = 0, cp_has_concurrent = 0, cp_chunk_size = 2, cp_has_chunk_size = 1\<rparr>"

section \<open>Properties\<close>

text \<open>
  C7: a stream copy delivers the file: from a source that serves the file by ranges and a
  destination that takes every write, it returns, the writer is given exactly the file's bytes in
  order before its one close, whatever the chunk size, and the number reported is the file's size.
\<close>

theorem copy_stream_faithful:
  assumes "on_handle E (h @ [ReaderOptions (od_op sop) s (copy_reader_options (o1\<lparr>co_hint := Some n\<rparr>) n)]) = ROk r"
    and "on_handle E (stream_opened sop dop s d (o1\<lparr>co_hint := Some n\<rparr>) n h) = ROk w"
    and "serves_range E r file" "accepts E w" "length file = unat n" "co_chunk o1 \<noteq> Some 0" "payload w h = []"
    and "\<And>g. on_metadata E (g @ [CloseWriter w]) = ROk m"
    and "\<And>g. on_metadata E (g @ [Stat (od_op dop) d default_stat_opts]) \<noteq> RPanic"
  shows "\<exists>g m'. copy_one E sop dop s d o1 False n h =
      Some (ROk (n, m'), g @ [CloseWriter w, Stat (od_op dop) d default_stat_opts]) \<and> payload w g = file"
proof -
  let ?o = "o1\<lparr>co_hint := Some n\<rparr>"
  let ?g = "h @ [ReaderOptions (od_op sop) s (copy_reader_options ?o n), WriterOptions (od_op dop) d (copy_writer_options ?o)]"
  have chunk: "copy_chunk ?o = copy_chunk o1" by (simp add: copy_chunk_def)
  from stream_loop_copies [OF assms(3,4) copy_chunk_pos [OF assms(6)] assms(5), of 0 ?g] assms(7)
  obtain g where g: "stream_loop E r w n (copy_chunk o1) 0 ?g = Some (ROk n, g)" "payload w g = file"
    by (auto simp: word_le_nat_alt)
  have closed: "on_metadata E (g @ [CloseWriter w]) = ROk m" by (rule assms(8))
  have "on_metadata E ((g @ [CloseWriter w]) @ [Stat (od_op dop) d default_stat_opts]) \<noteq> RPanic" by (rule assms(9))
  with closed g assms(1,2) show ?thesis
    by (cases "on_metadata E (g @ [CloseWriter w, Stat (od_op dop) d default_stat_opts])")
      (auto simp: copy_one_def Let_def stream_copy_def invoke_def chunk stream_opened_def)
qed

theorem copy_stream_faithful_witness:
  "\<exists>g m'. copy_one (file_env ''abcde'') full_operator full_operator ''a'' ''b'' two_byte_chunks False 5 [] =
      Some (ROk (5, m'), g @ [CloseWriter 2, Stat (od_op full_operator) ''b'' default_stat_opts]) \<and> payload 2 g = ''abcde''"
  by (rule copy_stream_faithful [where r = 1 and m = plain_file])
    (simp_all add: stream_opened_def two_byte_chunks_def)

text \<open>
  C6: the discipline of a stream copy, against any service: it always returns; success means that
  reads of consecutive ranges of at most a chunk, each followed by its write, cover the source
  from 0 to its size, then one close and no abort; a failure leaves nothing behind: the reader or
  the writer could not be opened, or a read, a write or the close was rejected and the abort of
  the writer is the next and last call.
\<close>

theorem copy_stream_discipline:
  assumes "co_chunk o1 \<noteq> Some 0"
  shows "\<exists>res h'. copy_one E sop dop s d o1 False n h = Some (res, h')
    \<and> (case res of
         ROk (k, _) \<Rightarrow> k = n \<and> (\<exists>r w cs.
             h' = stream_opened sop dop s d (o1\<lparr>co_hint := Some n\<rparr>) n h @ cs @ [CloseWriter w, Stat (od_op dop) d default_stat_opts]
             \<and> tiles r w (copy_chunk o1) 0 cs = Some n)
       | RErr _ \<Rightarrow> h' = butlast (stream_opened sop dop s d (o1\<lparr>co_hint := Some n\<rparr>) n h)
           \<or> h' = stream_opened sop dop s d (o1\<lparr>co_hint := Some n\<rparr>) n h
           \<or> (\<exists>r w. stream_failed E r w n (copy_chunk o1) (stream_opened sop dop s d (o1\<lparr>co_hint := Some n\<rparr>) n h) h')
       | RPanic \<Rightarrow> True)"
  using copy_one_stream [OF assms refl] unfolding copy_one_ends_def .

theorem copy_stream_discipline_witness:
  "\<exists>res h'. copy_one calm_env full_operator full_operator ''a'' ''b'' two_byte_chunks False 5 [] = Some (res, h')"
  using copy_stream_discipline [of two_byte_chunks calm_env full_operator full_operator "''a''" "''b''" 5 "[]"]
  by (auto simp: two_byte_chunks_def)

text \<open>
  C29: a copy on the server, when the copier stops making progress at some call: it returns, and success means that the copier was stepped until it
  said that it is done and then closed, and the number reported is the larger of the sum of its
  steps, added without wrap-around, and the source's size; a failed or overflowing step is
  followed by the copier's abort and nothing else.
\<close>

theorem server_copy_result:
  assumes "\<And>c. \<exists>k. \<forall>step.
      on_progress E ((h @ [CopierOptions (od_op sop) s d o1]) @ replicate (Suc k) (CopierNext c)) \<noteq> ROk (Some step)"
  shows "\<exists>res h'. server_copy E sop s d o1 n h = Some (res, h') \<and> (case res of
      ROk (k, m) \<Rightarrow> \<exists>c copied g. on_handle E (h @ [CopierOptions (od_op sop) s d o1]) = ROk c
        \<and> copier_done E c 0 (h @ [CopierOptions (od_op sop) s d o1]) copied g
        \<and> h' = g @ [CopierClose c] \<and> on_metadata E h' = ROk m \<and> unat k = max (unat copied) (unat n)
    | RErr _ \<Rightarrow> h' = h @ [CopierOptions (od_op sop) s d o1]
        \<or> (\<exists>c k. h' = h @ CopierOptions (od_op sop) s d o1 # replicate (Suc k) (CopierNext c) @ [CopierAbort c])
        \<or> (\<exists>c g. h' = g @ [CopierClose c] \<and> (\<exists>x. on_metadata E h' = RErr x))
    | RPanic \<Rightarrow> True)"
proof -
  let ?g = "h @ [CopierOptions (od_op sop) s d o1]"
  have loops: "\<exists>res. copier_loop E c 0 ?g = Some res" for c
    using assms [of c] copier_loop_returns by meson
  have "\<exists>res h'. server_copy E sop s d o1 n h = Some (res, h')"
  proof (cases "on_handle E ?g")
    case (ROk c)
    obtain r g where "copier_loop E c 0 ?g = Some (r, g)" using loops [of c] by auto
    with ROk show ?thesis
      by (cases r; cases "on_metadata E (g @ [CopierClose c])") (auto simp: server_copy_def invoke_def)
  qed (simp_all add: server_copy_def invoke_def)
  with server_copy_ends show ?thesis by meson
qed

theorem server_copy_result_witness:
  "\<exists>c copied g. on_handle calm_env [CopierOptions (od_op full_operator) ''a'' ''b'' two_byte_chunks] = ROk c
     \<and> copier_done calm_env c 0 [CopierOptions (od_op full_operator) ''a'' ''b'' two_byte_chunks] copied g"
proof -
  have "server_copy calm_env full_operator ''a'' ''b'' two_byte_chunks 5 [] =
      Some (ROk (5, plain_file), [CopierOptions (od_op full_operator) ''a'' ''b'' two_byte_chunks, CopierNext 1, CopierClose 1])"
    by (simp add: server_copy_def invoke_def copier_loop.simps)
  moreover have "on_progress calm_env g \<noteq> ROk (Some step)" for g step by simp
  ultimately show ?thesis using server_copy_result [of calm_env "[]" full_operator "''a''" "''b''" two_byte_chunks 5] by auto
qed

text \<open>
  The plan of a glob copy: exactly the files that match, with their sizes, in the listing's
  order, each keeping its path relative to the fixed part of the pattern, and no two different
  source paths share a destination (for a pattern without a leading slash).
\<close>

lemma copy_plan_relative:
  assumes "od_table_copy_open E p (Some s) q (Some d) raw err h = (Some c, e, h')"
    and "has_glob s" "trim_start_char CHR ''/'' s = s"
  shows "\<exists>es. on_entries E h' = ROk es
    \<and> map (\<lambda>(path, _, n). (path, n)) (cc_plan c)
        = map (\<lambda>(path, m). (path, content_length m)) (filter (\<lambda>(path, m). is_file m \<and> glob_matches s path) es)
    \<and> list_all (\<lambda>(path, dest, _). \<exists>rel. path = glob_root s @ rel \<and> dest = join_dest d rel) (cc_plan c)
    \<and> (distinct (map fst es) \<longrightarrow> distinct (map (fst \<circ> snd) (cc_plan c)))"
proof -
  from assms(1,2) obtain es where es: "on_entries E h' = ROk es"
    and plan: "cc_plan c = plan_pairs (glob_matches s) (glob_root s) d es"
    by (elim copy_open_Some) (auto simp: cstr_def assms(3) split: if_splits)
  have rel: "list_all (\<lambda>(path, dest, _). \<exists>rel. path = glob_root s @ rel \<and> dest = join_dest d rel) (cc_plan c)"
    using plan_pairs_glob [OF assms(3), of d es] by (simp add: plan assms(3))
  have "distinct (map (fst \<circ> snd) (cc_plan c))" if "distinct (map fst es)"
  proof -
    have "distinct (map fst (cc_plan c))"
      unfolding plan plan_pairs_paths using that by (simp add: distinct_map_filter)
    then have "distinct (cc_plan c)" "inj_on fst (set (cc_plan c))" by (simp_all add: distinct_map)
    moreover have "inj_on (fst \<circ> snd) (set (cc_plan c))"
    proof (rule inj_onI)
      fix x y assume xy: "x \<in> set (cc_plan c)" "y \<in> set (cc_plan c)" "(fst \<circ> snd) x = (fst \<circ> snd) y"
      have "\<exists>r. fst z = glob_root s @ r \<and> fst (snd z) = join_dest d r" if "z \<in> set (cc_plan c)" for z
        using rel that by (auto simp: list_all_iff case_prod_beta)
      from this [OF xy(1)] this [OF xy(2)] xy(3) have "fst x = fst y" by (auto simp: join_dest_inj)
      with \<open>inj_on fst (set (cc_plan c))\<close> xy(1,2) show "x = y" by (auto dest: inj_onD)
    qed
    ultimately show ?thesis by (simp add: distinct_map)
  qed
  with es rel show ?thesis
    by (auto simp: plan plan_pairs_def case_prod_beta o_def intro!: exI [of _ es])
qed

text \<open>An environment whose listings are the given entries.\<close>

definition tree_env :: "entry list \<Rightarrow> env" where
  "tree_env es = calm_env\<lparr>on_entries := \<lambda>_. ROk es\<rparr>"

lemma tree_env_simps [simp]: "on_entries (tree_env es) h = ROk es" "on_metadata (tree_env es) h = ROk plain_file"
  by (simp_all add: tree_env_def)

lemma copy_open_glob:
  assumes "utf8_valid s" "utf8_valid d" "has_glob s"
    and "on_entries E (h @ [ListOptions (od_op full_operator) (glob_root s) (default_list_opts\<lparr>lo_recursive := True\<rparr>)]) = ROk es"
  shows "\<exists>h'. od_table_copy_open E (Ptr 1 full_operator) (Some s) (Ptr 2 full_operator) (Some d) no_copy_options None h =
    (Some \<lparr>cc_source_op = full_operator, cc_destination_op = full_operator,
       cc_options = two_byte_chunks, cc_same_op_copy = False,
       cc_plan = plan_pairs (glob_matches (trim_start_char CHR ''/'' s)) (glob_root s) d es, cc_current = None\<rparr>, None, h')"
proof -
  have "copy_options no_copy_options = Inr two_byte_chunks"
    by (simp add: copy_options_def no_copy_options_def two_byte_chunks_def optional_cstr_def)
  then show ?thesis
    using assms
    by (simp add: od_table_copy_open_def od_table_copy_open_body_def ffi_guard_def decode_or_leave_def cstr_def
        copy_checks_def require_def require_option_def full_operator_def plan_copy_def Let_def invoke_def)
      (simp add: two_byte_chunks_def)
qed

lemmas copy_open_full = copy_open_glob [where E = "tree_env es" and h = "[]" and es = es for es, OF _ _ _ tree_env_simps(1)]

text \<open>
  C37: a glob source with a leading slash loses the relative path: the keys a listing returns have
  no leading slash, so the base is never a prefix of them, and every planned destination is the
  destination joined with the whole key (\<open>/d/*.csv\<close> to \<open>out\<close> writes \<open>out/d/a.csv\<close>, while
  \<open>d/*.csv\<close> writes \<open>out/a.csv\<close>), although the pattern itself is matched without the slash.
\<close>

theorem copy_leading_slash:
  assumes "od_table_copy_open E p (Some (CHR ''/'' # t)) q (Some d) raw err h = (Some c, e, h')"
    and "has_glob t" "on_entries E h' = ROk es" "list_all (\<lambda>x. \<not> prefix ''/'' (fst x)) es"
  shows "list_all (\<lambda>(path, dest, _). dest = join_dest d path) (cc_plan c)"
proof -
  let ?s = "CHR ''/'' # t"
  from assms(2) have glob: "has_glob ?s" by (simp add: has_glob_def)
  with assms(1,3) obtain keep where plan: "cc_plan c = plan_pairs keep (glob_root ?s) d es"
    by (elim copy_open_Some) (auto simp: cstr_def split: if_splits)
  obtain rest where root: "?s = glob_root ?s @ rest" using glob_root_split [of ?s] by blast
  have "glob_root ?s \<noteq> []"
    by (simp add: glob_root_def is_wildcard_def split: option.splits)
  with root have "prefix ''/'' (glob_root ?s)" by (cases "glob_root ?s") simp_all
  then have "\<not> prefix (glob_root ?s) path" if "\<not> prefix ''/'' path" for path
    using that prefix_order.trans by blast
  with assms(4) show ?thesis
    by (auto simp: plan plan_pairs_def list_all_iff strip_base_def strip_prefix_def)
qed

theorem copy_leading_slash_witness:
  "\<exists>c :: od_copy_cursor. map (fst \<circ> snd) (cc_plan c) = [''out/d/a.csv'']
     \<and> list_all (\<lambda>(path, dest, _). dest = join_dest ''out'' path) (cc_plan c)"
proof -
  let ?es = "[(''d/a.csv'', plain_file)]"
  have s: "utf8_valid ''/d/*.csv''" "utf8_valid ''out''" "has_glob ''/d/*.csv''" "has_glob ''d/*.csv''"
    "trim_start_char CHR ''/'' ''/d/*.csv'' = ''d/*.csv''" "glob_root ''/d/*.csv'' = ''/d/''"
    by (simp_all add: is_ascii_def has_glob_def is_wildcard_def trim_start_char_def glob_root_def)
  have t: "tokenize ''d/*.csv'' = map Lit ''d/'' @ Seg # map Lit ''.csv''" by (simp add: tokenize.simps)
  from copy_open_full [OF s(1-3), of ?es] obtain c h' where
    c: "od_table_copy_open (tree_env ?es) (Ptr 1 full_operator) (Some ''/d/*.csv'') (Ptr 2 full_operator) (Some ''out'') no_copy_options None []
        = (Some c, None, h')" "cc_plan c = plan_pairs (glob_matches ''d/*.csv'') ''/d/'' ''out'' ?es"
    by (auto simp: s)
  have "map (fst \<circ> snd) (cc_plan c) = [''out/d/a.csv'']"
    by (simp add: c(2) plan_pairs_def is_file_def plain_file_def glob_matches_gmatch gmatch_def t strip_base_def
        strip_prefix_def join_dest_def)
  moreover have "list_all (\<lambda>(path, dest, _). dest = join_dest ''out'' path) (cc_plan c)"
    using copy_leading_slash [OF c(1) s(4), of ?es] by simp
  ultimately show ?thesis by (intro exI conjI)
qed



text \<open>
  A streamed copy scan ends and accounts for every file: stepping an opened cursor, also past
  failed copies, returns every time and gives one result per planned pair, in order, each either
  an error or a row with the pair's source and destination and the planned number of bytes.
\<close>

lemma copy_scan_accounts:
  assumes "od_table_copy_open E p source q destination raw err h = (Some c, e, h')" and "\<not> cc_same_op_copy c"
  shows "\<exists>rs. collect copy_step (Suc (length (cc_plan c))) (E, slot, Ptr a c, old, h') = Some rs
    \<and> list_all2 result_of (cc_plan c) rs"
proof -
  from assms(1) have "co_chunk (cc_options c) \<noteq> Some 0"
    by (elim copy_open_Some) (auto dest: copy_options_chunk)
  with assms(2) have "copy_ready (E, slot, Ptr a c, old, h') (cc_plan c)" by (simp add: copy_ready_def)
  then show ?thesis by (rule copy_scan.scan) simp
qed

end
