(* ===== verification/Boundary.thy ===== *)
theory Boundary
  imports Uri Stat Reader Writer Mutate Cursor Du Copy
begin

text \<open>
  The C interface as one boundary: the entry points with an error slot as an inductive predicate, what
  each of them reports (collected in \<open>entry_reports\<close>), and the contract they all keep.
\<close>

section \<open>The boundary as a whole\<close>

text \<open>
  \<open>boundary_call e0 bad e\<close>: some entry point with an error slot, called with any arguments and the
  slot \<open>e0\<close>, returned and left \<open>e\<close> in the slot; \<open>bad\<close> says that its value is the one it documents for
  failure.  (\<open>od_stat\<close> has no value: see \<open>od_stat_contract\<close>.)
\<close>

inductive boundary_call :: "err_slot \<Rightarrow> bool \<Rightarrow> err_slot \<Rightarrow> bool" where
  Init: "od_init c cell e0 = (v, e, x1) \<Longrightarrow> boundary_call e0 (v = - 1) e"
| Schemes: "od_schemes reg sch e0 = (v2, e, x2) \<Longrightarrow> boundary_call e0 (v2 = None) e"
| UrlResolve: "od_url_resolve P reg url out3 e0 = (v, e, x3) \<Longrightarrow> boundary_call e0 (v = - 1) e"
| OperatorNew: "od_operator_new E S te uri ks vs n oks ovs on ns e0 h = (v4, e, x4) \<Longrightarrow> boundary_call e0 (v4 = None) e"
| Capabilities: "od_capabilities to_json p e0 = (v5, e, x5) \<Longrightarrow> boundary_call e0 (v5 = None) e"
| Exists: "od_exists E p path e0 h = (v, e, x6) \<Longrightarrow> boundary_call e0 (v = - 1) e"
| DirExists: "od_dir_exists E p path e0 h = (v, e, x6) \<Longrightarrow> boundary_call e0 (v = - 1) e"
| ListAll: "od_list E p path recursive e0 h = (v7, e, x7) \<Longrightarrow> boundary_call e0 (v7 = None) e"
| ListEntry: "od_list_entry E l i out8 e0 = (v8, e, x8) \<Longrightarrow> boundary_call e0 (v8 = 0) e"
| ReaderOpen: "od_reader_open E p path e0 h = (v9, e, x9) \<Longrightarrow> boundary_call e0 (v9 = None) e"
| ReaderRead: "od_reader_read E rd offset len buf e0 h = (v, e, x10) \<Longrightarrow> boundary_call e0 (v = - 1) e"
| WriterOpen: "od_writer_open E p path e0 h = (v11, e, x11) \<Longrightarrow> boundary_call e0 (v11 = None) e"
| WriterWrite: "od_writer_write E w data len e0 h = (v, e, x12) \<Longrightarrow> boundary_call e0 (v = - 1) e"
| WriterClose: "od_writer_close E w e0 h = (v, e, x12) \<Longrightarrow> boundary_call e0 (v = - 1) e"
| WriterAbort: "od_writer_abort E w e0 h = (v, e, x12) \<Longrightarrow> boundary_call e0 (v = - 1) e"
| CreateDir: "od_create_dir E p path e0 h = (v, e, x6) \<Longrightarrow> boundary_call e0 (v = - 1) e"
| Remove: "od_remove E p path recursive e0 h = (v, e, x6) \<Longrightarrow> boundary_call e0 (v = - 1) e"
| Rename: "od_rename E p path target e0 h = (v, e, x6) \<Longrightarrow> boundary_call e0 (v = - 1) e"
| CopyFile: "od_copy E p path target e0 h = (v, e, x6) \<Longrightarrow> boundary_call e0 (v = - 1) e"
| StatOpen: "od_table_stat_open E p path so e0 h = (v13, e, x13) \<Longrightarrow> boundary_call e0 (v13 = None) e"
| ListOpen: "od_table_list_open E p path glob lo e0 h = (v13, e, x13) \<Longrightarrow> boundary_call e0 (v13 = None) e"
| GlobOpen: "od_table_glob_open E p path lo e0 h = (v13, e, x13) \<Longrightarrow> boundary_call e0 (v13 = None) e"
| CursorNext: "od_table_cursor_next E tc row e0 h = Some (v, e, x14) \<Longrightarrow> boundary_call e0 (v = - 1) e"
| DuOpen: "od_table_du_open E p path lo e0 h = (v15, e, x15) \<Longrightarrow> boundary_call e0 (v15 = None) e"
| DuNext: "od_du_cursor_next dc drow e0 = (v, e, x16) \<Longrightarrow> boundary_call e0 (v = - 1) e"
| CopyOpen: "od_table_copy_open E p path q target co e0 h = (v17, e, x17) \<Longrightarrow> boundary_call e0 (v17 = None) e"
| CopyNext: "od_copy_cursor_next E cc crow e0 h = Some (v, e, x18) \<Longrightarrow> boundary_call e0 (v = - 1) e"

named_theorems entry_reports "what each entry point reports"

text \<open>The entry points that have no interpretation of their own.\<close>

lemma reports_init [entry_reports]: "od_init c cell e0 = (v, e, x) \<Longrightarrow> reports e0 (v = - 1) e"
  by (auto simp: od_init_def ffi_guard_def reports_intro split: prod.splits sum.splits)

lemma reports_capabilities [entry_reports]: "od_capabilities to_json p e0 = (v, e, x) \<Longrightarrow> reports e0 (v = None) e"
  by (auto simp: od_capabilities_def ffi_guard_def reports_intro split: ptr.splits)

lemma reports_schemes [entry_reports]:
  assumes "od_schemes reg cell e0 = (v, e, x)"
  shows "reports e0 (v = None) e"
  using assms
  by (auto simp: od_schemes_def ffi_guard_def Let_def reports_intro eq_commute [of "Some _"] split: prod.splits option.splits)

lemma reports_url_resolve [entry_reports]:
  assumes "od_url_resolve P reg url out e0 = (v, e, x)"
  shows "reports e0 (v = - 1) e"
proof -
  have "c \<noteq> CodeOk" if "resolve P reg url = Ret (Inl (c, msg))" for c msg
    using that by (auto simp: resolve_def Let_def split: option.splits if_splits prod.splits)
  with assms show ?thesis
    by (auto simp: od_url_resolve_def ffi_guard_def Let_def reports_intro split: prod.splits option.splits outcome.splits sum.splits)
qed

lemma reports_mutation:
  assumes "(v, e, x) \<in> {od_create_dir E p s e0 h, od_remove E p s recursive e0 h,
      od_rename E p s t e0 h, od_copy E p s t e0 h}"
  shows "reports e0 (v = - 1) e"
proof -
  from mutations_contract [OF assms] have "reports e0 (v \<noteq> 0) e" "v = 0 \<or> v = - 1" by auto
  then show ?thesis by (cases "v = 0") auto
qed

lemma reports_mutations [entry_reports]:
  "od_create_dir E p s e0 h = (v, e, x) \<Longrightarrow> reports e0 (v = - 1) e"
  "od_remove E p s recursive e0 h = (v, e, x) \<Longrightarrow> reports e0 (v = - 1) e"
  "od_rename E p s t e0 h = (v, e, x) \<Longrightarrow> reports e0 (v = - 1) e"
  "od_copy E p s t e0 h = (v, e, x) \<Longrightarrow> reports e0 (v = - 1) e"
  using reports_mutation [of v e x E p s e0 h recursive t] by auto

text \<open>The others, by the contract of the locale.\<close>

lemma reports_operator_new [entry_reports]:
  "od_operator_new E S te uri ks vs n oks ovs on ns e0 h = (v, e, x) \<Longrightarrow> reports e0 (v = None) e"
  using operator_new.entry_reports [of "''od_operator_new''" "(E, S, te, uri, ks, vs, n, oks, ovs, on, ns, h)" e0 v e x] by (simp add: od_operator_new_def)

lemma reports_exists_entry [entry_reports]:
  "od_exists E p path e0 h = (v, e, x) \<Longrightarrow> reports e0 (v = - 1) e"
  using exists_entry.entry_reports [of "''od_exists''" "(E, p, path, h)" e0 v e x] by (simp add: od_exists_def)

lemma reports_dir_exists [entry_reports]:
  "od_dir_exists E p path e0 h = (v, e, x) \<Longrightarrow> reports e0 (v = - 1) e"
  using dir_exists.entry_reports [of "''od_dir_exists''" "(E, p, path, h)" e0 v e x] by (simp add: od_dir_exists_def)

lemma reports_list_open [entry_reports]:
  "od_list E p path r e0 h = (v, e, x) \<Longrightarrow> reports e0 (v = None) e"
  using list_open.entry_reports [of "''od_list''" "(E, p, path, r, h)" e0 v e x] by (simp add: od_list_def)

lemma reports_list_entry [entry_reports]:
  "od_list_entry E l i out e0 = (v, e, x) \<Longrightarrow> reports e0 (v = 0) e"
  using list_entry.entry_reports [of "''od_list_entry''" "(E, l, i, out)" e0 v e x] by (simp add: od_list_entry_def)

lemma reports_reader_open [entry_reports]:
  "od_reader_open E p path e0 h = (v, e, x) \<Longrightarrow> reports e0 (v = None) e"
  using reader_open.entry_reports [of "''od_reader_open''" "(E, p, path, h)" e0 v e x] by (simp add: od_reader_open_def)

lemma reports_reader_read [entry_reports]:
  "od_reader_read E p off n buf e0 h = (v, e, x) \<Longrightarrow> reports e0 (v = - 1) e"
  using reader_read.entry_reports [of "''od_reader_read''" "(E, p, off, n, buf, h)" e0 v e x] by (simp add: od_reader_read_def)

lemma reports_writer_open [entry_reports]:
  "od_writer_open E p path e0 h = (v, e, x) \<Longrightarrow> reports e0 (v = None) e"
  using writer_open.entry_reports [of "''od_writer_open''" "(E, p, path, h)" e0 v e x] by (simp add: od_writer_open_def)

lemma reports_writer_write [entry_reports]:
  "od_writer_write E w data n e0 h = (v, e, x) \<Longrightarrow> reports e0 (v = - 1) e"
  using writer_write.entry_reports [of "''od_writer_write''" "(E, w, data, n, h)" e0 v e x] by (simp add: od_writer_write_def)

lemma reports_writer_close [entry_reports]:
  "od_writer_close E w e0 h = (v, e, x) \<Longrightarrow> reports e0 (v = - 1) e"
  using writer_close.entry_reports [of "''od_writer_close''" "(E, w, h)" e0 v e x] by (simp add: od_writer_close_def)

lemma reports_writer_abort [entry_reports]:
  "od_writer_abort E w e0 h = (v, e, x) \<Longrightarrow> reports e0 (v = - 1) e"
  using writer_abort.entry_reports [of "''od_writer_abort''" "(E, w, h)" e0 v e x] by (simp add: od_writer_abort_def)

lemma reports_table_stat_open [entry_reports]:
  "od_table_stat_open E p path raw e0 h = (v, e, x) \<Longrightarrow> reports e0 (v = None) e"
  using table_stat_open.entry_reports [of "''od_table_stat_open''" "(E, p, path, raw, h)" e0 v e x] by (simp add: od_table_stat_open_def)

lemma reports_table_list_open [entry_reports]:
  "od_table_list_open E p path glob raw e0 h = (v, e, x) \<Longrightarrow> reports e0 (v = None) e"
  using table_list_open.entry_reports [of "''od_table_list_open''" "(E, p, path, glob, raw, h)" e0 v e x] by (simp add: od_table_list_open_def)

lemma reports_table_glob_open [entry_reports]:
  "od_table_glob_open E p path raw e0 h = (v, e, x) \<Longrightarrow> reports e0 (v = None) e"
  using table_glob_open.entry_reports [of "''od_table_glob_open''" "(E, p, path, raw, h)" e0 v e x] by (simp add: od_table_glob_open_def)

lemma reports_table_du_open [entry_reports]:
  "od_table_du_open E p path raw e0 h = (v, e, x) \<Longrightarrow> reports e0 (v = None) e"
  using table_du_open.entry_reports [of "''od_table_du_open''" "(E, p, path, raw, h)" e0 v e x] by (simp add: od_table_du_open_def)

lemma reports_du_cursor_next [entry_reports]:
  "od_du_cursor_next c row e0 = (v, e, x) \<Longrightarrow> reports e0 (v = - 1) e"
  using du_cursor_next.entry_reports [of "''od_du_cursor_next''" "(c, row)" e0 v e x] by (simp add: od_du_cursor_next_def)

lemma reports_table_copy_open [entry_reports]:
  "od_table_copy_open E p path q target raw e0 h = (v, e, x) \<Longrightarrow> reports e0 (v = None) e"
  using table_copy_open.entry_reports [of "''od_table_copy_open''" "(E, p, path, q, target, raw, h)" e0 v e x] by (simp add: od_table_copy_open_def)



end
