(* ===== verification/Store.thy ===== *)
theory Store
  imports Boundary
begin

text \<open>
  What the entry points do to the files of a service.  The service itself is not part of the
  repository; its documented behaviour is a contract between its replies and a view of its files
  after each call (\<open>object_store\<close>: what an acknowledged call has done, what a reply says, and that a
  call touches nothing but the paths it names), and, for the theorems that need calls to succeed,
  \<open>dependable\<close>.  An in-memory store shows that the contract can be met.  On it rest the end-to-end
  theorems: a file written through the boundary is the file that is found, measured, read and
  listed; mutations implement operations on the tree; copies, streamed or on the server, publish
  the source's bytes.
\<close>

section \<open>Trees and handles\<close>

datatype node = FileNode bytes | DirNode

type_synonym tree = "string \<Rightarrow> node option"

text \<open>The tree of each service after each history.\<close>

type_synonym view = "history \<Rightarrow> nat \<Rightarrow> tree"

text \<open>The calls that open a handle on a path, and the path: for a copier, its destination.\<close>

fun opens :: "call \<Rightarrow> (nat \<times> string) option" where
  "opens (ReaderWith op p _ _) = Some (service op, p)"
| "opens (ReaderOptions op p _) = Some (service op, p)"
| "opens (WriterWith op p _ _) = Some (service op, p)"
| "opens (WriterOptions op p _) = Some (service op, p)"
| "opens (CopierOptions op _ t _) = Some (service op, t)"
| "opens _ = None"

fun opens_writer :: "call \<Rightarrow> bool" where
  "opens_writer (WriterWith _ _ _ _) \<longleftrightarrow> True"
| "opens_writer (WriterOptions _ _ _) \<longleftrightarrow> True"
| "opens_writer _ \<longleftrightarrow> False"

text \<open>Whether the last call of a history gave the handle.\<close>

definition gives :: "env \<Rightarrow> history \<Rightarrow> call \<Rightarrow> nat \<Rightarrow> bool" where
  "gives E h c n \<longleftrightarrow> opens c \<noteq> None \<and> on_handle E (h @ [c]) = ROk n"

text \<open>The history up to the call that gave a handle; the functions below recur on a reversed history.\<close>

fun opened_rev :: "env \<Rightarrow> nat \<Rightarrow> history \<Rightarrow> history option" where
  "opened_rev E n [] = None"
| "opened_rev E n (c # r) = (if gives E (rev r) c n then Some (rev (c # r)) else opened_rev E n r)"

definition opened :: "env \<Rightarrow> history \<Rightarrow> nat \<Rightarrow> history option" where
  "opened E h n = opened_rev E n (rev h)"

definition key :: "env \<Rightarrow> history \<Rightarrow> nat \<Rightarrow> (nat \<times> string) option" where
  "key E h n = Option.bind (opened E h n) (\<lambda>h0. opens (last h0))"

text \<open>What an open writer has accepted, when every write since it was opened was acknowledged.\<close>

fun pending_rev :: "env \<Rightarrow> nat \<Rightarrow> history \<Rightarrow> bytes option" where
  "pending_rev E n [] = None"
| "pending_rev E n (c # r) =
     (if gives E (rev r) c n then (if opens_writer c then Some [] else None)
      else case c of
          Write k d \<Rightarrow>
            if k = n then (if on_unit E (rev (c # r)) = ROk () then map_option (\<lambda>b. b @ d) (pending_rev E n r) else None)
            else pending_rev E n r
        | CloseWriter k \<Rightarrow> if k = n then None else pending_rev E n r
        | AbortWriter k \<Rightarrow> if k = n then None else pending_rev E n r
        | _ \<Rightarrow> pending_rev E n r)"

definition pending :: "env \<Rightarrow> history \<Rightarrow> nat \<Rightarrow> bytes option" where
  "pending E h n = pending_rev E n (rev h)"

lemma opened_Nil [simp]: "opened E [] n = None"
  by (simp add: opened_def)

lemma opened_snoc: "opened E (h @ [c]) n = (if gives E h c n then Some (h @ [c]) else opened E h n)"
  by (simp add: opened_def)

lemma key_snoc: "key E (h @ [c]) n = (if gives E h c n then opens c else key E h n)"
  by (simp add: key_def opened_snoc)

lemma pending_snoc:
  "pending E (h @ [c]) n =
     (if gives E h c n then (if opens_writer c then Some [] else None)
      else case c of
          Write k d \<Rightarrow>
            if k = n then (if on_unit E (h @ [c]) = ROk () then map_option (\<lambda>b. b @ d) (pending E h n) else None)
            else pending E h n
        | CloseWriter k \<Rightarrow> if k = n then None else pending E h n
        | AbortWriter k \<Rightarrow> if k = n then None else pending E h n
        | _ \<Rightarrow> pending E h n)"
  by (cases c) (simp_all add: pending_def)

lemma not_gives [simp]: "opens c = None \<Longrightarrow> \<not> gives E h c n"
  by (simp add: gives_def)

lemma opened_opens: "opened E h n = Some h0 \<Longrightarrow> h0 \<noteq> [] \<and> opens (last h0) \<noteq> None \<and> prefix h0 h"
proof (induction h rule: rev_induct)
  case (snoc c h)
  then show ?case by (auto simp: opened_snoc gives_def split: if_splits)
qed simp

lemma key_opened: "key E h n \<noteq> None \<longleftrightarrow> opened E h n \<noteq> None"
  by (auto simp: key_def dest: opened_opens split: Option.bind_splits)

text \<open>
  The paths a call may change: those it names, or the path its handle was opened on; a recursive
  removal and a move also change what is below.
\<close>

fun touched :: "env \<Rightarrow> history \<Rightarrow> call \<Rightarrow> (nat \<times> string) set" where
  "touched E h (WriterWith op p _ _) = {(service op, p)}"
| "touched E h (WriterOptions op p _) = {(service op, p)}"
| "touched E h (WriteAll op p _) = {(service op, p)}"
| "touched E h (Write n _) = set_option (key E h n)"
| "touched E h (CloseWriter n) = set_option (key E h n)"
| "touched E h (AbortWriter n) = set_option (key E h n)"
| "touched E h (CreateDir op p) = {(service op, p)}"
| "touched E h (Delete op p) = {(service op, p)}"
| "touched E h (DeleteRecursive op p) = {(service op, q) |q. prefix p q}"
| "touched E h (Rename op f t) = {(service op, q) |q. prefix f q \<or> prefix t q}"
| "touched E h (Copy op f t) = {(service op, t)}"
| "touched E h (CopierOptions op f t _) = {(service op, t)}"
| "touched E h (CopierNext n) = set_option (key E h n)"
| "touched E h (CopierAbort n) = set_option (key E h n)"
| "touched E h (CopierClose n) = set_option (key E h n)"
| "touched E h _ = {}"

section \<open>The contract\<close>

text \<open>
  Outside a set of paths nothing changes, except that writing a path may make the directories above it.
\<close>

definition unchanged_but :: "(nat \<times> string) set \<Rightarrow> (nat \<Rightarrow> tree) \<Rightarrow> (nat \<Rightarrow> tree) \<Rightarrow> bool" where
  "unchanged_but S T T' \<longleftrightarrow> (\<forall>s q. (s, q) \<in> S \<or> T' s q = T s q
     \<or> T s q = None \<and> T' s q = Some DirNode \<and> (\<exists>p. (s, p) \<in> S \<and> strict_prefix q p))"

definition frame_law :: "env \<Rightarrow> view \<Rightarrow> bool" where
  "frame_law E V \<longleftrightarrow> (\<forall>h c. unchanged_but (touched E h c) (V h) (V (h @ [c])))"

text \<open>A handle stands for one opened object.\<close>

definition fresh_law :: "env \<Rightarrow> bool" where
  "fresh_law E \<longleftrightarrow> (\<forall>h c n. gives E h c n \<longrightarrow> opened E h n = None)"

text \<open>
  A close that is acknowledged publishes what the writer accepted.  A writer's close answers either
  selector, with or without the metadata.
\<close>

definition closes :: "env \<Rightarrow> history \<Rightarrow> bool" where
  "closes E h \<longleftrightarrow> on_unit E h = ROk () \<or> (\<exists>m. on_metadata E h = ROk m)"

definition publish_law :: "env \<Rightarrow> view \<Rightarrow> bool" where
  "publish_law E V \<longleftrightarrow>
     (\<forall>h n s p b. key E h n = Some (s, p) \<and> pending E h n = Some b \<and> closes E (h @ [CloseWriter n])
        \<longrightarrow> V (h @ [CloseWriter n]) s p = Some (FileNode b))
   \<and> (\<forall>h op p b. on_unit E (h @ [WriteAll op p b]) = ROk ()
        \<longrightarrow> V (h @ [WriteAll op p b]) (service op) p = Some (FileNode b))"

text \<open>
  A read of a range answers the bytes that the file had there at some moment since the reader was
  opened; a finished copier has published the source as it was at some moment since it was opened.
\<close>

definition since :: "env \<Rightarrow> history \<Rightarrow> nat \<Rightarrow> history \<Rightarrow> bool" where
  "since E h n g \<longleftrightarrow> (\<exists>h0. opened E h n = Some h0 \<and> prefix h0 g \<and> prefix g h)"

definition slice :: "bytes \<Rightarrow> u64 \<Rightarrow> u64 \<Rightarrow> bytes" where
  "slice file a b = take (unat b - unat a) (drop (unat a) file)"

definition read_law :: "env \<Rightarrow> view \<Rightarrow> bool" where
  "read_law E V \<longleftrightarrow>
     (\<forall>h n s p a b d c. key E h n = Some (s, p) \<and> c \<in> {ReadInto n a b, ReadRange n a b} \<and> on_bytes E (h @ [c]) = ROk d
        \<longrightarrow> (\<exists>g file. since E h n g \<and> V g s p = Some (FileNode file) \<and> d = slice file a b))"

definition copier_law :: "env \<Rightarrow> view \<Rightarrow> bool" where
  "copier_law E V \<longleftrightarrow>
     (\<forall>h n h0 op f t o1 m. opened E h n = Some (h0 @ [CopierOptions op f t o1]) \<and> co_source_version o1 = None
        \<and> on_metadata E (h @ [CopierClose n]) = ROk m
        \<longrightarrow> (\<exists>g file. since E h n g \<and> V g (service op) f = Some (FileNode file)
              \<and> V (h @ [CopierClose n]) (service op) t = Some (FileNode file)))"

text \<open>Mutations, when acknowledged.\<close>

definition mutation_law :: "env \<Rightarrow> view \<Rightarrow> bool" where
  "mutation_law E V \<longleftrightarrow>
     (\<forall>h op p. on_unit E (h @ [Delete op p]) = ROk () \<longrightarrow> V (h @ [Delete op p]) (service op) p = None)
   \<and> (\<forall>h op p q. on_unit E (h @ [DeleteRecursive op p]) = ROk () \<and> prefix p q
        \<longrightarrow> V (h @ [DeleteRecursive op p]) (service op) q = None)
   \<and> (\<forall>h op p. on_unit E (h @ [CreateDir op p]) = ROk () \<longrightarrow> V (h @ [CreateDir op p]) (service op) p = Some DirNode)
   \<and> (\<forall>h op f t. on_unit E (h @ [Rename op f t]) = ROk () \<and> f \<noteq> t
        \<longrightarrow> V h (service op) f \<noteq> None \<and> V (h @ [Rename op f t]) (service op) t = V h (service op) f
          \<and> V (h @ [Rename op f t]) (service op) f = None)
   \<and> (\<forall>h op f t. on_unit E (h @ [Copy op f t]) = ROk ()
        \<longrightarrow> V h (service op) f \<noteq> None \<and> V (h @ [Copy op f t]) (service op) t = V h (service op) f)"

text \<open>What metadata says of a node, and what the questions answer.\<close>

definition describes :: "metadata \<Rightarrow> node \<Rightarrow> bool" where
  "describes m x \<longleftrightarrow>
     (case x of FileNode b \<Rightarrow> mode m = FILE \<and> unat (content_length m) = length b | DirNode \<Rightarrow> mode m = DIR)"

definition query_law :: "env \<Rightarrow> view \<Rightarrow> bool" where
  "query_law E V \<longleftrightarrow>
     (\<forall>h op p b. on_bool E (h @ [Exists op p]) = ROk b \<longrightarrow> (b \<longleftrightarrow> V h (service op) p \<noteq> None))
   \<and> (\<forall>h op p m. on_metadata E (h @ [Stat op p default_stat_opts]) = ROk m
        \<longrightarrow> (\<exists>x. V h (service op) p = Some x \<and> describes m x))
   \<and> (\<forall>h op p e. on_metadata E (h @ [Stat op p default_stat_opts]) = RErr e \<and> kind e = KNotFound
        \<longrightarrow> V h (service op) p = None)"

text \<open>A recursive listing gives every file below a path once, and gives nothing else for a file.\<close>

definition lists :: "tree \<Rightarrow> string \<Rightarrow> entry list \<Rightarrow> bool" where
  "lists T p es \<longleftrightarrow> distinct (map fst es)
     \<and> (\<forall>q m. (q, m) \<in> set es \<longrightarrow> prefix p q \<and> (\<exists>x. T q = Some x \<and> describes m x))
     \<and> (\<forall>q b. prefix p q \<and> T q = Some (FileNode b) \<longrightarrow> q \<in> fst ` set es)"

definition list_law :: "env \<Rightarrow> view \<Rightarrow> bool" where
  "list_law E V \<longleftrightarrow>
     (\<forall>h op p es. on_entries E (h @ [ListWith op p True]) = ROk es \<longrightarrow> lists (V h (service op)) p es)
   \<and> (\<forall>h op p es. on_entries E (h @ [ListOptions op p (default_list_opts\<lparr>lo_recursive := True\<rparr>)]) = ROk es
        \<longrightarrow> lists (V h (service op)) p es)"

definition object_store :: "env \<Rightarrow> view \<Rightarrow> bool" where
  "object_store E V \<longleftrightarrow> frame_law E V \<and> fresh_law E \<and> publish_law E V \<and> read_law E V \<and> copier_law E V
     \<and> mutation_law E V \<and> query_law E V \<and> list_law E V"

lemma unchanged_refl [simp]: "unchanged_but S T T"
  by (simp add: unchanged_but_def)

lemma unchanged_trans: "unchanged_but S T T' \<Longrightarrow> unchanged_but S T' T'' \<Longrightarrow> unchanged_but S T T''"
  unfolding unchanged_but_def by (metis option.distinct(1))

lemma unchanged_mono: "unchanged_but S T T' \<Longrightarrow> S \<subseteq> S' \<Longrightarrow> unchanged_but S' T T'"
  unfolding unchanged_but_def by blast

lemma unchanged_keeps: "unchanged_but S T T' \<Longrightarrow> (s, q) \<notin> S \<Longrightarrow> T s q = Some x \<Longrightarrow> T' s q = Some x"
  unfolding unchanged_but_def by (metis option.distinct(1))

lemma unchanged_empty: "unchanged_but {} T T' \<longleftrightarrow> T' = T"
  by (auto simp: unchanged_but_def fun_eq_iff)

lemma store_frame: "object_store E V \<Longrightarrow> unchanged_but (touched E h c) (V h) (V (h @ [c]))"
  by (simp add: object_store_def frame_law_def)

lemma store_quiet: "object_store E V \<Longrightarrow> touched E h c = {} \<Longrightarrow> V (h @ [c]) = V h"
  using store_frame [of E V h c] by (simp add: unchanged_empty)

text \<open>
  A dependable store also answers: writers open, accept and close, questions are answered, readers
  open and read on files that are there, and mutations succeed on nodes that are there.
\<close>

definition measurable :: "node \<Rightarrow> bool" where
  "measurable x \<longleftrightarrow> (case x of FileNode b \<Rightarrow> length b < 2 ^ 64 | DirNode \<Rightarrow> True)"

definition accepting :: "env \<Rightarrow> bool" where
  "accepting E \<longleftrightarrow>
     (\<forall>h c. opens_writer c \<longrightarrow> (\<exists>n. on_handle E (h @ [c]) = ROk n))
   \<and> (\<forall>h n b d. pending E h n = Some b \<longrightarrow> on_unit E (h @ [Write n d]) = ROk ())
   \<and> (\<forall>h n b. pending E h n = Some b
        \<longrightarrow> on_unit E (h @ [CloseWriter n]) = ROk () \<and> (\<exists>m. on_metadata E (h @ [CloseWriter n]) = ROk m))
   \<and> (\<forall>h op p b. on_unit E (h @ [WriteAll op p b]) = ROk ())"

definition answering :: "env \<Rightarrow> view \<Rightarrow> bool" where
  "answering E V \<longleftrightarrow>
     (\<forall>h op p. \<exists>b. on_bool E (h @ [Exists op p]) = ROk b)
   \<and> (\<forall>h op p x. V h (service op) p = Some x \<and> measurable x \<longrightarrow> (\<exists>m. on_metadata E (h @ [Stat op p default_stat_opts]) = ROk m))
   \<and> (\<forall>h op p. V h (service op) p = None
        \<longrightarrow> (\<exists>e. on_metadata E (h @ [Stat op p default_stat_opts]) = RErr e \<and> kind e = KNotFound))
   \<and> (\<forall>h op p c k b. V h (service op) p = Some (FileNode b) \<longrightarrow> (\<exists>n. on_handle E (h @ [ReaderWith op p c k]) = ROk n))
   \<and> (\<forall>h op p o1 b. V h (service op) p = Some (FileNode b) \<and> ro_version o1 = None
        \<longrightarrow> (\<exists>n. on_handle E (h @ [ReaderOptions op p o1]) = ROk n))
   \<and> (\<forall>h n s p a b f. key E h n = Some (s, p) \<and> V h s p = Some (FileNode f)
        \<longrightarrow> (\<exists>d. on_bytes E (h @ [ReadInto n a b]) = ROk d) \<and> (\<exists>d. on_bytes E (h @ [ReadRange n a b]) = ROk d))
   \<and> (\<forall>h op p. (\<forall>q x. prefix p q \<and> V h (service op) q = Some x \<longrightarrow> measurable x)
        \<longrightarrow> (\<exists>es. on_entries E (h @ [ListWith op p True]) = ROk es))"

definition mutating :: "env \<Rightarrow> view \<Rightarrow> bool" where
  "mutating E V \<longleftrightarrow>
     (\<forall>h op p. on_unit E (h @ [Delete op p]) = ROk ())
   \<and> (\<forall>h op f t. V h (service op) f \<noteq> None \<longrightarrow> on_unit E (h @ [Rename op f t]) = ROk ())
   \<and> (\<forall>h op f t. V h (service op) f \<noteq> None \<longrightarrow> on_unit E (h @ [Copy op f t]) = ROk ())"

definition dependable :: "env \<Rightarrow> view \<Rightarrow> bool" where
  "dependable E V \<longleftrightarrow> object_store E V \<and> accepting E \<and> answering E V \<and> mutating E V"

text \<open>A lister's first step answers whether anything is below a path.\<close>

definition probing :: "env \<Rightarrow> view \<Rightarrow> bool" where
  "probing E V \<longleftrightarrow>
     (\<forall>h op p. \<exists>n x. on_handle E (h @ [ListerWith op p]) = ROk n
        \<and> on_entry E (h @ [ListerWith op p, ListerNext n]) = ROk x
        \<and> (x \<noteq> None \<longleftrightarrow> (\<exists>q. prefix p q \<and> V h (service op) q \<noteq> None)))"

text \<open>
  A recursive lister, stepped with no other call in between, gives what a recursive listing gives; it
  takes paths without their leading slashes.
\<close>

abbreviation recursive_opts :: list_opts where
  "recursive_opts \<equiv> default_list_opts\<lparr>lo_recursive := True\<rparr>"

definition walking :: "env \<Rightarrow> view \<Rightarrow> bool" where
  "walking E V \<longleftrightarrow>
     (\<forall>h op p n. on_handle E (h @ [ListerOptions op p recursive_opts]) = ROk n
        \<and> (\<forall>q x. V h (service op) q = Some x \<longrightarrow> measurable x)
        \<longrightarrow> (\<exists>es. lists (V h (service op)) (trim_start_char CHR ''/'' p) es
              \<and> lister_yields E n (h @ [ListerOptions op p recursive_opts]) es))"

text \<open>What each part of the contract gives for a call.\<close>

lemma store_replies:
  assumes "object_store E V"
  shows "on_bool E (h @ [Exists op p]) = ROk b \<Longrightarrow> b \<longleftrightarrow> V h (service op) p \<noteq> None"
    and "on_metadata E (h @ [Stat op p default_stat_opts]) = ROk m \<Longrightarrow> \<exists>x. V h (service op) p = Some x \<and> describes m x"
    and "on_entries E (h @ [ListWith op p True]) = ROk es \<Longrightarrow> lists (V h (service op)) p es"
    and "on_unit E (h @ [WriteAll op p d]) = ROk () \<Longrightarrow> V (h @ [WriteAll op p d]) (service op) p = Some (FileNode d)"
    and "on_unit E (h @ [Delete op p]) = ROk () \<Longrightarrow> V (h @ [Delete op p]) (service op) p = None"
    and "on_unit E (h @ [DeleteRecursive op p]) = ROk () \<Longrightarrow> prefix p q \<Longrightarrow> V (h @ [DeleteRecursive op p]) (service op) q = None"
    and "on_unit E (h @ [CreateDir op p]) = ROk () \<Longrightarrow> V (h @ [CreateDir op p]) (service op) p = Some DirNode"
    and "on_unit E (h @ [Copy op f t]) = ROk () \<Longrightarrow>
      V h (service op) f \<noteq> None \<and> V (h @ [Copy op f t]) (service op) t = V h (service op) f"
    and "on_unit E (h @ [Rename op f t]) = ROk () \<Longrightarrow> f \<noteq> t \<Longrightarrow>
      V h (service op) f \<noteq> None \<and> V (h @ [Rename op f t]) (service op) t = V h (service op) f
      \<and> V (h @ [Rename op f t]) (service op) f = None"
proof -
  from assms have laws: "query_law E V" "list_law E V" "publish_law E V" "mutation_law E V"
    by (simp_all add: dependable_def object_store_def)
  from laws(1) show "on_bool E (h @ [Exists op p]) = ROk b \<Longrightarrow> b \<longleftrightarrow> V h (service op) p \<noteq> None"
    unfolding query_law_def by blast
  from laws(1) show "on_metadata E (h @ [Stat op p default_stat_opts]) = ROk m \<Longrightarrow> \<exists>x. V h (service op) p = Some x \<and> describes m x"
    unfolding query_law_def by blast
  from laws(2) show "on_entries E (h @ [ListWith op p True]) = ROk es \<Longrightarrow> lists (V h (service op)) p es"
    unfolding list_law_def by blast
  from laws(3) show "on_unit E (h @ [WriteAll op p d]) = ROk () \<Longrightarrow> V (h @ [WriteAll op p d]) (service op) p = Some (FileNode d)"
    unfolding publish_law_def by blast
  from laws(4) show "on_unit E (h @ [Delete op p]) = ROk () \<Longrightarrow> V (h @ [Delete op p]) (service op) p = None"
    unfolding mutation_law_def by blast
  from laws(4) show "on_unit E (h @ [DeleteRecursive op p]) = ROk () \<Longrightarrow> prefix p q \<Longrightarrow> V (h @ [DeleteRecursive op p]) (service op) q = None"
    unfolding mutation_law_def by blast
  from laws(4) show "on_unit E (h @ [CreateDir op p]) = ROk () \<Longrightarrow> V (h @ [CreateDir op p]) (service op) p = Some DirNode"
    unfolding mutation_law_def by blast
  from laws(4) show "on_unit E (h @ [Copy op f t]) = ROk () \<Longrightarrow>
      V h (service op) f \<noteq> None \<and> V (h @ [Copy op f t]) (service op) t = V h (service op) f"
    unfolding mutation_law_def by blast
  from laws(4) show "on_unit E (h @ [Rename op f t]) = ROk () \<Longrightarrow> f \<noteq> t \<Longrightarrow>
      V h (service op) f \<noteq> None \<and> V (h @ [Rename op f t]) (service op) t = V h (service op) f
      \<and> V (h @ [Rename op f t]) (service op) f = None"
    unfolding mutation_law_def by blast
qed

lemma dependable_answers:
  assumes "dependable E V"
  shows "\<exists>b. on_bool E (h @ [Exists op p]) = ROk b"
    and "V h (service op) p = Some x \<Longrightarrow> measurable x \<Longrightarrow> \<exists>m. on_metadata E (h @ [Stat op p default_stat_opts]) = ROk m"
    and "V h (service op) p = None \<Longrightarrow> \<exists>e. on_metadata E (h @ [Stat op p default_stat_opts]) = RErr e \<and> kind e = KNotFound"
    and "V h (service op) p = Some (FileNode d) \<Longrightarrow> \<exists>n. on_handle E (h @ [ReaderWith op p c k]) = ROk n"
    and "key E h n = Some (s, p) \<Longrightarrow> V h s p = Some (FileNode d) \<Longrightarrow> \<exists>d. on_bytes E (h @ [ReadInto n a b]) = ROk d"
    and "(\<And>q x. prefix p q \<Longrightarrow> V h (service op) q = Some x \<Longrightarrow> measurable x) \<Longrightarrow> \<exists>es. on_entries E (h @ [ListWith op p True]) = ROk es"
    and "opens_writer w \<Longrightarrow> \<exists>n. on_handle E (h @ [w]) = ROk n"
    and "pending E h n = Some d \<Longrightarrow> on_unit E (h @ [Write n d']) = ROk ()"
    and "pending E h n = Some d \<Longrightarrow> on_unit E (h @ [CloseWriter n]) = ROk ()"
    and "on_unit E (h @ [WriteAll op p d]) = ROk ()"
    and "on_unit E (h @ [Delete op p]) = ROk ()"
    and "V h (service op) f \<noteq> None \<Longrightarrow> on_unit E (h @ [Rename op f t]) = ROk ()"
    and "V h (service op) f \<noteq> None \<Longrightarrow> on_unit E (h @ [Copy op f t]) = ROk ()"
    and "V h (service op) p = Some (FileNode d) \<Longrightarrow> ro_version o1 = None \<Longrightarrow> \<exists>n. on_handle E (h @ [ReaderOptions op p o1]) = ROk n"
    and "key E h n = Some (s, p) \<Longrightarrow> V h s p = Some (FileNode d) \<Longrightarrow> \<exists>d. on_bytes E (h @ [ReadRange n a b]) = ROk d"
    and "pending E h n = Some d \<Longrightarrow> \<exists>m. on_metadata E (h @ [CloseWriter n]) = ROk m"
proof -
  from assms have laws: "answering E V" "accepting E" "mutating E V"
    by (simp_all add: dependable_def object_store_def)
  from laws(1) show "\<exists>b. on_bool E (h @ [Exists op p]) = ROk b"
    unfolding answering_def by simp
  from laws(1) show "V h (service op) p = Some x \<Longrightarrow> measurable x \<Longrightarrow> \<exists>m. on_metadata E (h @ [Stat op p default_stat_opts]) = ROk m"
    unfolding answering_def by metis
  from laws(1) show "V h (service op) p = None \<Longrightarrow> \<exists>e. on_metadata E (h @ [Stat op p default_stat_opts]) = RErr e \<and> kind e = KNotFound"
    unfolding answering_def by metis
  from laws(1) show "V h (service op) p = Some (FileNode d) \<Longrightarrow> \<exists>n. on_handle E (h @ [ReaderWith op p c k]) = ROk n"
    unfolding answering_def by metis
  from laws(1) show "key E h n = Some (s, p) \<Longrightarrow> V h s p = Some (FileNode d) \<Longrightarrow> \<exists>d. on_bytes E (h @ [ReadInto n a b]) = ROk d"
    unfolding answering_def by metis
  from laws(1) show "(\<And>q x. prefix p q \<Longrightarrow> V h (service op) q = Some x \<Longrightarrow> measurable x) \<Longrightarrow> \<exists>es. on_entries E (h @ [ListWith op p True]) = ROk es"
    unfolding answering_def by metis
  from laws(2) show "opens_writer w \<Longrightarrow> \<exists>n. on_handle E (h @ [w]) = ROk n"
    unfolding accepting_def by blast
  from laws(2) show "pending E h n = Some d \<Longrightarrow> on_unit E (h @ [Write n d']) = ROk ()"
    unfolding accepting_def by blast
  from laws(2) show "pending E h n = Some d \<Longrightarrow> on_unit E (h @ [CloseWriter n]) = ROk ()"
    unfolding accepting_def by blast
  from laws(2) show "on_unit E (h @ [WriteAll op p d]) = ROk ()"
    unfolding accepting_def by blast
  from laws(3) show "on_unit E (h @ [Delete op p]) = ROk ()"
    unfolding mutating_def by blast
  from laws(3) show "V h (service op) f \<noteq> None \<Longrightarrow> on_unit E (h @ [Rename op f t]) = ROk ()"
    unfolding mutating_def by blast
  from laws(3) show "V h (service op) f \<noteq> None \<Longrightarrow> on_unit E (h @ [Copy op f t]) = ROk ()"
    unfolding mutating_def by blast
  from laws(1) show "V h (service op) p = Some (FileNode d) \<Longrightarrow> ro_version o1 = None \<Longrightarrow> \<exists>n. on_handle E (h @ [ReaderOptions op p o1]) = ROk n"
    unfolding answering_def by metis
  from laws(1) show "key E h n = Some (s, p) \<Longrightarrow> V h s p = Some (FileNode d) \<Longrightarrow> \<exists>d. on_bytes E (h @ [ReadRange n a b]) = ROk d"
    unfolding answering_def by metis
  from laws(2) show "pending E h n = Some d \<Longrightarrow> \<exists>m. on_metadata E (h @ [CloseWriter n]) = ROk m"
    unfolding accepting_def by metis
qed

end
