(* ===== verification/Memory.thy ===== *)
theory Memory
  imports Store "HOL-Library.AList"
begin

text \<open>
  A store in memory, which meets the contract of \<open>Store\<close>: the tree of each service is computed from
  the history, a handle is the length of the history that opened it, and every call answers from
  the tree.  It shows that the contract can be met and runs the concrete instances.
\<close>

section \<open>The trees\<close>

fun mem_rev :: "history \<Rightarrow> nat \<Rightarrow> (string \<times> node) list" where
  "mem_rev [] s = []"
| "mem_rev (c # r) s =
     (let t = mem_rev r s; h = rev r in
      case c of
        WriteAll op p b \<Rightarrow> if service op = s then AList.update p (FileNode b) t else t
      | CloseWriter n \<Rightarrow>
          (case (key calm_env h n, pending calm_env h n) of
             (Some (s', p), Some b) \<Rightarrow> if s' = s then AList.update p (FileNode b) t else t
           | _ \<Rightarrow> t)
      | CreateDir op p \<Rightarrow> if service op = s then AList.update p DirNode t else t
      | Delete op p \<Rightarrow> if service op = s then AList.delete p t else t
      | DeleteRecursive op p \<Rightarrow> if service op = s then filter (\<lambda>(q, _). \<not> prefix p q) t else t
      | Rename op f u \<Rightarrow>
          if service op = s then (case map_of t f of Some x \<Rightarrow> AList.update u x (AList.delete f t) | None \<Rightarrow> t) else t
      | Copy op f u \<Rightarrow>
          if service op = s then (case map_of t f of Some x \<Rightarrow> AList.update u x t | None \<Rightarrow> t) else t
      | CopierClose n \<Rightarrow>
          (case opened calm_env h n of
             Some h0 \<Rightarrow>
               (case last h0 of
                  CopierOptions op f u _ \<Rightarrow>
                    if service op = s then (case map_of t f of Some x \<Rightarrow> AList.update u x t | None \<Rightarrow> t) else t
                | _ \<Rightarrow> t)
           | None \<Rightarrow> t)
      | _ \<Rightarrow> t)"

definition mem :: "history \<Rightarrow> nat \<Rightarrow> (string \<times> node) list" where
  "mem h s = mem_rev (rev h) s"

definition mem_view :: view where
  "mem_view h s = map_of (mem h s)"

section \<open>The answers\<close>

definition node_meta :: "node \<Rightarrow> metadata" where
  "node_meta x = (case x of FileNode b \<Rightarrow> plain_file\<lparr>content_length := of_nat (length b)\<rparr>
     | DirNode \<Rightarrow> plain_file\<lparr>mode := DIR, content_length := 0\<rparr>)"

definition missing :: oerror where
  "missing = \<lparr>kind = KNotFound, display = ''missing''\<rparr>"

definition mem_metadata :: "history \<Rightarrow> metadata reply" where
  "mem_metadata h =
     (case last h of
        Stat op p _ \<Rightarrow>
          (case mem_view (butlast h) (service op) p of
             Some x \<Rightarrow> if measurable x then ROk (node_meta x) else RErr \<lparr>kind = KUnexpected, display = ''too large''\<rparr>
           | None \<Rightarrow> RErr missing)
      | CopierClose n \<Rightarrow>
          (case opened calm_env (butlast h) n of
             Some h0 \<Rightarrow>
               (case last h0 of
                  CopierOptions op f u _ \<Rightarrow>
                    (case mem_view (butlast h) (service op) f of Some (FileNode b) \<Rightarrow> ROk (node_meta (FileNode b)) | _ \<Rightarrow> RErr missing)
                | _ \<Rightarrow> RErr missing)
           | None \<Rightarrow> RErr missing)
      | _ \<Rightarrow> ROk plain_file)"

definition mem_bytes :: "history \<Rightarrow> bytes reply" where
  "mem_bytes h =
     (let read = (\<lambda>n a b. case key calm_env (butlast h) n of
          Some (s, p) \<Rightarrow> (case mem_view (butlast h) s p of Some (FileNode f) \<Rightarrow> ROk (slice f a b) | _ \<Rightarrow> RErr missing)
        | None \<Rightarrow> RErr missing)
      in case last h of ReadInto n a b \<Rightarrow> read n a b | ReadRange n a b \<Rightarrow> read n a b | _ \<Rightarrow> ROk [])"

definition mem_list :: "history \<Rightarrow> nat \<Rightarrow> string \<Rightarrow> entry list reply" where
  "mem_list h s p =
     (let es = filter (\<lambda>(q, _). prefix p q) (mem h s)
      in if list_all (\<lambda>(_, x). measurable x) es then ROk (map (\<lambda>(q, x). (q, node_meta x)) es)
         else RErr \<lparr>kind = KUnexpected, display = ''too large''\<rparr>)"

definition mem_entries :: "history \<Rightarrow> entry list reply" where
  "mem_entries h =
     (case last h of
        ListWith op p _ \<Rightarrow> mem_list (butlast h) (service op) p
      | ListOptions op p _ \<Rightarrow> mem_list (butlast h) (service op) p
      | _ \<Rightarrow> ROk [])"

text \<open>A lister's handle is the length of the history that opened it; it lists the tree of that time.\<close>

definition mem_lister :: "history \<Rightarrow> nat \<Rightarrow> entry list" where
  "mem_lister h n =
     (let below = (\<lambda>op p. map (\<lambda>(q, x). (q, node_meta x)) (filter (\<lambda>(q, _). prefix p q) (mem (take (n - 1) h) (service op))))
      in if n = 0 then [] else
         case last (take n h) of
           ListerWith op p \<Rightarrow> below op p
         | ListerOptions op p _ \<Rightarrow> below op (trim_start_char CHR ''/'' p)
         | _ \<Rightarrow> [])"

definition mem_entry :: "history \<Rightarrow> entry option reply" where
  "mem_entry h =
     (case last h of
        ListerNext n \<Rightarrow>
          (let es = mem_lister (butlast h) n; k = pulled n (drop n (butlast h))
           in ROk (if k < length es then Some (es ! k) else None))
      | _ \<Rightarrow> ROk None)"

definition mem_unit :: "history \<Rightarrow> unit reply" where
  "mem_unit h =
     (case last h of
        Rename op f _ \<Rightarrow> if mem_view (butlast h) (service op) f = None then RErr missing else ROk ()
      | Copy op f _ \<Rightarrow> if mem_view (butlast h) (service op) f = None then RErr missing else ROk ()
      | _ \<Rightarrow> ROk ())"

definition mem_env :: env where
  "mem_env = calm_env\<lparr>
     on_metadata := mem_metadata,
     on_bool := \<lambda>h. (case last h of Exists op p \<Rightarrow> ROk (mem_view (butlast h) (service op) p \<noteq> None) | _ \<Rightarrow> ROk True),
     on_entries := mem_entries,
     on_entry := mem_entry,
     get_basename := (\<lambda>p. case rfind_char CHR ''/'' p of None \<Rightarrow> p | Some i \<Rightarrow> drop (Suc i) p),
     on_bytes := mem_bytes,
     on_unit := mem_unit\<rparr>"

lemma mem_env_simps [simp]:
  "on_metadata mem_env = mem_metadata" "on_entries mem_env = mem_entries" "on_entry mem_env = mem_entry" "on_bytes mem_env = mem_bytes"
  "on_unit mem_env = mem_unit" "on_handle mem_env h = ROk (length h)"
  "on_bool mem_env (h @ [Exists op p]) = ROk (mem_view h (service op) p \<noteq> None)"
  by (simp_all add: mem_env_def calm_env_def)

lemma gives_mem: "gives mem_env h c n \<longleftrightarrow> gives calm_env h c n"
  by (simp add: gives_def)

lemma opened_mem: "opened mem_env h n = opened calm_env h n"
  by (induction h rule: rev_induct) (simp_all add: opened_snoc gives_mem)

lemma key_mem: "key mem_env h n = key calm_env h n"
  by (simp add: key_def opened_mem)

lemma pending_mem: "pending mem_env h n = pending calm_env h n"
  by (induction h rule: rev_induct)
    (simp_all add: pending_snoc gives_mem mem_unit_def pending_def split: call.split)

lemma mem_Nil: "mem [] s = []"
  by (simp add: mem_def)

lemma opened_calm: "opened calm_env h n = Some h0 \<Longrightarrow> n = length h0 \<and> length h0 \<le> length h"
  by (induction h rule: rev_induct) (auto simp: opened_snoc gives_def split: if_splits)

section \<open>The contract holds\<close>

lemma mem_view_snoc:
  "mem_view (h @ [c]) s =
     (let T = mem_view h s; into = (\<lambda>op u x. if service op = s then T(u := x) else T) in
      case c of
        WriteAll op p b \<Rightarrow> into op p (Some (FileNode b))
      | CloseWriter n \<Rightarrow>
          (case (key calm_env h n, pending calm_env h n) of
             (Some (s', p), Some b) \<Rightarrow> if s' = s then T(p := Some (FileNode b)) else T
           | _ \<Rightarrow> T)
      | CreateDir op p \<Rightarrow> into op p (Some DirNode)
      | Delete op p \<Rightarrow> into op p None
      | DeleteRecursive op p \<Rightarrow> if service op = s then (\<lambda>q. if prefix p q then None else T q) else T
      | Rename op f u \<Rightarrow>
          if service op = s then (case T f of Some x \<Rightarrow> T(f := None, u := Some x) | None \<Rightarrow> T) else T
      | Copy op f u \<Rightarrow> if service op = s then (case T f of Some x \<Rightarrow> T(u := Some x) | None \<Rightarrow> T) else T
      | CopierClose n \<Rightarrow>
          (case opened calm_env h n of
             Some h0 \<Rightarrow>
               (case last h0 of
                  CopierOptions op f u _ \<Rightarrow>
                    if service op = s then (case T f of Some x \<Rightarrow> T(u := Some x) | None \<Rightarrow> T) else T
                | _ \<Rightarrow> T)
           | None \<Rightarrow> T)
      | _ \<Rightarrow> T)"
proof -
  have filter_view: "map_of (filter (\<lambda>(q, _). \<not> prefix p q) t) = (\<lambda>q. if prefix p q then None else map_of t q)"
    for p and t :: "(string \<times> node) list"
    by (induction t) (auto simp: fun_eq_iff)
  show ?thesis
    by (cases c)
      (auto simp: mem_view_def mem_def Let_def update_conv' delete_conv' filter_view split: option.split prod.split call.split)
qed

lemma mem_distinct: "distinct (map fst (mem h s))"
proof (induction h rule: rev_induct)
  case (snoc c h)
  from snoc show ?case
    by (cases c)
      (auto simp: mem_def Let_def distinct_update distinct_delete distinct_map_filter split: option.split prod.split call.split)
qed (simp add: mem_Nil)

lemma mem_frame: "frame_law mem_env mem_view"
proof -
  have "mem_view (h @ [c]) s q = mem_view h s q" if "(s, q) \<notin> touched mem_env h c" for h c s q
    using that
    by (cases c) (auto simp: mem_view_snoc Let_def key_mem opened_mem key_def split: option.splits call.splits Option.bind_splits)
  then show ?thesis by (auto simp: frame_law_def unchanged_but_def)
qed

lemma mem_fresh: "fresh_law mem_env"
proof -
  have "opened mem_env h n = None" if "gives mem_env h c n" for h c n
  proof (cases "opened mem_env h n")
    case (Some h0)
    with opened_calm [of h n h0] that show ?thesis by (simp add: opened_mem gives_def)
  qed
  then show ?thesis by (simp add: fresh_law_def)
qed

lemma mem_publish: "publish_law mem_env mem_view"
  by (auto simp: publish_law_def key_mem pending_mem mem_view_snoc)

lemma since_now: "opened E h n = Some h0 \<Longrightarrow> since E h n h"
  by (auto simp: since_def dest: opened_opens)

lemma key_since: "key E h n = Some k \<Longrightarrow> since E h n h"
  by (auto simp: key_def intro: since_now split: Option.bind_splits)

lemma mem_read: "read_law mem_env mem_view"
  unfolding read_law_def
proof (intro allI impI)
  fix h n s p a b d c
  assume "key mem_env h n = Some (s, p) \<and> c \<in> {ReadInto n a b, ReadRange n a b} \<and> on_bytes mem_env (h @ [c]) = ROk d"
  then obtain f where "since mem_env h n h" "mem_view h s p = Some (FileNode f)" "d = slice f a b"
    by (auto simp: mem_bytes_def key_mem key_since split: option.splits node.splits)
  then show "\<exists>g file. since mem_env h n g \<and> mem_view g s p = Some (FileNode file) \<and> d = slice file a b" by blast
qed

lemma mem_copier: "copier_law mem_env mem_view"
  unfolding copier_law_def
proof (intro allI impI)
  fix h n h0 op f t o1 m
  assume a: "opened mem_env h n = Some (h0 @ [CopierOptions op f t o1]) \<and> co_source_version o1 = None
    \<and> on_metadata mem_env (h @ [CopierClose n]) = ROk m"
  then obtain x where "mem_view h (service op) f = Some (FileNode x)"
    by (auto simp: mem_metadata_def opened_mem split: option.splits node.splits)
  moreover from this a have "mem_view (h @ [CopierClose n]) (service op) t = Some (FileNode x)"
    by (simp add: mem_view_snoc opened_mem Let_def)
  ultimately show "\<exists>g file. since mem_env h n g \<and> mem_view g (service op) f = Some (FileNode file)
      \<and> mem_view (h @ [CopierClose n]) (service op) t = Some (FileNode file)"
    using a since_now by blast
qed

lemma mem_mutation: "mutation_law mem_env mem_view"
  by (auto simp: mutation_law_def mem_unit_def mem_view_snoc Let_def split: if_splits)

lemma describes_meta: "measurable x \<Longrightarrow> describes (node_meta x) x"
  by (auto simp: describes_def node_meta_def measurable_def plain_file_def unsigned_of_nat take_bit_nat_eq_self
      split: node.splits)

lemma mem_query: "query_law mem_env mem_view"
  by (auto simp: query_law_def mem_metadata_def missing_def describes_meta split: option.splits if_splits)

lemma mem_list_lists:
  assumes "mem_list h s p = ROk es"
  shows "lists (mem_view h s) p es"
proof -
  let ?t = "filter (\<lambda>(q, _). prefix p q) (mem h s)"
  from assms have es: "es = map (\<lambda>(q, x). (q, node_meta x)) ?t" and fits: "list_all (\<lambda>(_, x). measurable x) ?t"
    by (auto simp: mem_list_def Let_def split: if_splits)
  have names: "map fst es = map fst ?t" by (simp add: es case_prod_beta o_def)
  have "distinct (map fst ?t)" using mem_distinct by (rule distinct_map_filter)
  moreover have "mem_view h s q = Some x" if "(q, x) \<in> set ?t" for q x
    using that mem_distinct [of h s] by (auto simp: mem_view_def)
  moreover have "q \<in> fst ` set ?t" if "prefix p q" "mem_view h s q = Some x" for q x
    using that map_of_SomeD [of "mem h s" q x] by (force simp: mem_view_def)
  ultimately show ?thesis
    using fits unfolding lists_def names
    by (auto simp: es list_all_iff describes_meta image_iff)
qed

lemma mem_lists: "list_law mem_env mem_view"
  by (auto simp: list_law_def mem_entries_def mem_list_lists)

lemma mem_store: "object_store mem_env mem_view"
  by (simp add: object_store_def mem_frame mem_fresh mem_publish mem_read mem_copier mem_mutation mem_query mem_lists)

lemma mem_accepting: "accepting mem_env"
  by (simp add: accepting_def mem_unit_def mem_metadata_def)

lemma mem_answering: "answering mem_env mem_view"
proof -
  have "\<exists>es. mem_list h s p = ROk es" if "\<And>q x. prefix p q \<Longrightarrow> mem_view h s q = Some x \<Longrightarrow> measurable x" for h s p
    using that mem_distinct [of h s] by (auto simp: mem_list_def Let_def list_all_iff mem_view_def)
  then show ?thesis
    by (auto simp: answering_def mem_metadata_def missing_def mem_bytes_def key_mem mem_entries_def)
qed

lemma mem_mutating: "mutating mem_env mem_view"
  by (simp add: mutating_def mem_unit_def)

lemma mem_dependable: "dependable mem_env mem_view"
  by (simp add: dependable_def mem_store mem_accepting mem_answering mem_mutating)

lemma mem_probing: "probing mem_env mem_view"
  unfolding probing_def
proof (intro allI)
  fix h op p
  let ?h = "h @ [ListerWith op p]"
  let ?below = "filter (\<lambda>(q, _). prefix p q) (mem h (service op))"
  have "(\<exists>q. prefix p q \<and> mem_view h (service op) q \<noteq> None) \<longleftrightarrow> ?below \<noteq> []"
    by (force simp: mem_view_def filter_empty_conv map_of_eq_None_iff)
  moreover have "mem_entry (?h @ [ListerNext (length ?h)]) = ROk (case ?below of [] \<Rightarrow> None | (q, x) # _ \<Rightarrow> Some (q, node_meta x))"
    by (simp add: mem_entry_def mem_lister_def pulled_def Let_def del: append_assoc split: list.split)
  ultimately show "\<exists>n x. on_handle mem_env ?h = ROk n \<and> on_entry mem_env (h @ [ListerWith op p, ListerNext n]) = ROk x
      \<and> (x \<noteq> None \<longleftrightarrow> (\<exists>q. prefix p q \<and> mem_view h (service op) q \<noteq> None))"
    by (auto split: list.splits)
qed

lemma mem_listing:
  assumes "\<And>q x. mem_view h s q = Some x \<Longrightarrow> measurable x"
  shows "lists (mem_view h s) p (map (\<lambda>(q, x). (q, node_meta x)) (filter (\<lambda>(q, _). prefix p q) (mem h s)))"
proof (rule mem_list_lists)
  have "list_all (\<lambda>(_, x). measurable x) (filter (\<lambda>(q, _). prefix p q) (mem h s))"
    using assms mem_distinct [of h s] by (auto simp: list_all_iff mem_view_def)
  then show "mem_list h s p = ROk (map (\<lambda>(q, x). (q, node_meta x)) (filter (\<lambda>(q, _). prefix p q) (mem h s)))"
    by (simp add: mem_list_def)
qed

lemma mem_lister_yields: "lister_yields mem_env (length (h @ [c])) (h @ [c]) (mem_lister (h @ [c]) (length (h @ [c])))"
proof -
  have "butlast ((h @ [c]) @ pulls n (Suc k)) = (h @ [c]) @ pulls n k" for n k
    by (metis append_assoc butlast_snoc pulls_snoc)
  moreover have "mem_lister ((h @ [c]) @ g) (length (h @ [c])) = mem_lister (h @ [c]) (length (h @ [c]))" for g
    by (simp add: mem_lister_def)
  ultimately show ?thesis
    by (simp add: lister_yields_def mem_entry_def pulled_def del: append_assoc append_Cons append_Nil replicate.simps)
qed

lemma mem_walking: "walking mem_env mem_view"
  unfolding walking_def
proof (intro allI impI)
  fix h op p n
  let ?c = "ListerOptions op p recursive_opts"
  assume a: "on_handle mem_env (h @ [?c]) = ROk n \<and> (\<forall>q x. mem_view h (service op) q = Some x \<longrightarrow> measurable x)"
  then have "lists (mem_view h (service op)) (trim_start_char CHR ''/'' p) (mem_lister (h @ [?c]) n)"
    using mem_listing [of h "service op"] by (auto simp: mem_lister_def)
  moreover have "lister_yields mem_env n (h @ [?c]) (mem_lister (h @ [?c]) n)"
    using a mem_lister_yields [of h ?c] by simp
  ultimately show "\<exists>es. lists (mem_view h (service op)) (trim_start_char CHR ''/'' p) es \<and> lister_yields mem_env n (h @ [?c]) es" by blast
qed

end
