(* ===== verification/Files.thy ===== *)
theory Files
  imports Memory
begin

text \<open>
  The entry points on a store that keeps the contract: what an acknowledged call did to the tree, and,
  on a dependable store, the value of every call.  The last section holds the end-to-end properties.
\<close>

section \<open>Handles\<close>

lemma key_handle:
  assumes "object_store E V" "on_handle E (h @ [c]) = ROk n" "opens c = Some k"
  shows "key E (h @ [c]) n = Some k" "opened E (h @ [c]) n = Some (h @ [c])"
  using assms by (simp_all add: key_snoc opened_snoc gives_def)

text \<open>A handle that is known is not given again.\<close>

lemma known_not_given: "object_store E V \<Longrightarrow> key E h n = Some k \<Longrightarrow> \<not> gives E h c n"
  using key_opened [of E h n] by (auto simp: object_store_def fresh_law_def)

lemma key_kept: "object_store E V \<Longrightarrow> key E h n = Some k \<Longrightarrow> key E (h @ [c]) n = Some k"
  by (simp add: key_snoc known_not_given)

lemma since_snoc: "since E (h @ [c]) n g \<Longrightarrow> \<not> gives E h c n \<Longrightarrow> since E h n g \<or> g = h @ [c]"
  by (auto simp: since_def opened_snoc)

section \<open>Writing\<close>

text \<open>An open writer on a path, having accepted some bytes.\<close>

definition streaming :: "env \<Rightarrow> od_writer \<Rightarrow> nat \<times> string \<Rightarrow> bytes \<Rightarrow> history \<Rightarrow> bool" where
  "streaming E w k b h \<longleftrightarrow>
     wr_state w = WOpen \<and> key E h (wr_handle w) = Some k \<and> pending E h (wr_handle w) = Some b"

lemma writer_open_streaming:
  assumes "object_store E V" "od_writer_open E (Ptr a op) (Some path) err h = (Some w, e, h1)"
  shows "streaming E w (service (od_op op), path) [] h1 \<and> unchanged_but {(service (od_op op), path)} (V h) (V h1)"
proof -
  let ?c = "WriterWith (od_op op) path (concurrent (io_write (od_io op))) (write_chunk (od_io op))"
  from assms(2) have h1: "h1 = h @ [?c]" "on_handle E (h @ [?c]) = ROk (wr_handle w)" "wr_state w = WOpen"
    by (auto simp: od_writer_open_def od_writer_open_body_def ffi_guard_def check_guard_def decode_or_leave_def
        await_or_leave_def invoke_def cstr_def split: sum.splits if_splits reply.splits)
  with store_frame [OF assms(1), of h ?c] show ?thesis
    by (simp add: streaming_def key_snoc pending_snoc gives_def)
qed

lemma write_accepted:
  assumes "od_writer_write E (Ptr a w) (Some d) (of_nat (length d)) err h = (0, e, q, h')" "wr_state w = WOpen" "length d < 2 ^ 63"
  shows "q = Ptr a w \<and> (d = [] \<and> h' = h \<or> h' = h @ [Write (wr_handle w) d] \<and> on_unit E h' = ROk ())"
proof -
  have "unat (of_nat (length d) :: u64) = length d" using assms(3) by (rule unat_length)
  with assms show ?thesis
    by (auto simp: od_writer_write_def od_writer_write_body_def ffi_guard_def require_open_def invoke_def
        fail_writer_def split: if_splits reply.splits prod.splits outcome.splits)
qed

lemma write_streams:
  assumes "object_store E V" "streaming E w k b h" "length d < 2 ^ 63"
    and "od_writer_write E (Ptr a w) (Some d) (of_nat (length d)) err h = (0, e, q, h')"
  shows "q = Ptr a w \<and> streaming E w k (b @ d) h' \<and> unchanged_but {k} (V h) (V h')"
proof -
  from assms(2) have w: "wr_state w = WOpen" "key E h (wr_handle w) = Some k" "pending E h (wr_handle w) = Some b"
    by (simp_all add: streaming_def)
  note frame = store_frame [OF assms(1), of h "Write (wr_handle w) d"]
  from write_accepted [OF assms(4) w(1) assms(3)] w frame show ?thesis
    by (auto simp: streaming_def key_snoc pending_snoc)
qed

lemma close_publishes:
  assumes "object_store E V" "streaming E w (s, p) b h" "od_writer_close E (Ptr a w) err h = (0, e, q, h')"
  shows "V h' s p = Some (FileNode b) \<and> unchanged_but {(s, p)} (V h) (V h') \<and> h' = h @ [CloseWriter (wr_handle w)]"
proof -
  from assms(2) have w: "wr_state w = WOpen" "key E h (wr_handle w) = Some (s, p)" "pending E h (wr_handle w) = Some b"
    by (simp_all add: streaming_def)
  from assms(3) w(1) have h': "h' = h @ [CloseWriter (wr_handle w)]" "on_unit E h' = ROk ()"
    by (auto simp: od_writer_close_def od_writer_close_body_def ffi_guard_def require_open_def invoke_def
        fail_writer_def split: reply.splits prod.splits outcome.splits)
  with w assms(1) have "V h' s p = Some (FileNode b)"
    by (auto simp: object_store_def publish_law_def closes_def)
  with h' w store_frame [OF assms(1), of h "CloseWriter (wr_handle w)"] show ?thesis by simp
qed

text \<open>A whole file: the writes, then the close.\<close>

lemma writes_publish:
  assumes "object_store E V" "list_all (\<lambda>d. length d < 2 ^ 63) bufs"
  shows "streaming E w (s, p) b h \<Longrightarrow> writer_run E (Ptr a w, h) (map WriteOp bufs @ [CloseOp]) = (rs, (q, h')) \<Longrightarrow> set rs \<subseteq> {0}
    \<Longrightarrow> V h' s p = Some (FileNode (b @ concat bufs)) \<and> unchanged_but {(s, p)} (V h) (V h')"
  using assms(2)
proof (induction bufs arbitrary: b h rs)
  case Nil
  then show ?case
    using close_publishes [OF assms(1), of w s p b h a] by (auto split: prod.splits)
next
  case (Cons d bufs)
  obtain r e q1 h1 where w: "od_writer_write E (Ptr a w) (Some d) (of_nat (length d)) None h = (r, e, q1, h1)" by (metis surj_pair)
  with Cons.prems have "r = 0" by (auto split: prod.splits)
  with write_streams [OF assms(1) Cons.prems(1) _ w [unfolded \<open>r = 0\<close>]] Cons.prems(4)
  have s: "q1 = Ptr a w" "streaming E w (s, p) (b @ d) h1" "unchanged_but {(s, p)} (V h) (V h1)" by auto
  with w Cons.prems(2,3) obtain rs' where "writer_run E (Ptr a w, h1) (map WriteOp bufs @ [CloseOp]) = (rs', (q, h'))" "set rs' \<subseteq> {0}"
    by (auto split: prod.splits)
  from Cons.IH [OF s(2) this] Cons.prems(4) s(3) show ?case by (auto intro: unchanged_trans)
qed

section \<open>Reading\<close>

text \<open>A file that has not changed since a handle was opened, and a reader on such a file.\<close>

definition held :: "env \<Rightarrow> view \<Rightarrow> nat \<Rightarrow> nat \<times> string \<Rightarrow> bytes \<Rightarrow> history \<Rightarrow> bool" where
  "held E V n k f h \<longleftrightarrow> opened E h n \<noteq> None \<and> (\<forall>g. since E h n g \<longrightarrow> V g (fst k) (snd k) = Some (FileNode f))"

definition steady :: "env \<Rightarrow> view \<Rightarrow> od_reader \<Rightarrow> nat \<times> string \<Rightarrow> bytes \<Rightarrow> history \<Rightarrow> bool" where
  "steady E V r k f h \<longleftrightarrow> key E h (rd_handle r) = Some k \<and> held E V (rd_handle r) k f h"

lemma held_opened:
  assumes "object_store E V" "gives E h c n" "V (h @ [c]) (fst k) (snd k) = Some (FileNode f)"
  shows "held E V n k f (h @ [c])"
proof -
  have "since E (h @ [c]) n g \<Longrightarrow> g = h @ [c]" for g
    using assms(2) unfolding since_def by (metis opened_snoc option.inject prefix_order.antisym)
  with assms show ?thesis by (auto simp: held_def opened_snoc)
qed

lemma opened_kept: "object_store E V \<Longrightarrow> opened E h n = Some h0 \<Longrightarrow> opened E (h @ [c]) n = Some h0"
  by (auto simp: opened_snoc object_store_def fresh_law_def)

lemma held_now: "held E V n k f h \<Longrightarrow> V h (fst k) (snd k) = Some (FileNode f)"
  by (auto simp: held_def intro: since_now)

lemma held_keeps:
  assumes "object_store E V" "held E V n k f h" "k \<notin> touched E h c"
  shows "held E V n k f (h @ [c])"
proof -
  from assms(2) obtain h0 where o: "opened E h n = Some h0" by (auto simp: held_def)
  with opened_kept [OF assms(1) o, of c] have o': "opened E (h @ [c]) n = Some h0" "\<not> gives E h c n"
    using assms(1) by (auto simp: object_store_def fresh_law_def)
  have "V (h @ [c]) (fst k) (snd k) = Some (FileNode f)"
    using unchanged_keeps [OF store_frame [OF assms(1)]] assms(3) held_now [OF assms(2)] by (metis prod.collapse)
  with assms(2) o'(1) since_snoc [OF _ o'(2)] show ?thesis unfolding held_def by (metis option.distinct(1))
qed

lemma reader_open_steady:
  assumes "object_store E V" "od_reader_open E (Ptr a op) (Some path) err h = (Some r, e, h1)"
    and "V h (service (od_op op)) path = Some (FileNode f)"
  shows "steady E V r (service (od_op op), path) f h1 \<and> V h1 = V h"
proof -
  let ?c = "ReaderWith (od_op op) path (concurrent (io_read (od_io op))) (read_chunk (od_io op))"
  from assms(2) have h1: "h1 = h @ [?c]" "gives E h ?c (rd_handle r)"
    by (auto simp: od_reader_open_def od_reader_open_body_def ffi_guard_def check_guard_def decode_or_leave_def
        await_or_leave_def invoke_def cstr_def gives_def split: sum.splits if_splits reply.splits)
  with assms(3) store_quiet [OF assms(1), of h ?c] held_opened [OF assms(1) h1(2)] show ?thesis
    by (simp add: steady_def key_snoc)
qed

lemma steady_keeps:
  assumes "object_store E V" "steady E V r k f h" "k \<notin> touched E h c"
  shows "steady E V r k f (h @ [c])"
  using assms by (simp add: steady_def key_kept held_keeps)

lemma steady_reads:
  assumes "object_store E V" "steady E V r k f h" "c \<in> {ReadInto (rd_handle r) a b, ReadRange (rd_handle r) a b}"
    and "on_bytes E (h @ [c]) = ROk d"
  shows "d = slice f a b"
proof -
  obtain s p where k: "k = (s, p)" by (cases k)
  with assms obtain g f' where "since E h (rd_handle r) g" "V g s p = Some (FileNode f')" "d = slice f' a b"
    unfolding object_store_def read_law_def steady_def by metis
  with assms(2) k show ?thesis by (auto simp: steady_def held_def)
qed

lemma slice_length [simp]: "length (slice f a b) \<le> unat b - unat a"
  by (simp add: slice_def)

text \<open>The read entry point: what a successful read delivers, and on a dependable store that it succeeds.\<close>

lemma read_delivers:
  assumes "object_store E V" "steady E V r k f h" "od_reader_read E (Ptr a r) offset len True err h = (n, e, out, h')" "n \<noteq> - 1"
  shows "out = Some (take (unat len) (drop (unat offset) f)) \<and> steady E V r k f h' \<and> V h' = V h"
proof (cases "len = 0")
  case True
  with assms(2,3) show ?thesis by (simp add: od_reader_read_def od_reader_read_body_def ffi_guard_def)
next
  case False
  with assms(3,4) obtain e_pos d where r: "checked_add offset len = Some e_pos"
    "on_bytes E (h @ [ReadInto (rd_handle r) offset e_pos]) = ROk d" "out = Some d" "h' = h @ [ReadInto (rd_handle r) offset e_pos]"
    by (auto simp: od_reader_read_def od_reader_read_body_def ffi_guard_def await_or_leave_def invoke_def
        split: if_splits option.splits reply.splits)
  from steady_reads [OF assms(1,2) _ r(2)] r(1,3) have "out = Some (take (unat len) (drop (unat offset) f))"
    by (simp add: slice_def checked_add_Some_iff)
  with r(4) steady_keeps [OF assms(1,2), of "ReadInto (rd_handle r) offset e_pos"]
    store_quiet [OF assms(1), of h "ReadInto (rd_handle r) offset e_pos"] show ?thesis by simp
qed

section \<open>A dependable store\<close>

lemma dependable_store: "dependable E V \<Longrightarrow> object_store E V"
  by (simp add: dependable_def)

lemma writer_open_val:
  assumes "dependable E V" "cap_write (od_cap op)" "utf8_valid path"
  shows "\<exists>w h1. od_writer_open E (Ptr a op) (Some path) err h = (Some w, set_ok err, h1)"
proof -
  obtain n where "on_handle E (h @ [WriterWith (od_op op) path (concurrent (io_write (od_io op))) (write_chunk (od_io op))]) = ROk n"
    using dependable_answers(7) [OF assms(1)] by (metis opens_writer.simps(1))
  with assms(2,3) show ?thesis
    by (simp add: od_writer_open_def od_writer_open_body_def ffi_guard_def require_def decode_or_leave_def cstr_def invoke_def)
qed

lemma write_val:
  assumes "dependable E V" "streaming E w k b h" "length d < 2 ^ 63"
  shows "\<exists>h1. od_writer_write E (Ptr a w) (Some d) (of_nat (length d)) err h = (0, set_ok err, Ptr a w, h1)"
proof (cases "d = []")
  case True
  then show ?thesis by (simp add: od_writer_write_def od_writer_write_body_def ffi_guard_def)
next
  case False
  have u: "unat (of_nat (length d) :: u64) = length d" using assms(3) by (rule unat_length)
  then have "of_nat (length d) \<noteq> (0 :: u64)" using False by (metis length_0_conv unat_0)
  moreover from u assms(3) have "\<not> of_nat (length d) > slice_limit" by (simp add: word_less_nat_alt slice_limit_def)
  moreover have "on_unit E (h @ [Write (wr_handle w) d]) = ROk ()"
    using assms(2) dependable_answers(8) [OF assms(1)] by (auto simp: streaming_def)
  ultimately show ?thesis
    using assms(2) u
    by (simp add: od_writer_write_def od_writer_write_body_def ffi_guard_def require_open_def streaming_def invoke_def)
qed

lemma close_val:
  assumes "dependable E V" "streaming E w k b h"
  shows "\<exists>q h1. od_writer_close E (Ptr a w) err h = (0, set_ok err, q, h1)"
proof -
  have "on_unit E (h @ [CloseWriter (wr_handle w)]) = ROk ()"
    using assms(2) dependable_answers(9) [OF assms(1)] by (auto simp: streaming_def)
  with assms(2) show ?thesis
    by (simp add: od_writer_close_def od_writer_close_body_def ffi_guard_def require_open_def streaming_def invoke_def)
qed

lemma writes_val:
  assumes "dependable E V" "list_all (\<lambda>d. length d < 2 ^ 63) bufs"
  shows "streaming E w k b h \<Longrightarrow>
    \<exists>t. writer_run E (Ptr a w, h) (map WriteOp bufs @ [CloseOp]) = (replicate (Suc (length bufs)) 0, t)"
  using assms(2)
proof (induction bufs arbitrary: b h)
  case Nil
  from close_val [OF assms(1) Nil(1), of a None] show ?case by auto
next
  case (Cons d bufs)
  from write_val [OF assms(1) Cons.prems(1), of d a None] Cons.prems(2) obtain h1 where
    w: "od_writer_write E (Ptr a w) (Some d) (of_nat (length d)) None h = (0, set_ok None, Ptr a w, h1)" by auto
  with write_streams [OF dependable_store [OF assms(1)] Cons.prems(1) _ w] Cons.prems(2)
  have "streaming E w k (b @ d) h1" by simp
  from Cons.IH [OF this] Cons.prems(2) w show ?case by auto
qed

lemma exists_val:
  assumes "dependable E V" "cap_stat (od_cap op)" "utf8_valid path"
  shows "od_exists E (Ptr a op) (Some path) err h =
    (if V h (service (od_op op)) path = None then 0 else 1, set_ok err, h @ [Exists (od_op op) path])"
proof -
  obtain b where b: "on_bool E (h @ [Exists (od_op op) path]) = ROk b"
    using dependable_answers(1) [OF assms(1)] by blast
  then have "b \<longleftrightarrow> V h (service (od_op op)) path \<noteq> None"
    by (rule store_replies(1) [OF dependable_store [OF assms(1)]])
  with b assms(2,3) show ?thesis
    by (simp add: od_exists_def od_exists_body_def ffi_guard_def require_def decode_or_leave_def cstr_def invoke_def)
qed

lemma stat_val:
  assumes "dependable E V" "cap_stat (od_cap op)" "utf8_valid path"
    and "V h (service (od_op op)) path = Some (FileNode f)" "length f < 2 ^ 64"
  shows "\<exists>m. od_stat E (Ptr a op) (Some path) (Some old) err h = ((), set_ok err, Some m, h @ [Stat (od_op op) path default_stat_opts])
    \<and> md_content_length m = of_nat (length f) \<and> md_is_dir m = 0"
proof -
  have "measurable (FileNode f)" using assms(5) by (simp add: measurable_def)
  with dependable_answers(2) [OF assms(1,4)] obtain m where
    m: "on_metadata E (h @ [Stat (od_op op) path default_stat_opts]) = ROk m" by blast
  from store_replies(2) [OF dependable_store [OF assms(1)] m] assms(4) have "describes m (FileNode f)" by simp
  then have "mode m = FILE" "unat (content_length m) = length f" by (simp_all add: describes_def)
  moreover from this(2) [symmetric] have "content_length m = of_nat (length f)" by simp
  ultimately have "mode m = FILE" "content_length m = of_nat (length f)" by simp_all
  with m assms(2,3) show ?thesis
    by (simp add: od_stat_def od_stat_body_def ffi_guard_def require_def decode_or_leave_def cstr_def invoke_def
        Let_def metadata_of_def is_dir_def)
qed

lemma reader_open_val:
  assumes "dependable E V" "cap_read (od_cap op)" "utf8_valid path" "V h (service (od_op op)) path = Some (FileNode f)"
  shows "\<exists>r h1. od_reader_open E (Ptr a op) (Some path) err h = (Some r, set_ok err, h1)"
proof -
  obtain n where "on_handle E (h @ [ReaderWith (od_op op) path (concurrent (io_read (od_io op))) (read_chunk (od_io op))]) = ROk n"
    using dependable_answers(4) [OF assms(1,4)] by blast
  with assms(2,3) show ?thesis
    by (simp add: od_reader_open_def od_reader_open_body_def ffi_guard_def require_def decode_or_leave_def cstr_def invoke_def)
qed

lemma read_val:
  assumes "dependable E V" "steady E V r k f h" "len \<le> isize_max" "unat offset + unat len < 2 ^ 64"
  shows "\<exists>h1. od_reader_read E (Ptr a r) offset len True err h =
    (int (length (take (unat len) (drop (unat offset) f))), set_ok err, Some (take (unat len) (drop (unat offset) f)), h1)
    \<and> steady E V r k f h1 \<and> V h1 = V h"
proof (cases "len = 0")
  case True
  with assms(2) show ?thesis by (simp add: od_reader_read_def od_reader_read_body_def ffi_guard_def)
next
  case False
  note store = dependable_store [OF assms(1)]
  let ?c = "ReadInto (rd_handle r) offset (offset + len)"
  from assms(4) have add: "checked_add offset len = Some (offset + len)" "unat (offset + len) = unat offset + unat len"
    by (simp_all add: checked_add_def unat_word_ariths)
  from assms(2) have "key E h (rd_handle r) = Some (fst k, snd k)" and "V h (fst k) (snd k) = Some (FileNode f)"
    using held_now by (auto simp: steady_def)
  from dependable_answers(5) [OF assms(1) this] obtain d where d: "on_bytes E (h @ [?c]) = ROk d" by blast
  with steady_reads [OF store assms(2), of ?c offset "offset + len" d] add(2) have "d = take (unat len) (drop (unat offset) f)"
    by (simp add: slice_def)
  moreover have "unat len \<le> 2 ^ 63 - 1" using assms(3) unat_isize_max by (simp add: word_le_nat_alt)
  ultimately have "od_reader_read E (Ptr a r) offset len True err h =
    (int (length (take (unat len) (drop (unat offset) f))), set_ok err, Some (take (unat len) (drop (unat offset) f)), h @ [?c])"
    using False assms(3) add(1) d
    by (simp add: od_reader_read_def od_reader_read_body_def ffi_guard_def invoke_def not_less)
  with steady_keeps [OF store assms(2), of ?c] store_quiet [OF store, of h ?c] show ?thesis by simp
qed

lemma reads_val:
  assumes "dependable E V" "list_all (\<lambda>n. n \<le> isize_max) lens" "unat offset + sum_list (map unat lens) < 2 ^ 64"
    and "steady E V r k f h"
  shows "read_seq E (Ptr a r) offset lens err h = Some (take (sum_list (map unat lens)) (drop (unat offset) f))"
  using assms(2-4)
proof (induction lens arbitrary: offset h)
  case Nil
  then show ?case by simp
next
  case (Cons len lens)
  then have bound: "unat offset + unat len < 2 ^ 64" by simp
  then have off: "unat (offset + len) = unat offset + unat len" by (simp add: unat_word_ariths)
  from read_val [OF assms(1) Cons.prems(3) _ bound] Cons.prems(1) obtain h1 where
    "od_reader_read E (Ptr a r) offset len True err h =
      (int (length (take (unat len) (drop (unat offset) f))), set_ok err, Some (take (unat len) (drop (unat offset) f)), h1)"
    "steady E V r k f h1" by fastforce
  moreover have "read_seq E (Ptr a r) (offset + len) lens err h1 =
      Some (take (sum_list (map unat lens)) (drop (unat (offset + len)) f))"
    using Cons.prems off calculation(2) by (intro Cons.IH) simp_all
  moreover have "take (unat len) (drop (unat offset) f) @ take (sum_list (map unat lens)) (drop (unat offset + unat len) f)
    = take (unat len + sum_list (map unat lens)) (drop (unat offset) f)"
    by (simp add: take_add add.commute)
  ultimately show ?case by (simp add: off)
qed

section \<open>Mutations as operations on the tree\<close>

text \<open>What a request does to the tree it is made on, and the paths it concerns.\<close>

fun does :: "request \<Rightarrow> tree \<Rightarrow> tree \<Rightarrow> bool" where
  "does (MakeDir p) T T' \<longleftrightarrow> T' (as_directory p) = Some DirNode"
| "does (Remove p all_below) T T' \<longleftrightarrow> T' p = None \<and> (all_below \<longrightarrow> (\<forall>q. prefix p q \<longrightarrow> T' q = None))"
| "does (Move f t) T T' \<longleftrightarrow> f \<noteq> t \<longrightarrow> T f \<noteq> None \<and> T' t = T f \<and> T' f = None"
| "does (Duplicate f t) T T' \<longleftrightarrow> T f \<noteq> None \<and> T' t = T f"

fun concerns :: "request \<Rightarrow> string \<Rightarrow> bool" where
  "concerns (MakeDir p) q \<longleftrightarrow> q = as_directory p"
| "concerns (Remove p all_below) q \<longleftrightarrow> (if all_below then prefix p q else q = p)"
| "concerns (Move f t) q \<longleftrightarrow> prefix f q \<or> prefix t q"
| "concerns (Duplicate f t) q \<longleftrightarrow> q = t"

lemma perform_on_tree:
  assumes "object_store E V" "perform E odop q err h = (r, e, h')"
  shows "(r = 0 \<longrightarrow> does q (V h (service (od_op odop))) (V h' (service (od_op odop))))
    \<and> unchanged_but {(service (od_op odop), p) |p. concerns q p} (V h) (V h')"
proof -
  let ?h1 = "h @ [request_call (od_op odop) q]"
  have t: "touched E h (request_call (od_op odop) q) = {(service (od_op odop), p) |p. concerns q p}"
    by (cases q) (auto simp: as_directory_def)
  have h': "h' = h \<and> r \<noteq> 0 \<or> h' = ?h1 \<and> (r = 0 \<longrightarrow> on_unit E ?h1 = ROk ())"
    using assms(2) by (auto simp: perform_def Let_def split: if_splits reply.splits)
  have "does q (V h (service (od_op odop))) (V ?h1 (service (od_op odop)))" if "on_unit E ?h1 = ROk ()"
  proof (cases q)
    case (MakeDir p)
    with that store_replies(7) [OF assms(1)] show ?thesis by (simp add: as_directory_def)
  next
    case (Remove p all_below)
    with that store_replies(5,6) [OF assms(1)] show ?thesis by (cases all_below) auto
  next
    case (Move f t)
    with that store_replies(9) [OF assms(1)] show ?thesis by simp
  next
    case (Duplicate f t)
    with that store_replies(8) [OF assms(1)] show ?thesis by simp
  qed
  with h' store_frame [OF assms(1), of h "request_call (od_op odop) q"] t show ?thesis by auto
qed

section \<open>Properties\<close>

text \<open>
  C4: an acknowledged file is published: on any store that keeps the contract, whatever fails, when
  opening a writer, every write of a sequence of buffers, and the close all report success, the file
  at the path holds exactly the buffers in order, and no other path has changed, but for directories
  made above it.
\<close>

theorem acknowledged_file_published:
  assumes "object_store E V" and "list_all (\<lambda>d. length d < 2 ^ 63) bufs"
    and "od_writer_open E (Ptr a op) (Some path) err h = (Some w, e, h1)"
    and "writer_run E (Ptr b w, h1) (map WriteOp bufs @ [CloseOp]) = (rs, (q, h2))" "set rs \<subseteq> {0}"
  shows "V h2 (service (od_op op)) path = Some (FileNode (concat bufs))
    \<and> unchanged_but {(service (od_op op), path)} (V h) (V h2)"
proof -
  from writer_open_streaming [OF assms(1,3)]
  have o: "streaming E w (service (od_op op), path) [] h1" "unchanged_but {(service (od_op op), path)} (V h) (V h1)" by auto
  from writes_publish [OF assms(1,2) o(1) assms(4,5)] o(2) show ?thesis by (auto intro: unchanged_trans)
qed

theorem acknowledged_file_published_witness:
  "\<exists>w h1 rs q h2. od_writer_open mem_env (Ptr 1 full_operator) (Some ''a'') None [] = (Some w, None, h1)
    \<and> writer_run mem_env (Ptr 2 w, h1) [WriteOp ''ab'', WriteOp ''c'', CloseOp] = (rs, (q, h2))
    \<and> mem_view h2 0 ''a'' = Some (FileNode ''abc'')"
proof -
  let ?bufs = "[''ab'', ''c'']"
  have caps: "cap_write (od_cap full_operator)" "utf8_valid ''a''" by (simp_all add: full_operator_def is_ascii_def)
  obtain w h1 where w: "od_writer_open mem_env (Ptr 1 full_operator) (Some ''a'') None [] = (Some w, None, h1)"
    using writer_open_val [OF mem_dependable caps, of 1 None "[]"] by (auto simp: set_ok_def)
  with writer_open_streaming [OF mem_store] have o: "streaming mem_env w (service (od_op full_operator), ''a'') [] h1" by blast
  have l: "list_all (\<lambda>d. length d < 2 ^ 63) ?bufs" by simp
  from writes_val [OF mem_dependable l o] obtain q h2 where
    r: "writer_run mem_env (Ptr 2 w, h1) (map WriteOp ?bufs @ [CloseOp]) = (replicate (Suc (length ?bufs)) 0, (q, h2))" by fastforce
  from acknowledged_file_published [OF mem_store l w r] r w show ?thesis by (auto simp: full_operator_def)
qed

text \<open>
  C3: a file written through the boundary is the file found, measured and read through it: on a
  dependable store every call of the way succeeds, \<open>od_exists\<close> answers 1, \<open>od_stat\<close> gives the number
  of bytes written, and reading in pieces of any lengths delivers the buffers' bytes in order.
\<close>

theorem file_round_trip:
  assumes "dependable E V" and "cap_write (od_cap op)" "cap_read (od_cap op)" "cap_stat (od_cap op)" "utf8_valid path"
    and "list_all (\<lambda>d. length d < 2 ^ 63) bufs" "length (concat bufs) < 2 ^ 64"
    and "list_all (\<lambda>n. n \<le> isize_max) lens" "sum_list (map unat lens) < 2 ^ 64"
  shows "\<exists>w h1 q h2 h3 m h4 r h5.
      od_writer_open E (Ptr a op) (Some path) err h = (Some w, set_ok err, h1)
    \<and> writer_run E (Ptr b w, h1) (map WriteOp bufs @ [CloseOp]) = (replicate (Suc (length bufs)) 0, (q, h2))
    \<and> od_exists E (Ptr a op) (Some path) err h2 = (1, set_ok err, h3)
    \<and> od_stat E (Ptr a op) (Some path) (Some old) err h3 = ((), set_ok err, Some m, h4)
    \<and> unat (md_content_length m) = length (concat bufs) \<and> md_is_dir m = 0
    \<and> od_reader_open E (Ptr a op) (Some path) err h4 = (Some r, set_ok err, h5)
    \<and> read_seq E (Ptr c r) 0 lens err h5 = Some (take (sum_list (map unat lens)) (concat bufs))"
proof -
  note store = dependable_store [OF assms(1)]
  let ?file = "concat bufs"
  obtain w h1 where w: "od_writer_open E (Ptr a op) (Some path) err h = (Some w, set_ok err, h1)"
    using writer_open_val [OF assms(1,2,5)] by blast
  with writer_open_streaming [OF store] have o: "streaming E w (service (od_op op), path) [] h1" by blast
  from writes_val [OF assms(1,6) o] obtain q h2 where
    ws: "writer_run E (Ptr b w, h1) (map WriteOp bufs @ [CloseOp]) = (replicate (Suc (length bufs)) 0, (q, h2))" by fastforce
  from writes_publish [OF store assms(6) o ws] have V2: "V h2 (service (od_op op)) path = Some (FileNode ?file)"
    by (auto simp: set_replicate_conv_if)
  let ?h3 = "h2 @ [Exists (od_op op) path]"
  have V3: "V ?h3 (service (od_op op)) path = Some (FileNode ?file)" using V2 store_quiet [OF store, of h2] by simp
  let ?h4 = "?h3 @ [Stat (od_op op) path default_stat_opts]"
  have V4: "V ?h4 (service (od_op op)) path = Some (FileNode ?file)" using V3 store_quiet [OF store, of ?h3] by simp
  obtain m where m: "od_stat E (Ptr a op) (Some path) (Some old) err ?h3 = ((), set_ok err, Some m, ?h4)"
    "md_content_length m = of_nat (length ?file)" "md_is_dir m = 0"
    using stat_val [OF assms(1,4,5) V3 assms(7)] by blast
  obtain r h5 where r: "od_reader_open E (Ptr a op) (Some path) err ?h4 = (Some r, set_ok err, h5)"
    using reader_open_val [OF assms(1,3,5) V4] by blast
  with reader_open_steady [OF store _ V4] have "steady E V r (service (od_op op), path) ?file h5" by blast
  from reads_val [OF assms(1,8) _ this, of 0] assms(9)
  have "read_seq E (Ptr c r) 0 lens err h5 = Some (take (sum_list (map unat lens)) ?file)" by simp
  moreover have "od_exists E (Ptr a op) (Some path) err h2 = (1, set_ok err, ?h3)"
    using exists_val [OF assms(1,4,5), of a err h2] V2 by simp
  moreover have "unat (md_content_length m) = length ?file"
    using m(2) assms(7) by (simp add: unsigned_of_nat take_bit_nat_eq_self)
  ultimately show ?thesis using w ws m(1,3) r by blast
qed

theorem file_round_trip_witness:
  "\<exists>r h. read_seq mem_env (Ptr 3 r) 0 [2, 5] None h = Some ''abc''"
proof -
  have caps: "cap_write (od_cap full_operator)" "cap_read (od_cap full_operator)" "cap_stat (od_cap full_operator)"
    "utf8_valid ''a''" by (simp_all add: full_operator_def is_ascii_def)
  have fits: "list_all (\<lambda>d. length d < 2 ^ 63) [''ab'', ''c'']" "length (concat [''ab'', ''c'']) < 2 ^ 64"
    "list_all (\<lambda>n. n \<le> isize_max) [2, 5]" "sum_list (map unat [2 :: u64, 5]) < 2 ^ 64"
    by (simp_all add: isize_max_def)
  from file_round_trip [OF mem_dependable caps fits, of 1 None "[]" 2 undefined 3] show ?thesis
    by (auto simp: set_ok_def)
qed



end
