(* ===== verification/Trees.thy ===== *)
theory Trees
  imports Files
begin

text \<open>
  Copies on a store that keeps the contract: one planned copy, streamed or on the server, publishes
  the bytes of its source, and a whole copy scan copies the tree it planned.
\<close>

section \<open>One file\<close>

text \<open>A stream under way: the source unchanged since the reader was opened, a part of it accepted.\<close>

definition carrying :: "env \<Rightarrow> view \<Rightarrow> nat \<Rightarrow> nat \<Rightarrow> nat \<times> string \<Rightarrow> nat \<times> string \<Rightarrow> bytes \<Rightarrow> nat \<Rightarrow> history \<Rightarrow> bool" where
  "carrying E V r w src dst f k h \<longleftrightarrow>
     key E h r = Some src \<and> held E V r src f h \<and> key E h w = Some dst \<and> pending E h w = Some (take k f)"

lemma carrying_read:
  assumes "object_store E V" "carrying E V r w src dst f k h" "on_bytes E (h @ [ReadRange r a b]) = ROk d"
  shows "d = slice f a b" "carrying E V r w src dst f k (h @ [ReadRange r a b])" "V (h @ [ReadRange r a b]) = V h"
proof -
  from assms(2) have s: "steady E V \<lparr>rd_handle = r\<rparr> src f h" by (simp add: carrying_def steady_def)
  from steady_reads [OF assms(1) s, of "ReadRange r a b"] assms(3) show "d = slice f a b" by simp
  from assms(2) held_keeps [OF assms(1), of r src f h "ReadRange r a b"]
  show "carrying E V r w src dst f k (h @ [ReadRange r a b])"
    by (simp add: carrying_def key_kept [OF assms(1)] pending_snoc)
  show "V (h @ [ReadRange r a b]) = V h" by (rule store_quiet [OF assms(1)]) simp
qed

lemma carrying_write:
  assumes "object_store E V" "carrying E V r w src dst f k h" "src \<noteq> dst"
    and "on_unit E (h @ [Write w d]) = ROk ()" "take k f @ d = take k' f"
  shows "carrying E V r w src dst f k' (h @ [Write w d])" "unchanged_but {dst} (V h) (V (h @ [Write w d]))"
proof -
  from assms(2) have "touched E h (Write w d) = {dst}" by (simp add: carrying_def)
  with store_frame [OF assms(1), of h "Write w d"] show "unchanged_but {dst} (V h) (V (h @ [Write w d]))" by simp
  from assms held_keeps [OF assms(1), of r src f h "Write w d"]
  show "carrying E V r w src dst f k' (h @ [Write w d])"
    by (simp add: carrying_def key_kept [OF assms(1)] pending_snoc)
qed

lemma stream_loop_carries:
  assumes "object_store E V" "chunk \<noteq> 0" "length f = unat n" "src \<noteq> dst"
  shows "offset \<le> n \<Longrightarrow> carrying E V r w src dst f (unat offset) h \<Longrightarrow>
    stream_loop E r w n chunk offset h = Some (ROk k, h') \<Longrightarrow>
    k = n \<and> carrying E V r w src dst f (unat n) h' \<and> unchanged_but {dst} (V h) (V h')"
proof (induction "unat n - unat offset" arbitrary: offset h rule: less_induct)
  case less
  show ?case
  proof (cases "offset < n")
    case False
    with less.prems show ?thesis by (subst (asm) stream_loop.simps) (auto simp: not_less)
  next
    case True
    let ?e = "min n (saturating_add offset chunk)"
    note e = chunk_end [OF True assms(2)]
    from less.prems(3) True obtain d where
      d: "on_bytes E (h @ [ReadRange r offset ?e]) = ROk d"
      and wr: "on_unit E ((h @ [ReadRange r offset ?e]) @ [Write w d]) = ROk ()"
      and loop: "stream_loop E r w n chunk ?e ((h @ [ReadRange r offset ?e]) @ [Write w d]) = Some (ROk k, h')"
      by (subst (asm) stream_loop.simps)
        (auto simp: Let_def invoke_def abort_writer_def split: reply.splits)
    note read = carrying_read [OF assms(1) less.prems(2) d]
    have "take (unat offset) f @ d = take (unat ?e) f"
      using e(1) by (simp add: read(1) slice_def flip: take_add)
    note written = carrying_write [OF assms(1) read(2) assms(4) wr this]
    have "unat n - unat ?e < unat n - unat offset" using e(1,2) by linarith
    from less.hyps [OF this _ written(1) loop] e(2) written(2) read(3) show ?thesis
      by (auto simp: word_le_nat_alt intro: unchanged_trans)
  qed
qed

lemma stream_copy_publishes:
  assumes "object_store E V" "co_chunk o1 \<noteq> Some 0" "length f = unat n" "(service (od_op sop), s) \<noteq> (service (od_op dop), d)"
    and "V h (service (od_op sop)) s = Some (FileNode f)" "stream_copy E sop dop s d o1 n h = Some (ROk (k, m), h')"
  shows "k = n \<and> V h' (service (od_op dop)) d = Some (FileNode f)
    \<and> unchanged_but {(service (od_op dop), d)} (V h) (V h')"
proof -
  let ?src = "(service (od_op sop), s)" and ?dst = "(service (od_op dop), d)"
  let ?r = "ReaderOptions (od_op sop) s (copy_reader_options o1 n)" and ?w = "WriterOptions (od_op dop) d (copy_writer_options o1)"
  let ?g = "(h @ [?r]) @ [?w]"
  from assms(6) obtain r w h3 where r: "on_handle E (h @ [?r]) = ROk r" and w: "on_handle E ?g = ROk w"
    and loop: "stream_loop E r w n (copy_chunk o1) 0 ?g = Some (ROk k, h3)"
    and close: "on_metadata E (h3 @ [CloseWriter w]) = ROk m" and h': "h' = h3 @ [CloseWriter w]"
    by (auto simp: stream_copy_def invoke_def reply_bind_def abort_writer_def split: reply.splits Option.bind_splits prod.splits)
  have gr: "gives E h ?r r" and gw: "gives E (h @ [?r]) ?w w" using r w by (simp_all add: gives_def)
  have V1: "V (h @ [?r]) = V h" by (rule store_quiet [OF assms(1)]) simp
  have "held E V r ?src f (h @ [?r])" by (rule held_opened [OF assms(1) gr]) (simp add: V1 assms(5))
  then have "held E V r ?src f ?g" by (rule held_keeps [OF assms(1)]) (use assms(4) in auto)
  moreover have "key E ?g r = Some ?src"
    by (rule key_kept [OF assms(1)]) (use gr in \<open>simp add: key_snoc\<close>)
  ultimately have "carrying E V r w ?src ?dst f (unat 0) ?g"
    using gw key_snoc [of E "h @ [?r]" ?w] pending_snoc [of E "h @ [?r]" ?w] by (simp add: carrying_def)
  from stream_loop_carries [OF assms(1) copy_chunk_pos [OF assms(2)] assms(3,4) _ this loop]
  have c: "k = n" "carrying E V r w ?src ?dst f (unat n) h3" "unchanged_but {?dst} (V ?g) (V h3)" by auto
  have t: "touched E h3 (CloseWriter w) = {?dst}" using c(2) by (simp add: carrying_def)
  from c(2) assms(3) close assms(1) have "V h' (fst ?dst) (snd ?dst) = Some (FileNode f)"
    unfolding h' by (fastforce simp: carrying_def closes_def object_store_def publish_law_def)
  moreover have "unchanged_but {?dst} (V h) (V h')"
    using store_frame [OF assms(1), of "h @ [?r]" ?w] c(3) store_frame [OF assms(1), of h3 "CloseWriter w"] t V1 h'
    by (auto intro: unchanged_trans)
  ultimately show ?thesis using c(1) by simp
qed

text \<open>The calls of a copier touch its destination only, and its source stays as it was.\<close>

lemma copier_calls_keep:
  assumes "object_store E V" "src \<noteq> dst"
  shows "opened E h c = Some h0 \<Longrightarrow> key E h c = Some dst \<Longrightarrow> held E V c src f h \<Longrightarrow>
    opened E (h @ replicate k (CopierNext c)) c = Some h0 \<and> key E (h @ replicate k (CopierNext c)) c = Some dst
    \<and> held E V c src f (h @ replicate k (CopierNext c)) \<and> unchanged_but {dst} (V h) (V (h @ replicate k (CopierNext c)))"
proof (induction k arbitrary: h)
  case 0
  then show ?case by simp
next
  case (Suc k)
  let ?h = "h @ [CopierNext c]"
  from Suc.prems(2) have t: "touched E h (CopierNext c) = {dst}" by simp
  have "opened E ?h c = Some h0" "key E ?h c = Some dst" "held E V c src f ?h"
    using Suc.prems t assms(2) opened_kept [OF assms(1)] key_kept [OF assms(1)] held_keeps [OF assms(1)] by auto
  from Suc.IH [OF this] store_frame [OF assms(1), of h "CopierNext c"] t show ?case
    by (auto intro: unchanged_trans)
qed

lemma server_copy_publishes:
  assumes "object_store E V" "co_source_version o1 = None" "s \<noteq> d"
    and "V h (service (od_op sop)) s = Some (FileNode f)" "server_copy E sop s d o1 n h = Some (ROk (k, m), h')"
  shows "V h' (service (od_op sop)) d = Some (FileNode f) \<and> unchanged_but {(service (od_op sop), d)} (V h) (V h')"
proof -
  let ?sv = "service (od_op sop)"
  let ?c = "CopierOptions (od_op sop) s d o1"
  from server_copy_ends [OF assms(5)] obtain c copied g where c: "on_handle E (h @ [?c]) = ROk c"
    and run: "copier_done E c 0 (h @ [?c]) copied g" and h': "h' = g @ [CopierClose c]" "on_metadata E h' = ROk m" by auto
  from run obtain i where g: "g = (h @ [?c]) @ replicate i (CopierNext c)"
    unfolding copier_done_def by blast
  have gc: "gives E h ?c c" using c by (simp add: gives_def)
  have f1: "unchanged_but {(?sv, d)} (V h) (V (h @ [?c]))" using store_frame [OF assms(1), of h ?c] by simp
  have "held E V c (?sv, s) f (h @ [?c])"
    by (rule held_opened [OF assms(1) gc]) (use unchanged_keeps [OF f1] assms(3,4) in auto)
  from copier_calls_keep [OF assms(1), of "(?sv, s)" "(?sv, d)", OF _ _ _ this, of "h @ [?c]" i] assms(3) gc
  have k: "opened E g c = Some (h @ [?c])" "key E g c = Some (?sv, d)" "held E V c (?sv, s) f g"
    "unchanged_but {(?sv, d)} (V (h @ [?c])) (V g)"
    by (auto simp: g opened_snoc key_snoc)
  from assms(1) k(1) assms(2) h' obtain g' f' where "since E g c g'" "V g' ?sv s = Some (FileNode f')"
    "V h' ?sv d = Some (FileNode f')"
    unfolding object_store_def copier_law_def by metis
  with k(3) have "V h' ?sv d = Some (FileNode f)" by (auto simp: held_def)
  with f1 k(2,4) store_frame [OF assms(1), of g "CopierClose c"] h' show ?thesis
    by (auto intro: unchanged_trans)
qed

text \<open>A planned copy of either kind.\<close>

lemma copy_one_publishes:
  assumes "object_store E V" "co_chunk o1 \<noteq> Some 0" "co_source_version o1 = None" "same \<longrightarrow> dop = sop" "length f = unat n"
    and "(service (od_op sop), s) \<noteq> (service (od_op dop), d)"
    and "V h (service (od_op sop)) s = Some (FileNode f)" "copy_one E sop dop s d o1 same n h = Some (ROk (k, m), h')"
  shows "V h' (service (od_op dop)) d = Some (FileNode f) \<and> unchanged_but {(service (od_op dop), d)} (V h) (V h')
    \<and> (\<not> same \<longrightarrow> k = n)"
proof -
  let ?o = "o1\<lparr>co_hint := Some n\<rparr>"
  from assms(8) obtain m' h1 where
    run: "(if same then server_copy E sop s d ?o n h else stream_copy E sop dop s d ?o n h) = Some (ROk (k, m'), h1)"
    and h': "h' = h1 @ [Stat (od_op dop) d default_stat_opts]"
    by (auto simp: copy_one_def Let_def invoke_def reply_bind_def split: Option.bind_splits prod.splits reply.splits)
  have V': "V h' = V h1" unfolding h' by (rule store_quiet [OF assms(1)]) simp
  show ?thesis
  proof (cases same)
    case True
    with run assms server_copy_publishes [OF assms(1), of ?o s d h sop f n k m' h1] V' show ?thesis by auto
  next
    case False
    with run assms stream_copy_publishes [OF assms(1), of ?o f n sop s dop d h k m' h1] V' show ?thesis by auto
  qed
qed

text \<open>Whatever happens, a copy touches its destination only.\<close>

lemma confined_call:
  "object_store E V \<Longrightarrow> unchanged_but {k} T (V h) \<Longrightarrow> touched E h c \<subseteq> {k} \<Longrightarrow> unchanged_but {k} T (V (h @ [c]))"
  using store_frame [of E V h c] by (auto intro: unchanged_trans unchanged_mono)

definition confined :: "env \<Rightarrow> view \<Rightarrow> nat \<Rightarrow> nat \<times> string \<Rightarrow> (nat \<Rightarrow> tree) \<Rightarrow> history \<Rightarrow> bool" where
  "confined E V n k T h \<longleftrightarrow> key E h n = Some k \<and> unchanged_but {k} T (V h)"

lemma confined_snoc:
  "object_store E V \<Longrightarrow> confined E V n k T h \<Longrightarrow> touched E h c \<subseteq> {k} \<Longrightarrow> confined E V n k T (h @ [c])"
  by (simp add: confined_def confined_call key_kept)

lemma confined_handle:
  assumes "object_store E V" "confined E V n k T h"
  shows "confined E V n k T (h @ [ReadRange m a b])" "confined E V n k T (h @ [Write n d])"
    "confined E V n k T (h @ [AbortWriter n])" "confined E V n k T (h @ [CloseWriter n])"
    "confined E V n k T (h @ [CopierNext n])" "confined E V n k T (h @ [CopierAbort n])"
    "confined E V n k T (h @ [CopierClose n])"
proof -
  from assms(2) have "key E h n = Some k" by (simp add: confined_def)
  then show "confined E V n k T (h @ [ReadRange m a b])" "confined E V n k T (h @ [Write n d])"
    "confined E V n k T (h @ [AbortWriter n])" "confined E V n k T (h @ [CloseWriter n])"
    "confined E V n k T (h @ [CopierNext n])" "confined E V n k T (h @ [CopierAbort n])"
    "confined E V n k T (h @ [CopierClose n])"
    by (simp_all add: confined_snoc [OF assms])
qed

lemma stream_loop_confined_all:
  "stream_loop E r w n chunk offset h = Some res \<Longrightarrow>
    \<forall>V k T. object_store E V \<longrightarrow> confined E V w k T h \<longrightarrow> confined E V w k T (snd res)"
proof (erule stream_loop.raw_induct [rotated], goal_cases)
  case (1 loop E r w n chunk offset h res)
  show ?case
  proof (intro allI impI)
    fix V k T
    assume store: "object_store E V" and c: "confined E V w k T h"
    note keep = confined_handle [OF store] and IH = 1(1) [THEN spec, THEN spec, THEN spec, THEN mp, THEN mp, OF _ store]
    show "confined E V w k T (snd res)"
    proof (cases "offset < n")
      case False
      with 1(2) c show ?thesis by auto
    next
      case True
      with 1(2) show ?thesis
        by (auto simp: Let_def invoke_def abort_writer_def simp del: append_assoc split: reply.splits intro!: keep c elim!: IH)
    qed
  qed
qed

lemma copier_loop_confined_all:
  "copier_loop E n copied h = Some res \<Longrightarrow>
    \<forall>V k T. object_store E V \<longrightarrow> confined E V n k T h \<longrightarrow> confined E V n k T (snd res)"
proof (erule copier_loop.raw_induct [rotated], goal_cases)
  case (1 loop E n copied h res)
  show ?case
  proof (intro allI impI)
    fix V k T
    assume store: "object_store E V" and c: "confined E V n k T h"
    note keep = confined_handle [OF store] and IH = 1(1) [THEN spec, THEN spec, THEN spec, THEN mp, THEN mp, OF _ store]
    from 1(2) show "confined E V n k T (snd res)"
      by (auto simp: invoke_def abort_copier_def simp del: append_assoc split: reply.splits option.splits
          intro!: keep c elim!: IH)
  qed
qed

lemma opened_confined:
  assumes "object_store E V" "on_handle E (h @ [c]) = ROk n" "opens c = Some k" "touched E h c = {k}" "unchanged_but {k} T (V h)"
  shows "confined E V n k T (h @ [c])"
  using assms by (simp add: confined_def key_snoc gives_def confined_call)

lemma stream_copy_confined:
  assumes "object_store E V" "stream_copy E sop dop s d o1 n h = Some (res, h')"
  shows "unchanged_but {(service (od_op dop), d)} (V h) (V h')"
proof -
  let ?k = "(service (od_op dop), d)"
  let ?r = "ReaderOptions (od_op sop) s (copy_reader_options o1 n)" and ?w = "WriterOptions (od_op dop) d (copy_writer_options o1)"
  let ?g = "(h @ [?r]) @ [?w]"
  have V1: "V (h @ [?r]) = V h" by (rule store_quiet [OF assms(1)]) simp
  have g: "unchanged_but {?k} (V h) (V ?g)" by (rule confined_call [OF assms(1)]) (simp_all add: V1)
  show ?thesis
  proof (cases "\<exists>r w. on_handle E (h @ [?r]) = ROk r \<and> on_handle E ?g = ROk w")
    case False
    with assms(2) g V1 show ?thesis
      by (auto simp: stream_copy_def invoke_def split: reply.splits)
        (cases "on_handle E (h @ [?r])"; cases "on_handle E ?g"; auto)+
  next
    case True
    then obtain r w where rw: "on_handle E (h @ [?r]) = ROk r" "on_handle E ?g = ROk w" by blast
    have c: "confined E V w ?k (V h) ?g"
      by (rule opened_confined [OF assms(1)]) (use rw V1 in auto)
    from assms(2) rw obtain res1 h1 where loop: "stream_loop E r w n (copy_chunk o1) 0 ?g = Some (res1, h1)"
      by (cases "stream_loop E r w n (copy_chunk o1) 0 ?g") (auto simp: stream_copy_def invoke_def)
    from stream_loop_confined_all [OF loop] assms(1) c have c1: "confined E V w ?k (V h) h1" by fastforce
    note keep = confined_handle [OF assms(1)]
    from assms(2) rw loop have "h' = h1 \<or> h' = h1 @ [CloseWriter w] \<or> h' = (h1 @ [CloseWriter w]) @ [AbortWriter w]"
      by (cases res1) (auto simp: stream_copy_def invoke_def abort_writer_def split: reply.splits)
    with c1 keep(4) [OF c1] keep(3) [OF keep(4) [OF c1]] show ?thesis by (auto simp: confined_def)
  qed
qed

lemma server_copy_confined:
  assumes "object_store E V" "server_copy E sop s d o1 n h = Some (res, h')"
  shows "unchanged_but {(service (od_op sop), d)} (V h) (V h')"
proof -
  let ?k = "(service (od_op sop), d)" and ?c = "CopierOptions (od_op sop) s d o1"
  have g: "unchanged_but {?k} (V h) (V (h @ [?c]))" by (rule confined_call [OF assms(1)]) simp_all
  show ?thesis
  proof (cases "on_handle E (h @ [?c])")
    case (ROk c)
    have c: "confined E V c ?k (V h) (h @ [?c])" by (rule opened_confined [OF assms(1) ROk]) simp_all
    from assms(2) ROk obtain res1 h1 where loop: "copier_loop E c 0 (h @ [?c]) = Some (res1, h1)"
      by (cases "copier_loop E c 0 (h @ [?c])") (auto simp: server_copy_def invoke_def)
    from copier_loop_confined_all [OF loop] assms(1) c have c1: "confined E V c ?k (V h) h1" by fastforce
    from assms(2) ROk loop have "h' = h1 \<or> h' = h1 @ [CopierClose c]"
      by (cases res1; cases "on_metadata E (h1 @ [CopierClose c])") (auto simp: server_copy_def invoke_def)
    with c1 confined_handle(7) [OF assms(1) c1] show ?thesis by (auto simp: confined_def)
  qed (use assms(2) g in \<open>auto simp: server_copy_def invoke_def\<close>)
qed

lemma copy_one_confined:
  assumes "object_store E V" "same \<longrightarrow> dop = sop" "copy_one E sop dop s d o1 same n h = Some (res, h')"
  shows "unchanged_but {(service (od_op dop), d)} (V h) (V h')"
proof -
  let ?run = "if same then server_copy E sop s d (o1\<lparr>co_hint := Some n\<rparr>) n h
    else stream_copy E sop dop s d (o1\<lparr>co_hint := Some n\<rparr>) n h"
  from assms(3) obtain res1 h1 where run: "?run = Some (res1, h1)"
    by (cases ?run) (auto simp: copy_one_def Let_def)
  with assms(1,2) have "unchanged_but {(service (od_op dop), d)} (V h) (V h1)"
    by (auto split: if_splits intro: server_copy_confined stream_copy_confined)
  moreover have "h' = h1 \<or> h' = h1 @ [Stat (od_op dop) d default_stat_opts]"
    using assms(3) run by (auto simp: copy_one_def Let_def invoke_def reply_bind_def split: prod.splits reply.splits)
  ultimately show ?thesis using store_quiet [OF assms(1), of h1 "Stat (od_op dop) d default_stat_opts"] by auto
qed

section \<open>A planned tree\<close>

text \<open>The client's loop: step the cursor until it ends, and keep the result codes.\<close>

fun copy_all :: "env \<Rightarrow> nat \<Rightarrow> od_copy_cursor ptr \<Rightarrow> od_copy_row \<Rightarrow> history \<Rightarrow> (int list \<times> history) option" where
  "copy_all E 0 p row h = None"
| "copy_all E (Suc k) p row h =
     (case od_copy_cursor_next E p (Some row) None h of
        Some (r, _, out, p', h') \<Rightarrow>
          if r = 0 then Some ([], h') else map_option (apfst ((#) r)) (copy_all E k p' row h')
      | None \<Rightarrow> None)"

text \<open>A step of the cursor is a copy of the first planned pair.\<close>

lemma next_copies:
  assumes "od_copy_cursor_next E (Ptr a c) (Some row) err h = Some (r, e, out, p', h')" "cc_plan c = (s, d, n) # plan"
  shows "\<exists>res c'. p' = Ptr a c' \<and> cc_plan c' = plan \<and> cc_source_op c' = cc_source_op c
    \<and> cc_destination_op c' = cc_destination_op c \<and> cc_options c' = cc_options c \<and> cc_same_op_copy c' = cc_same_op_copy c
    \<and> copy_one E (cc_source_op c) (cc_destination_op c) s d (cc_options c) (cc_same_op_copy c) n h = Some (res, h')
    \<and> r \<noteq> 0 \<and> (r = 1 \<longrightarrow> (\<exists>k m. res = ROk (k, m)))"
proof -
  let ?one = "copy_one E (cc_source_op c) (cc_destination_op c) s d (cc_options c) (cc_same_op_copy c) n h"
  from assms obtain res h1 where one: "?one = Some (res, h1)"
    by (cases ?one) (auto simp: od_copy_cursor_next_def od_copy_cursor_next_body_def)
  with assms show ?thesis
    by (cases res) (auto simp: od_copy_cursor_next_def od_copy_cursor_next_body_def ffi_guard_def Let_def split: sum.splits)
qed

text \<open>A plan that can be carried out: sources are there with the planned sizes, and no path is used twice.\<close>

definition sound_plan :: "view \<Rightarrow> nat \<Rightarrow> nat \<Rightarrow> (string \<times> string \<times> u64) list \<Rightarrow> history \<Rightarrow> bool" where
  "sound_plan V sv dv plan h \<longleftrightarrow>
     (\<forall>x \<in> set plan. \<exists>f. V h sv (fst x) = Some (FileNode f) \<and> length f = unat (snd (snd x)))
   \<and> distinct (map (\<lambda>x. fst (snd x)) plan)
   \<and> (\<forall>x \<in> set plan. \<forall>y \<in> set plan. (sv, fst x) \<noteq> (dv, fst (snd y)))"

definition destinations :: "nat \<Rightarrow> (string \<times> string \<times> u64) list \<Rightarrow> (nat \<times> string) set" where
  "destinations dv plan = (\<lambda>x. (dv, fst (snd x))) ` set plan"

lemma destinations_Cons [simp]: "destinations dv (x # plan) = insert (dv, fst (snd x)) (destinations dv plan)"
  by (simp add: destinations_def)

lemma sound_plan_source:
  assumes "sound_plan V sv dv plan h" "unchanged_but {(dv, fst (snd y))} (V h) (V h')" "x \<in> set plan" "y \<in> set plan"
  shows "V h' sv (fst x) = V h sv (fst x)"
proof -
  from assms obtain f where "V h sv (fst x) = Some (FileNode f)" "(sv, fst x) \<notin> {(dv, fst (snd y))}"
    unfolding sound_plan_def by blast
  with unchanged_keeps [OF assms(2)] show ?thesis by metis
qed

lemma sound_plan_step:
  assumes "sound_plan V sv dv (y # plan) h" "unchanged_but {(dv, fst (snd y))} (V h) (V h')"
  shows "sound_plan V sv dv plan h'"
proof -
  have "V h' sv (fst x) = V h sv (fst x)" if "x \<in> set plan" for x
    using that by (intro sound_plan_source [OF assms]) simp_all
  with assms(1) show ?thesis by (simp add: sound_plan_def)
qed

lemma copy_all_publishes:
  assumes "object_store E V" "co_chunk (cc_options c) \<noteq> Some 0" "co_source_version (cc_options c) = None"
    and "cc_same_op_copy c \<longrightarrow> cc_destination_op c = cc_source_op c"
    and "sound_plan V (service (od_op (cc_source_op c))) (service (od_op (cc_destination_op c))) (cc_plan c) h"
    and "copy_all E k (Ptr a c) row h = Some (rs, h')"
  shows "length rs = length (cc_plan c)
    \<and> unchanged_but (destinations (service (od_op (cc_destination_op c))) (cc_plan c)) (V h) (V h')
    \<and> (\<forall>i < length rs. rs ! i = 1 \<longrightarrow>
         V h' (service (od_op (cc_destination_op c))) (fst (snd (cc_plan c ! i)))
           = V h (service (od_op (cc_source_op c))) (fst (cc_plan c ! i)))"
  using assms
proof (induction "cc_plan c" arbitrary: c h k rs)
  case Nil
  then show ?case
    by (cases k) (auto simp: od_copy_cursor_next_def od_copy_cursor_next_body_def ffi_guard_def)
next
  case (Cons x plan)
  obtain s d n where x: "x = (s, d, n)" by (cases x)
  let ?sv = "service (od_op (cc_source_op c))" and ?dv = "service (od_op (cc_destination_op c))"
  from Cons.prems(6) Cons.hyps(2) x obtain j r e out p' h1 where
    k: "k = Suc j" and st: "od_copy_cursor_next E (Ptr a c) (Some row) None h = Some (r, e, out, p', h1)"
    by (cases k) (auto split: option.splits prod.splits)
  from next_copies [OF st Cons.hyps(2) [symmetric, unfolded x]] obtain res c' where
    c': "p' = Ptr a c'" "cc_plan c' = plan" "cc_source_op c' = cc_source_op c" "cc_destination_op c' = cc_destination_op c"
      "cc_options c' = cc_options c" "cc_same_op_copy c' = cc_same_op_copy c"
    and one: "copy_one E (cc_source_op c) (cc_destination_op c) s d (cc_options c) (cc_same_op_copy c) n h = Some (res, h1)"
    and r: "r \<noteq> 0" "r = 1 \<longrightarrow> (\<exists>k m. res = ROk (k, m))" by blast
  from copy_one_confined [OF Cons.prems(1,4) one] have u1: "unchanged_but {(?dv, d)} (V h) (V h1)" .
  note sound = Cons.prems(5) [folded Cons.hyps(2), unfolded x]
  have plan1: "sound_plan V ?sv ?dv plan h1" by (rule sound_plan_step [OF sound]) (simp add: u1)
  from Cons.prems(6) k st r(1) c'(1) obtain rs' where rs: "rs = r # rs'" "copy_all E j (Ptr a c') row h1 = Some (rs', h')"
    by auto
  from Cons.hyps(1) [of c' h1 j rs'] c' plan1 Cons.prems(1-4) rs(2) have IH: "length rs' = length plan"
    "unchanged_but (destinations ?dv plan) (V h1) (V h')"
    "\<And>i. i < length plan \<Longrightarrow> rs' ! i = 1 \<Longrightarrow> V h' ?dv (fst (snd (plan ! i))) = V h1 ?sv (fst (plan ! i))"
    by auto
  have first: "V h' ?dv d = V h ?sv s" if "r = 1"
  proof -
    from sound obtain f where f: "V h ?sv s = Some (FileNode f)" "length f = unat n" and ne: "(?sv, s) \<noteq> (?dv, d)"
      by (auto simp: sound_plan_def)
    from that r(2) one obtain b m where "copy_one E (cc_source_op c) (cc_destination_op c) s d (cc_options c) (cc_same_op_copy c) n h
      = Some (ROk (b, m), h1)" by blast
    from copy_one_publishes [OF Cons.prems(1-4) f(2) ne f(1) this] have "V h1 ?dv d = Some (FileNode f)" by simp
    moreover have "(?dv, d) \<notin> destinations ?dv plan"
      using sound by (simp add: sound_plan_def destinations_def image_iff)
    ultimately show ?thesis using unchanged_keeps [OF IH(2)] f(1) by metis
  qed
  have rest: "V h1 ?sv (fst y) = V h ?sv (fst y)" if "y \<in> set plan" for y
    using that by (intro sound_plan_source [OF sound]) (auto simp: u1)
  show ?case
  proof (intro conjI allI impI)
    show "length rs = length (cc_plan c)" using IH(1) rs(1) Cons.hyps(2) by (metis length_Cons)
    show "unchanged_but (destinations ?dv (cc_plan c)) (V h) (V h')"
      unfolding Cons.hyps(2) [symmetric] x
      by (rule unchanged_trans [OF unchanged_mono [OF u1] unchanged_mono [OF IH(2)]]) auto
    fix i
    assume i: "i < length rs" "rs ! i = 1"
    show "V h' ?dv (fst (snd (cc_plan c ! i))) = V h ?sv (fst (cc_plan c ! i))"
    proof (cases i)
      case 0
      with i first rs(1) show ?thesis by (simp add: x flip: Cons.hyps(2))
    next
      case (Suc l)
      with i rs(1) IH(1) have l: "l < length plan" "rs' ! l = 1" by auto
      with IH(3) [OF l] rest [OF nth_mem [OF l(1)]] Suc show ?thesis by (simp flip: Cons.hyps(2))
    qed
  qed
qed

text \<open>What a copy of a directory or a glob selects, and the base its paths are relative to.\<close>

definition copy_base :: "string \<Rightarrow> string" where
  "copy_base s = (if has_glob s then glob_root s else if suffix ''/'' s then s else s @ ''/'')"

definition selected :: "string \<Rightarrow> string \<Rightarrow> bool" where
  "selected s q \<longleftrightarrow> (if has_glob s then glob_matches s q else prefix (copy_base s) q)"

lemma selected_base:
  assumes "trim_start_char CHR ''/'' s = s" "selected s q"
  obtains rel where "q = copy_base s @ rel"
proof (cases "has_glob s")
  case True
  have "trim_start_char CHR ''/'' (glob_root s) = glob_root s" by (rule glob_root_trimmed [OF assms(1)])
  with True assms glob_root_prefix [of s q] that show ?thesis by (auto simp: selected_def copy_base_def prefix_def)
next
  case False
  with assms(2) that show ?thesis by (auto simp: selected_def prefix_def)
qed

text \<open>Opening a copy of what is not a single file: the calls, the listing and the plan.\<close>

lemma copy_open_lists:
  assumes "object_store E V" "od_table_copy_open E (Ptr a sop) (Some s) (Ptr b dop) (Some d) raw err h = (Some c, e, h1)"
    and "trim_start_char CHR ''/'' s = s" "has_glob s \<or> (\<nexists>f. V h (service (od_op sop)) s = Some (FileNode f))"
    and "co_source_version (cc_options c) = None"
  obtains es where "lists (V h (service (od_op sop))) (copy_base s) es" "V h1 = V h"
    "cc_plan c = plan_pairs (if has_glob s then glob_matches s else (\<lambda>_. True)) (copy_base s) d es"
    "cc_source_op c = sop" "cc_destination_op c = dop" "co_chunk (cc_options c) \<noteq> Some 0"
    "cc_same_op_copy c \<longrightarrow> a = b"
proof -
  let ?sv = "service (od_op sop)"
  let ?rec = "default_list_opts\<lparr>lo_recursive := True\<rparr>"
  from assms(2) have body: "od_table_copy_open_body E (Ptr a sop) (Some s) (Ptr b dop) (Some d) raw err h = (Ret (Some c), e, h1)"
    by (auto simp: od_table_copy_open_def ffi_guard_def split: prod.splits outcome.splits)
  then obtain o1 where o1: "copy_options raw = Inr o1" and utf: "utf8_valid s" "utf8_valid d"
    by (auto simp: od_table_copy_open_body_def decode_or_leave_def value_or_leave_def cstr_def
        split: option.splits sum.splits if_splits)
  let ?mk = "\<lambda>pairs. \<lparr>cc_source_op = sop, cc_destination_op = dop, cc_options = o1,
       cc_same_op_copy = (a = b \<and> cap_copy (od_cap sop)), cc_plan = pairs, cc_current = None\<rparr>"
  from body o1 utf have plan: "plan_copy E sop s d o1 err h (\<lambda>pairs h1. (Ret (Some (?mk pairs)), set_ok err, h1)) = (Ret (Some c), e, h1)"
    by (auto simp: od_table_copy_open_body_def decode_or_leave_def value_or_leave_def cstr_def Let_def check_guard_def
        split: sum.splits)
  let ?plan = "plan_pairs (if has_glob s then glob_matches s else (\<lambda>_. True)) (copy_base s) d"
  have opt: "cc_options c = o1"
    using plan_copy_Some [OF plan, of ?mk "set_ok err"] by auto
  then have version: "co_source_version o1 = None" using assms(5) by simp
  have "\<exists>g es. h1 = g @ [ListOptions (od_op sop) (copy_base s) ?rec] \<and> V g = V h \<and> on_entries E h1 = ROk es \<and> c = ?mk (?plan es)"
  proof (cases "has_glob s")
    case True
    with plan assms(3) show ?thesis
      by (auto simp: plan_copy_def Let_def await_or_leave_def invoke_def copy_base_def split: if_splits reply.splits)
  next
    case False
    let ?st = "Stat (od_op sop) s default_stat_opts"
    have st: "V (h @ [?st]) = V h" by (rule store_quiet [OF assms(1)]) simp
    have same: "default_stat_opts\<lparr>so_version := None\<rparr> = default_stat_opts" by (simp add: default_stat_opts_def)
    from False plan version obtain m where m: "on_metadata E (h @ [?st]) = ROk m"
      by (auto simp: plan_copy_def Let_def await_or_leave_def invoke_def same split: reply.splits)
    from store_replies(2) [OF assms(1) m] obtain x where "V h ?sv s = Some x" "describes m x" by blast
    with assms(4) False have "\<not> is_file m"
      by (cases x) (auto simp: describes_def is_file_def)
    with False plan version m st show ?thesis
      by (intro exI [of _ "h @ [?st]"])
        (auto simp: plan_copy_def Let_def await_or_leave_def invoke_def copy_base_def same split: if_splits reply.splits)
  qed
  then obtain g es where g: "h1 = g @ [ListOptions (od_op sop) (copy_base s) ?rec]" "V g = V h" "on_entries E h1 = ROk es"
    "c = ?mk (?plan es)" by blast
  have "lists (V g ?sv) (copy_base s) es"
    using assms(1) g(1,3) unfolding object_store_def list_law_def by blast
  moreover have "V h1 = V g" unfolding g(1) by (rule store_quiet [OF assms(1)]) simp
  ultimately show ?thesis using that g(2,4) copy_options_chunk [OF o1] by simp
qed

text \<open>The plan of a complete listing is sound and has every selected file.\<close>

lemma plan_entry:
  assumes "lists T base es" "x \<in> set (plan_pairs keep base d es)"
  obtains q m f rel where "x = (q, join_dest d rel, content_length m)" "q = base @ rel" "keep q" "(q, m) \<in> set es"
    "T q = Some (FileNode f)" "length f = unat (content_length m)"
proof -
  from assms(2) obtain q m where qm: "x = (q, join_dest d (strip_base base q), content_length m)" "(q, m) \<in> set es"
    "is_file m" "keep q"
    by (auto simp: plan_pairs_def)
  from assms(1) qm(2) have "prefix base q \<and> (\<exists>y. T q = Some y \<and> describes m y)" unfolding lists_def by blast
  then obtain y rel where y: "T q = Some y" "describes m y" "q = base @ rel" by (auto simp: prefix_def)
  from y(2) qm(3) obtain f where "y = FileNode f" "length f = unat (content_length m)"
    by (cases y) (auto simp: describes_def is_file_def)
  then show ?thesis
    by (intro that [of q rel m f]) (use y qm in \<open>simp_all add: strip_base_prefix\<close>)
qed

lemma plan_distinct:
  assumes "lists T base es"
  shows "distinct (map (\<lambda>x. fst (snd x)) (plan_pairs keep base d es))"
proof -
  let ?names = "map fst (filter (\<lambda>(path, m). is_file m \<and> keep path) es)"
  have eq: "map (\<lambda>x. fst (snd x)) (plan_pairs keep base d es) = map (\<lambda>q. join_dest d (strip_base base q)) ?names"
    by (simp add: plan_pairs_def case_prod_beta o_def)
  have "distinct ?names" using assms by (simp add: lists_def distinct_map_filter)
  moreover have "inj_on (\<lambda>q. join_dest d (strip_base base q)) (set ?names)"
  proof (rule inj_onI)
    fix q q'
    assume q: "q \<in> set ?names" "q' \<in> set ?names" and eq: "join_dest d (strip_base base q) = join_dest d (strip_base base q')"
    from assms q obtain r r' where "q = base @ r" "q' = base @ r'"
      by (fastforce simp: lists_def prefix_def)
    with eq show "q = q'" by (simp add: strip_base_prefix join_dest_inj)
  qed
  ultimately have "distinct (map (\<lambda>q. join_dest d (strip_base base q)) ?names)" by (simp only: distinct_map)
  then show ?thesis by (simp only: eq)
qed

lemma listed_plan_sound:
  assumes "lists (V h sv) base es" "\<And>rel rel'. (sv, base @ rel) \<noteq> (dv, join_dest d rel')"
  shows "sound_plan V sv dv (plan_pairs keep base d es) h"
  unfolding sound_plan_def
proof (intro conjI ballI plan_distinct [OF assms(1)])
  fix x
  assume x: "x \<in> set (plan_pairs keep base d es)"
  obtain q m f rel where "x = (q, join_dest d rel, content_length m)" "q = base @ rel" "keep q" "(q, m) \<in> set es"
    "V h sv q = Some (FileNode f)" "length f = unat (content_length m)"
    by (rule plan_entry [OF assms(1) x])
  then show "\<exists>f. V h sv (fst x) = Some (FileNode f) \<and> length f = unat (snd (snd x))" by simp
  fix y
  assume y: "y \<in> set (plan_pairs keep base d es)"
  obtain q' m' f' rel' where "y = (q', join_dest d rel', content_length m')" "q' = base @ rel'" "keep q'" "(q', m') \<in> set es"
    "V h sv q' = Some (FileNode f')" "length f' = unat (content_length m')"
    by (rule plan_entry [OF assms(1) y])
  with \<open>x = _\<close> \<open>q = _\<close> assms(2) [of rel rel'] show "(sv, fst x) \<noteq> (dv, fst (snd y))" by simp
qed

lemma listed_plan_complete:
  assumes "lists T base es" "prefix base q" "T q = Some (FileNode f)" "keep q"
  shows "\<exists>i < length (plan_pairs keep base d es). \<exists>n. plan_pairs keep base d es ! i = (q, join_dest d (strip_base base q), n)"
proof -
  from assms(1-3) obtain m where m: "(q, m) \<in> set es" by (force simp: lists_def)
  with assms(1,3) have "is_file m" by (force simp: lists_def describes_def is_file_def)
  with m assms(4) have "(q, join_dest d (strip_base base q), content_length m) \<in> set (plan_pairs keep base d es)"
    by (force simp: plan_pairs_def)
  then show ?thesis by (metis in_set_conv_nth)
qed

lemma selected_prefix:
  assumes "trim_start_char CHR ''/'' s = s" "selected s q"
  shows "prefix (copy_base s) q" "(if has_glob s then glob_matches s else (\<lambda>_. True)) q"
  using assms(2) by (auto intro: selected_base [OF assms] simp: selected_def)

lemma selected_planned:
  assumes "lists T (copy_base s) es" "trim_start_char CHR ''/'' s = s"
    and "plan = plan_pairs (if has_glob s then glob_matches s else (\<lambda>_. True)) (copy_base s) d es"
    and "selected s q" "T q = Some (FileNode f)"
  shows "\<exists>i < length plan. \<exists>n. plan ! i = (q, join_dest d (strip_base (copy_base s) q), n)"
  unfolding assms(3) using selected_prefix [OF assms(2,4)] assms(1,5)
  by (intro listed_plan_complete)

section \<open>On a dependable store\<close>

lemma stream_loop_val:
  assumes "dependable E V" "chunk \<noteq> 0" "length f = unat n" "src \<noteq> dst"
  shows "offset \<le> n \<Longrightarrow> carrying E V r w src dst f (unat offset) h \<Longrightarrow>
    \<exists>h'. stream_loop E r w n chunk offset h = Some (ROk n, h')"
proof (induction "unat n - unat offset" arbitrary: offset h rule: less_induct)
  case less
  note store = dependable_store [OF assms(1)]
  show ?case
  proof (cases "offset < n")
    case False
    with less.prems show ?thesis by (subst stream_loop.simps) (auto simp: not_less)
  next
    case True
    let ?e = "min n (saturating_add offset chunk)"
    note e = chunk_end [OF True assms(2)]
    from less.prems(2) have "key E h r = Some (fst src, snd src)" "V h (fst src) (snd src) = Some (FileNode f)"
      using held_now by (auto simp: carrying_def)
    from dependable_answers(15) [OF assms(1) this] obtain d where d: "on_bytes E (h @ [ReadRange r offset ?e]) = ROk d" by blast
    note read = carrying_read [OF store less.prems(2) d]
    from read(2) have "pending E (h @ [ReadRange r offset ?e]) w = Some (take (unat offset) f)" by (simp add: carrying_def)
    note wr = dependable_answers(8) [OF assms(1) this, of d]
    have "take (unat offset) f @ d = take (unat ?e) f"
      using e(1) by (simp add: read(1) slice_def flip: take_add)
    note written = carrying_write [OF store read(2) assms(4) wr this]
    have "unat n - unat ?e < unat n - unat offset" using e(1,2) by linarith
    from less.hyps [OF this _ written(1)] e(2) obtain h' where
      "stream_loop E r w n chunk ?e ((h @ [ReadRange r offset ?e]) @ [Write w d]) = Some (ROk n, h')"
      by (auto simp: word_le_nat_alt)
    with True d wr show ?thesis by (subst stream_loop.simps) (simp add: Let_def invoke_def)
  qed
qed

lemma stream_copy_val:
  assumes "dependable E V" "co_chunk o1 \<noteq> Some 0" "co_source_version o1 = None" "length f = unat n"
    and "(service (od_op sop), s) \<noteq> (service (od_op dop), d)" "V h (service (od_op sop)) s = Some (FileNode f)"
  shows "\<exists>m h'. stream_copy E sop dop s d o1 n h = Some (ROk (n, m), h')"
proof -
  note store = dependable_store [OF assms(1)]
  let ?src = "(service (od_op sop), s)" and ?dst = "(service (od_op dop), d)"
  let ?r = "ReaderOptions (od_op sop) s (copy_reader_options o1 n)" and ?w = "WriterOptions (od_op dop) d (copy_writer_options o1)"
  let ?g = "(h @ [?r]) @ [?w]"
  obtain r where r: "on_handle E (h @ [?r]) = ROk r"
    using dependable_answers(14) [OF assms(1,6), of "copy_reader_options o1 n"] assms(3) by (auto simp: copy_reader_options_def)
  obtain w where w: "on_handle E ?g = ROk w"
    using dependable_answers(7) [OF assms(1), of ?w "h @ [?r]"] by auto
  have gr: "gives E h ?r r" and gw: "gives E (h @ [?r]) ?w w" using r w by (simp_all add: gives_def)
  have V1: "V (h @ [?r]) = V h" by (rule store_quiet [OF store]) simp
  have "held E V r ?src f (h @ [?r])" by (rule held_opened [OF store gr]) (simp add: V1 assms(6))
  then have "held E V r ?src f ?g" by (rule held_keeps [OF store]) (use assms(5) in auto)
  moreover have "key E ?g r = Some ?src"
    by (rule key_kept [OF store]) (use gr in \<open>simp add: key_snoc\<close>)
  ultimately have c: "carrying E V r w ?src ?dst f (unat 0) ?g"
    using gw key_snoc [of E "h @ [?r]" ?w] pending_snoc [of E "h @ [?r]" ?w] by (simp add: carrying_def)
  from stream_loop_val [OF assms(1) copy_chunk_pos [OF assms(2)] assms(4,5) _ c]
  obtain h1 where loop: "stream_loop E r w n (copy_chunk o1) 0 ?g = Some (ROk n, h1)" by auto
  from stream_loop_carries [OF store copy_chunk_pos [OF assms(2)] assms(4,5) _ c loop]
  have "pending E h1 w = Some (take (unat n) f)" by (auto simp: carrying_def)
  from dependable_answers(16) [OF assms(1) this] obtain m where "on_metadata E (h1 @ [CloseWriter w]) = ROk m" by blast
  with r w loop show ?thesis by (simp add: stream_copy_def invoke_def)
qed

lemma copy_one_val:
  assumes "dependable E V" "co_chunk o1 \<noteq> Some 0" "co_source_version o1 = None" "length f = unat n"
    and "(service (od_op sop), s) \<noteq> (service (od_op dop), d)" "V h (service (od_op sop)) s = Some (FileNode f)"
  shows "\<exists>m h'. copy_one E sop dop s d o1 False n h = Some (ROk (n, m), h')"
proof -
  let ?o = "o1\<lparr>co_hint := Some n\<rparr>"
  from stream_copy_val [OF assms(1), of ?o f n sop s dop d h] assms(2-6) obtain m h1 where
    run: "stream_copy E sop dop s d ?o n h = Some (ROk (n, m), h1)" by auto
  from stream_copy_publishes [OF dependable_store [OF assms(1)] _ assms(4,5,6) run] assms(2)
  have "V h1 (service (od_op dop)) d = Some (FileNode f)" by simp
  moreover have "unat n < 2 ^ LENGTH(64)" by (rule unsigned_less)
  then have "measurable (FileNode f)" using assms(4) by (simp add: measurable_def)
  ultimately obtain m' where "on_metadata E (h1 @ [Stat (od_op dop) d default_stat_opts]) = ROk m'"
    using dependable_answers(2) [OF assms(1)] by blast
  with run show ?thesis by (simp add: copy_one_def Let_def invoke_def)
qed

lemma copy_all_val:
  assumes "dependable E V" "co_chunk (cc_options c) \<noteq> Some 0" "co_source_version (cc_options c) = None" "\<not> cc_same_op_copy c"
    and "sound_plan V (service (od_op (cc_source_op c))) (service (od_op (cc_destination_op c))) (cc_plan c) h"
  shows "\<exists>rs h'. copy_all E (Suc (length (cc_plan c))) (Ptr a c) row h = Some (rs, h')
    \<and> (\<forall>x \<in> set (cc_plan c). V h' (service (od_op (cc_destination_op c))) (fst (snd x))
         = V h (service (od_op (cc_source_op c))) (fst x))"
  using assms
proof (induction "cc_plan c" arbitrary: c h)
  case Nil
  from Nil(1) [symmetric] show ?case
    by (simp add: od_copy_cursor_next_def od_copy_cursor_next_body_def ffi_guard_def)
next
  case (Cons x plan)
  note store = dependable_store [OF Cons.prems(1)]
  obtain s d n where x: "x = (s, d, n)" by (cases x)
  let ?sv = "service (od_op (cc_source_op c))" and ?dv = "service (od_op (cc_destination_op c))"
  note sound = Cons.prems(5) [folded Cons.hyps(2), unfolded x]
  from sound obtain f where f: "V h ?sv s = Some (FileNode f)" "length f = unat n" and ne: "(?sv, s) \<noteq> (?dv, d)"
    by (auto simp: sound_plan_def)
  from copy_one_val [OF Cons.prems(1-3) f(2) ne f(1)] obtain m h1 where
    one: "copy_one E (cc_source_op c) (cc_destination_op c) s d (cc_options c) False n h = Some (ROk (n, m), h1)" by blast
  then obtain r e out p' where st: "od_copy_cursor_next E (Ptr a c) (Some row) None h = Some (r, e, out, p', h1)"
    using Cons.hyps(2) [symmetric] Cons.prems(4) x
    by (cases "copy_row_of E s d n m")
      (auto simp: od_copy_cursor_next_def od_copy_cursor_next_body_def ffi_guard_def Let_def)
  from next_copies [OF st Cons.hyps(2) [symmetric, unfolded x]] obtain c' where
    c': "p' = Ptr a c'" "cc_plan c' = plan" "cc_source_op c' = cc_source_op c" "cc_destination_op c' = cc_destination_op c"
      "cc_options c' = cc_options c" "cc_same_op_copy c' = cc_same_op_copy c" and r: "r \<noteq> 0" by blast
  from Cons.prems(4) copy_one_publishes [OF store Cons.prems(2,3) _ f(2) ne f(1) one]
  have d1: "V h1 ?dv d = Some (FileNode f)" and u1: "unchanged_but {(?dv, d)} (V h) (V h1)" by auto
  have plan1: "sound_plan V ?sv ?dv plan h1" by (rule sound_plan_step [OF sound]) (simp add: u1)
  from Cons.hyps(1) [of c' h1] c' plan1 Cons.prems(1-4) obtain rs h' where
    rs: "copy_all E (Suc (length plan)) (Ptr a c') row h1 = Some (rs, h')"
    and IH: "\<And>y. y \<in> set plan \<Longrightarrow> V h' ?dv (fst (snd y)) = V h1 ?sv (fst y)" by auto
  from copy_all_publishes [OF store, of c' h1 _ a row rs h'] c' plan1 Cons.prems(2-4) rs
  have u2: "unchanged_but (destinations ?dv plan) (V h1) (V h')" by (auto simp del: copy_all.simps)
  have "(?dv, d) \<notin> destinations ?dv plan" using sound by (simp add: sound_plan_def destinations_def image_iff)
  from unchanged_keeps [OF u2 this d1] f(1) have first: "V h' ?dv d = V h ?sv s" by simp
  have rest: "V h1 ?sv (fst y) = V h ?sv (fst y)" if "y \<in> set plan" for y
    using that by (intro sound_plan_source [OF sound]) (auto simp: u1)
  from st rs r c'(1) have "copy_all E (Suc (length (cc_plan c))) (Ptr a c) row h = Some (r # rs, h')"
    by (simp flip: Cons.hyps(2))
  with first IH rest x show ?case by (auto simp flip: Cons.hyps(2))
qed

section \<open>Properties\<close>


text \<open>A concrete tree: one file below \<open>d\<close>, copied by a glob to \<open>out\<close> between two operators of a store in memory.\<close>

definition small_tree :: history where
  "small_tree = [WriteAll (od_op full_operator) ''d/a.csv'' ''xy'']"

lemma small_tree_view: "mem_view small_tree 0 = [''d/a.csv'' \<mapsto> FileNode ''xy'']"
  using mem_view_snoc [of "[]" "WriteAll (od_op full_operator) ''d/a.csv'' ''xy''" 0]
  by (simp add: small_tree_def full_operator_def mem_view_def mem_Nil)

lemma small_tree_open:
  "\<exists>c h1. od_table_copy_open mem_env (Ptr 1 full_operator) (Some ''d/*.csv'') (Ptr 2 full_operator) (Some ''out'') no_copy_options None small_tree
     = (Some c, None, h1) \<and> co_source_version (cc_options c) = None \<and> \<not> cc_same_op_copy c \<and> cc_options c = two_byte_chunks
     \<and> cc_source_op c = full_operator \<and> cc_destination_op c = full_operator"
proof -
  let ?l = "ListOptions (od_op full_operator) (glob_root ''d/*.csv'') (default_list_opts\<lparr>lo_recursive := True\<rparr>)"
  have m: "mem small_tree 0 = [(''d/a.csv'', FileNode ''xy'')]"
    by (simp add: small_tree_def mem_def full_operator_def)
  have "\<exists>es. on_entries mem_env (small_tree @ [?l]) = ROk es"
    by (simp add: mem_entries_def mem_list_def full_operator_def m Let_def measurable_def)
  then obtain es where "on_entries mem_env (small_tree @ [?l]) = ROk es" by blast
  from copy_open_glob [OF _ _ _ this, of "''out''"] show ?thesis
    by (auto simp: is_ascii_def has_glob_def is_wildcard_def two_byte_chunks_def)
qed

lemma small_tree_paths:
  "trim_start_char CHR ''/'' ''d/*.csv'' = ''d/*.csv''" "has_glob ''d/*.csv''" "copy_base ''d/*.csv'' = ''d/''"
  "selected ''d/*.csv'' ''d/a.csv''"
  "(service (od_op full_operator), copy_base ''d/*.csv'' @ rel) \<noteq> (service (od_op full_operator), join_dest ''out'' rel')"
  "join_dest ''out'' (strip_base (copy_base ''d/*.csv'') ''d/a.csv'') = ''out/a.csv''" "service (od_op full_operator) = 0"
proof -
  have t: "tokenize ''d/*.csv'' = map Lit ''d/'' @ Seg # map Lit ''.csv''" by (simp add: tokenize.simps)
  show g: "trim_start_char CHR ''/'' ''d/*.csv'' = ''d/*.csv''" "has_glob ''d/*.csv''" "copy_base ''d/*.csv'' = ''d/''"
    by (simp_all add: trim_start_char_def has_glob_def is_wildcard_def copy_base_def glob_root_def)
  show "selected ''d/*.csv'' ''d/a.csv''"
    by (simp add: selected_def g(2) glob_matches_gmatch gmatch_def t)
  show "(service (od_op full_operator), copy_base ''d/*.csv'' @ rel) \<noteq> (service (od_op full_operator), join_dest ''out'' rel')"
    by (simp add: g(3) join_dest_def)
  show "join_dest ''out'' (strip_base (copy_base ''d/*.csv'') ''d/a.csv'') = ''out/a.csv''"
    by (simp add: g(3) strip_base_def strip_prefix_def join_dest_def)
  show "service (od_op full_operator) = 0" by (simp add: full_operator_def)
qed




end
