(* ===== verification/Usage.thy ===== *)
theory Usage
  imports Trees
begin

text \<open>
  Listings and disk usage on a store that keeps its contract: the entries that are read back, and the
  rows of the roll-up, are those of the files in the store's tree.
\<close>

section \<open>The files of a tree\<close>

definition file_size :: "tree \<Rightarrow> string \<Rightarrow> nat" where
  "file_size T q = (case T q of Some (FileNode b) \<Rightarrow> length b | _ \<Rightarrow> 0)"

definition is_file_at :: "tree \<Rightarrow> string \<Rightarrow> bool" where
  "is_file_at T q \<longleftrightarrow> (\<exists>b. T q = Some (FileNode b))"

text \<open>Entries that are, as far as files go, the files of a tree in some set.\<close>

definition accurate :: "tree \<Rightarrow> string set \<Rightarrow> entry list \<Rightarrow> bool" where
  "accurate T S es \<longleftrightarrow> distinct (map fst es)
     \<and> {q. (\<exists>m. (q, m) \<in> set es \<and> is_file m)} = {q \<in> S. is_file_at T q}
     \<and> (\<forall>(q, m) \<in> set es. is_file m \<longrightarrow> unat (content_length m) = file_size T q)"

lemma described_file:
  "describes m x \<Longrightarrow> is_file m \<longleftrightarrow> (\<exists>b. x = FileNode b)"
  "describes m (FileNode b) \<Longrightarrow> unat (content_length m) = length b"
  by (auto simp: describes_def is_file_def split: node.splits)

lemma lists_accurate:
  assumes "lists T p es"
  shows "accurate T {q. prefix p q \<and> P q} (filter (\<lambda>x. P (fst x)) es)"
proof -
  have d: "distinct (map fst es)" using assms by (simp add: lists_def)
  have sound: "prefix p q \<and> (\<exists>x. T q = Some x \<and> describes m x)" if "(q, m) \<in> set es" for q m
    using assms that by (auto simp: lists_def)
  have complete: "\<exists>m. (q, m) \<in> set es \<and> is_file m" if "prefix p q" "T q = Some (FileNode b)" for q b
  proof -
    from assms that obtain m where m: "(q, m) \<in> set es" unfolding lists_def by force
    with sound [OF m] that(2) show ?thesis by (auto simp: described_file)
  qed
  show ?thesis unfolding accurate_def
  proof (intro conjI)
    show "distinct (map fst (filter (\<lambda>x. P (fst x)) es))" using d by (simp add: distinct_map_filter)
    show "{q. \<exists>m. (q, m) \<in> set (filter (\<lambda>x. P (fst x)) es) \<and> is_file m} = {q \<in> {q. prefix p q \<and> P q}. is_file_at T q}"
      using sound complete described_file(1) by (fastforce simp: is_file_at_def)
    show "\<forall>(q, m) \<in> set (filter (\<lambda>x. P (fst x)) es). is_file m \<longrightarrow> unat (content_length m) = file_size T q"
      using sound described_file by (fastforce simp: file_size_def)
  qed
qed

lemma accurate_files_in:
  assumes "accurate T S es"
  shows "fst ` set (files_in d es) = {q \<in> S. is_file_at T q \<and> parent q = d}" and "distinct (map fst (files_in d es))"
proof -
  have "{q. (\<exists>m. (q, m) \<in> set es \<and> is_file m)} = {q \<in> S. is_file_at T q}" using assms by (simp add: accurate_def)
  then show "fst ` set (files_in d es) = {q \<in> S. is_file_at T q \<and> parent q = d}"
    by (force simp: files_in_def)
  show "distinct (map fst (files_in d es))"
    using assms by (simp add: accurate_def files_in_def distinct_map_filter)
qed

lemma accurate_sums:
  assumes "accurate T S es"
  shows "length (files_in d es) = card {q \<in> S. is_file_at T q \<and> parent q = d}"
    and "du_size d es = (\<Sum>q \<in> {q \<in> S. is_file_at T q \<and> parent q = d}. file_size T q)"
proof -
  note files = accurate_files_in [OF assms, of d]
  from distinct_card [OF files(2)] files(1)
  show "length (files_in d es) = card {q \<in> S. is_file_at T q \<and> parent q = d}" by simp
  have "du_size d es = sum_list (map (file_size T) (map fst (files_in d es)))"
    using assms unfolding du_size_def accurate_def files_in_def map_map
    by (intro arg_cong [of _ _ sum_list] map_cong) auto
  with files show "du_size d es = (\<Sum>q \<in> {q \<in> S. is_file_at T q \<and> parent q = d}. file_size T q)"
    by (simp add: sum_list_distinct_conv_sum_set del: map_map)
qed

section \<open>Disk usage\<close>

text \<open>What the roll-up is asked for: a file, or what a glob or a directory selects.\<close>

definition asked :: "tree \<Rightarrow> string \<Rightarrow> string set" where
  "asked T t = (if \<not> has_glob t \<and> is_file_at T t then {t} else {q. selected t q})"

lemma selected_glob:
  "trim_start_char CHR ''/'' t = t \<Longrightarrow> has_glob t \<Longrightarrow> {q. prefix (glob_root t) q \<and> glob_matches t q} = {q. selected t q}"
proof -
  assume t: "trim_start_char CHR ''/'' t = t" "has_glob t"
  have "prefix (glob_root t) q" if "selected t q" for q
    using t(2) by (rule_tac selected_base [OF t(1) that]) (simp add: copy_base_def)
  with t(2) show ?thesis by (auto simp: selected_def)
qed

lemma du_entries_accurate:
  assumes "object_store E V" "trim_start_char CHR ''/'' t = t" "o1\<lparr>lo_recursive := True\<rparr> = default_list_opts\<lparr>lo_recursive := True\<rparr>"
    and "du_entries E op t o1 h = (ROk es, h')"
  shows "accurate (V h (service (od_op op))) (asked (V h (service (od_op op))) t) es \<and> V h' = V h"
proof (cases "has_glob t")
  case True
  let ?c = "ListOptions (od_op op) (glob_root t) (default_list_opts\<lparr>lo_recursive := True\<rparr>)"
  from True assms(2-4) obtain ls where ls: "on_entries E (h @ [?c]) = ROk ls" "h' = h @ [?c]"
    "es = filter (\<lambda>x. glob_matches t (fst x)) ls"
    by (auto simp: du_entries_def invoke_def split: reply.splits)
  from ls(1) assms(1) have "lists (V h (service (od_op op))) (glob_root t) ls"
    by (auto simp: object_store_def list_law_def)
  with ls(2,3) lists_accurate [of _ "glob_root t" ls "glob_matches t"] store_quiet [OF assms(1), of h ?c] True
    selected_glob [OF assms(2) True]
  show ?thesis by (simp add: asked_def)
next
  case False
  let ?s = "Stat (od_op op) t default_stat_opts"
  let ?c = "ListOptions (od_op op) (copy_base t) (default_list_opts\<lparr>lo_recursive := True\<rparr>)"
  have q: "V (h @ [?s]) = V h" using store_quiet [OF assms(1), of h ?s] by simp
  from False assms(4) obtain m where m: "on_metadata E (h @ [?s]) = ROk m"
    by (auto simp: du_entries_def invoke_def split: reply.splits)
  from store_replies(2) [OF assms(1) m] obtain x where x: "V h (service (od_op op)) t = Some x" "describes m x" by blast
  show ?thesis
  proof (cases "is_file m")
    case True
    with False m assms(4) have "es = [(t, m)]" "h' = h @ [?s]" by (auto simp: du_entries_def invoke_def)
    with True False x q show ?thesis
      by (auto simp: accurate_def asked_def is_file_at_def file_size_def described_file)
  next
    case dir: False
    with False m assms(3,4) have ls: "on_entries E (h @ [?s] @ [?c]) = ROk es" "h' = (h @ [?s]) @ [?c]"
      by (auto simp: du_entries_def invoke_def copy_base_def Let_def split: if_splits)
    then have "lists (V (h @ [?s]) (service (od_op op))) (copy_base t) es"
      using assms(1) unfolding object_store_def list_law_def by (metis append_assoc)
    with ls(2) lists_accurate [of _ "copy_base t" es "\<lambda>_. True"] store_quiet [OF assms(1), of "h @ [?s]" ?c] False dir x q
    show ?thesis by (auto simp: asked_def is_file_at_def described_file selected_def [abs_def])
  qed
qed

section \<open>Properties\<close>


lemma small_tree_listing:
  "prefix p ''d/a.csv'' \<Longrightarrow> mem_entries (small_tree @ [ListOptions (od_op full_operator) p (default_list_opts\<lparr>lo_recursive := True\<rparr>)])
     = ROk [(''d/a.csv'', node_meta (FileNode ''xy''))]"
  "prefix p ''d/a.csv'' \<Longrightarrow> mem_entries (small_tree @ [ListWith (od_op full_operator) p True])
     = ROk [(''d/a.csv'', node_meta (FileNode ''xy''))]"
proof -
  have m: "mem small_tree 0 = [(''d/a.csv'', FileNode ''xy'')]"
    by (simp add: small_tree_def mem_def full_operator_def)
  show "prefix p ''d/a.csv'' \<Longrightarrow> mem_entries (small_tree @ [ListOptions (od_op full_operator) p (default_list_opts\<lparr>lo_recursive := True\<rparr>)])
     = ROk [(''d/a.csv'', node_meta (FileNode ''xy''))]"
    "prefix p ''d/a.csv'' \<Longrightarrow> mem_entries (small_tree @ [ListWith (od_op full_operator) p True])
     = ROk [(''d/a.csv'', node_meta (FileNode ''xy''))]"
    by (simp_all add: mem_entries_def mem_list_def full_operator_def m Let_def measurable_def)
qed




end
