(* ===== verification/Scenarios.thy ===== *)
theory Scenarios
  imports Usage "HOL-Library.Monad_Syntax"
begin

text \<open>
  The end-to-end tests of \<open>opendal/src/lib.rs\<close>, as programs over the model: each assertion, unwrap
  and null check of a test is a step that fails with \<open>None\<close>.  The tests of the repository run on
  OpenDAL's in-memory and local services; here they are proved to pass on every dependable store with
  the capabilities of these services.  Releasing handles is the subject of theory Handles.
\<close>

section \<open>What the tests share\<close>

definition assert_that :: "bool \<Rightarrow> unit option" where
  "assert_that b = (if b then Some () else None)"

lemma assert_that_simps [simp]:
  "assert_that True = Some ()" "assert_that b = Some u \<longleftrightarrow> b" "b \<Longrightarrow> assert_that b = Some ()"
  by (auto simp: assert_that_def)

definition code_of :: "err_slot \<Rightarrow> od_error_code option" where
  "code_of e = map_option err_code e"

definition no_error :: err_slot where
  "no_error = Some error_ok"

lemma code_of_simps [simp]:
  "code_of (set_ok no_error) = Some CodeOk" "code_of (set_error no_error c m) = Some c"
  "set_ok no_error = no_error" "set_ok (set_error no_error c m) = no_error" "code_of no_error = Some CodeOk"
  "set_error (set_error no_error c m) c' m' = set_error no_error c' m'"
  by (simp_all add: code_of_def no_error_def set_ok_def set_error_def error_ok_def)

text \<open>\<open>OdMetadata\<close> as the tests declare it before a call.\<close>

definition unset_meta :: od_metadata where
  "unset_meta = \<lparr>md_content_length = 0, md_last_modified_ms = 0, md_is_dir = 9\<rparr>"

text \<open>\<open>block_on(inner.write(path, data)).unwrap()\<close>\<close>

definition seed_file :: "env \<Rightarrow> od_operator \<Rightarrow> string \<Rightarrow> bytes \<Rightarrow> history \<Rightarrow> history option" where
  "seed_file E op path data h =
     (case invoke (on_unit E) (WriteAll (od_op op) path data) h of (ROk _, h1) \<Rightarrow> Some h1 | _ \<Rightarrow> None)"

text \<open>The memory operator, with option keys and values.\<close>

definition memory_operator ::
  "env \<Rightarrow> service_env \<Rightarrow> text_env \<Rightarrow> (string \<times> string) list \<Rightarrow> history \<Rightarrow> (od_operator \<times> history) option" where
  "memory_operator E S te options h =
     (case od_operator_new E S te (Some ''memory'') None None 0
        (if options = [] then None else Some (map (Some \<circ> fst) options))
        (if options = [] then None else Some (map (Some \<circ> snd) options)) (length options) None no_error h of
        (Some op, _, h1) \<Rightarrow> Some (op, h1)
      | (None, _, _) \<Rightarrow> None)"

section \<open>The tests\<close>

definition memory_operator_write_stat_read :: "env \<Rightarrow> service_env \<Rightarrow> text_env \<Rightarrow> history \<Rightarrow> unit option" where
  "memory_operator_write_stat_read E S te h = do {
     (op, h) \<leftarrow> memory_operator E S te [] h;
     h \<leftarrow> seed_file E op ''greeting.txt'' ''hello opendal fs'' h;
     let (_, serr, meta, h) = od_stat E (Ptr 0 op) (Some ''greeting.txt'') (Some unset_meta) no_error h;
     m \<leftarrow> meta;
     assert_that (code_of serr = Some CodeOk);
     assert_that (md_content_length m = of_nat (length ''hello opendal fs''));
     assert_that (md_is_dir m = 0);
     let (reader, rerr, h) = od_reader_open E (Ptr 0 op) (Some ''greeting.txt'') no_error h;
     r \<leftarrow> reader;
     let (n, rerr, buf, h) = od_reader_read E (Ptr 0 r) 6 6 True rerr h;
     assert_that (n = 6);
     assert_that (buf = Some ''openda'');
     let (n, rerr, buf, h) = od_reader_read E (Ptr 0 r) (- 1) 2 True rerr h;
     assert_that (n = - 1);
     assert_that (code_of rerr = Some CodeInvalidInput);
     message \<leftarrow> Option.bind rerr err_message;
     assert_that (contains_str ''range overflows'' message)
   }"

definition memory_writer_and_mutations :: "env \<Rightarrow> service_env \<Rightarrow> text_env \<Rightarrow> history \<Rightarrow> unit option" where
  "memory_writer_and_mutations E S te h = do {
     (op, h) \<leftarrow> memory_operator E S te [] h;
     let path = Some ''out/greeting.txt'';
     let (writer, werr, h) = od_writer_open E (Ptr 0 op) path no_error h;
     w \<leftarrow> writer;
     let (n, werr, wp, h) = od_writer_write E (Ptr 0 w) (Some ''hello '') (- 1) werr h;
     assert_that (n = - 1);
     assert_that (code_of werr = Some CodeInvalidInput);
     let (n, werr, wp, h) = od_writer_write E wp (Some ''hello '') (of_nat (length ''hello '')) no_error h;
     assert_that (n = 0);
     let (n, werr, wp, h) = od_writer_write E wp (Some ''world'') (of_nat (length ''world'')) werr h;
     assert_that (n = 0);
     let (n, werr, wp, h) = od_writer_close E wp werr h;
     assert_that (n = 0);
     let (n, werr, wp, h) = od_writer_write E wp (Some ''world'') (of_nat (length ''world'')) werr h;
     assert_that (n = - 1);
     assert_that (code_of werr = Some CodeInvalidInput);
     let (n, werr, wp, h) = od_writer_close E wp no_error h;
     assert_that (n = - 1);
     assert_that (code_of werr = Some CodeInvalidInput);
     let (n, werr, wp, h) = od_writer_abort E wp no_error h;
     assert_that (n = - 1);
     assert_that (code_of werr = Some CodeInvalidInput);
     let (_, serr, meta, h) = od_stat E (Ptr 0 op) path (Some unset_meta) no_error h;
     m \<leftarrow> meta;
     assert_that (code_of serr = Some CodeOk);
     assert_that (md_content_length m = 11);
     let (reader, serr, h) = od_reader_open E (Ptr 0 op) path serr h;
     r \<leftarrow> reader;
     let (n, serr, _, h) = od_reader_read E (Ptr 0 r) 0 0 False serr h;
     assert_that (n = 0);
     let (n, serr, buf, h) = od_reader_read E (Ptr 0 r) 0 11 True serr h;
     assert_that (n = 11);
     assert_that (buf = Some ''hello world'');
     let (_, serr, _, h) = od_stat E (Ptr 0 op) path None serr h;
     assert_that (code_of serr = Some CodeInvalidInput);
     let dst = Some ''out/renamed.txt'';
     let (rc, merr, h) = od_rename E (Ptr 0 op) path dst no_error h;
     if rc = 0 then do {
       let (n, merr, h) = od_exists E (Ptr 0 op) path merr h;
       assert_that (n = 0);
       let (n, merr, h) = od_exists E (Ptr 0 op) dst merr h;
       assert_that (n = 1);
       let (n, merr, h) = od_remove E (Ptr 0 op) dst 0 merr h;
       assert_that (n = 0);
       let (n, merr, h) = od_exists E (Ptr 0 op) dst merr h;
       assert_that (n = 0)
     } else do {
       assert_that (code_of merr = Some CodeUnsupported);
       let (n, rerr, h) = od_remove E (Ptr 0 op) path 0 no_error h;
       assert_that (n = 0);
       let (n, rerr, h) = od_exists E (Ptr 0 op) path rerr h;
       assert_that (n = 0)
     }
   }"

section \<open>The services the tests run on\<close>

text \<open>What the tests rely on of the in-memory service, beside keeping the contract.\<close>

definition memory_service :: "env \<Rightarrow> service_env \<Rightarrow> bool" where
  "memory_service E S \<longleftrightarrow> uri_scheme S ''memory'' [] = ROk ''memory''
     \<and> (\<forall>h. \<exists>n. on_handle E (h @ [BuildOperator ''memory'' []]) = ROk n)
     \<and> (\<forall>op. let cap = capability_of S op in cap_stat cap \<and> cap_read cap \<and> cap_write cap \<and> cap_list cap
          \<and> cap_delete cap \<and> \<not> cap_rename cap \<and> \<not> cap_copy cap)"

lemma collect_loop_map [simp]:
  "list_all (\<lambda>(k, v). utf8_valid k \<and> utf8_valid v) kvs \<Longrightarrow> collect_loop i (map (\<lambda>(k, v). (Some k, Some v)) kvs) = Inr kvs"
  by (induction kvs arbitrary: i) (auto simp: cstr_def)

lemma memory_operator_layers:
  assumes "memory_service E S" "config_parse te options None = Ret (Inr c)"
    and "list_all (\<lambda>(k, v). utf8_valid k \<and> utf8_valid v) options"
    and "\<And>op. \<exists>applied. apply_layers E c op (h @ [BuildOperator ''memory'' []]) = (Ret applied, h @ BuildOperator ''memory'' [] # rest)"
  obtains op where "memory_operator E S te options h = Some (op, h @ BuildOperator ''memory'' [] # rest)"
    "od_io op = oc_io c" "od_scheme op = ''memory''"
    "cap_stat (od_cap op)" "cap_read (od_cap op)" "cap_write (od_cap op)" "cap_list (od_cap op)" "cap_delete (od_cap op)"
    "\<not> cap_rename (od_cap op)" "\<not> cap_copy (od_cap op)"
proof -
  let ?keys = "if options = [] then None else Some (map (Some \<circ> fst) options)"
  let ?vals = "if options = [] then None else Some (map (Some \<circ> snd) options)"
  have "zip (map (Some \<circ> fst) options) (map (Some \<circ> snd) options) = map (\<lambda>(k, v). (Some k, Some v)) options"
    by (induction options) auto
  then have pairs: "collect_pairs ?keys ?vals (length options) = Inr options"
    using assms(3) by (simp add: collect_pairs_def)
  obtain n where n: "on_handle E (h @ [BuildOperator ''memory'' []]) = ROk n"
    using assms(1) by (auto simp: memory_service_def)
  obtain applied where a: "apply_layers E c \<lparr>service = n, layers = []\<rparr> (h @ [BuildOperator ''memory'' []])
      = (Ret applied, h @ BuildOperator ''memory'' [] # rest)"
    using assms(4) by blast
  have "memory_operator E S te options h = Some (operator_handle S ''memory'' c applied, h @ BuildOperator ''memory'' [] # rest)"
    using assms(1,2) pairs n a
    by (simp add: memory_operator_def od_operator_new_def od_operator_new_body_def build_operator_def ffi_guard_def
        cstr_def is_ascii_def invoke_def memory_service_def collect_pairs_def [of None])
  moreover have "od_io (operator_handle S ''memory'' c applied) = oc_io c"
    "od_scheme (operator_handle S ''memory'' c applied) = ''memory''"
    "od_cap (operator_handle S ''memory'' c applied) = capability_of S (ac_op applied)"
    by (simp_all add: operator_handle_def)
  ultimately show thesis using assms(1) that by (simp add: memory_service_def Let_def)
qed

lemma memory_operator_val:
  assumes "memory_service E S" "config_parse te options None = Ret (Inr c)" "oc_cache c = None"
    and "list_all (\<lambda>(k, v). utf8_valid k \<and> utf8_valid v) options"
  obtains op h1 where "memory_operator E S te options h = Some (op, h1)" "od_io op = oc_io c" "od_scheme op = ''memory''"
    "cap_stat (od_cap op)" "cap_read (od_cap op)" "cap_write (od_cap op)" "cap_list (od_cap op)" "cap_delete (od_cap op)"
    "\<not> cap_rename (od_cap op)" "\<not> cap_copy (od_cap op)" "h1 = h @ [BuildOperator ''memory'' []]"
proof -
  have "\<exists>applied. apply_layers E c op (h @ [BuildOperator ''memory'' []]) = (Ret applied, h @ BuildOperator ''memory'' [] # [])" for op
    using assms(3) by (simp add: apply_layers_def Let_def)
  from memory_operator_layers [OF assms(1,2,4) this] that show thesis by blast
qed

lemma no_options: "config_parse te [] None = Ret (Inr \<lparr>oc_io = default_io, oc_retry = None, oc_timeout = None,
    oc_cache = None, oc_cache_namespace = None\<rparr>)"
  by (simp add: config_parse_def question_def section_of_def io_parse_def retry_parse_def timeout_parse_def cache_parse_def)

lemma seed_file_val:
  assumes "dependable E V"
  shows "\<exists>h1. seed_file E op path data h = Some h1 \<and> V h1 (service (od_op op)) path = Some (FileNode data)"
proof -
  note reply = dependable_answers(10) [OF assms, of h "od_op op" path data]
  with store_replies(4) [OF dependable_store [OF assms] reply] show ?thesis
    by (simp add: seed_file_def invoke_def)
qed

lemma read_past_end:
  "len \<noteq> 0 \<Longrightarrow> len \<le> isize_max \<Longrightarrow> checked_add offset len = None \<Longrightarrow>
    od_reader_read E (Ptr a r) offset len True err h = (- 1, set_error err CodeInvalidInput ''read range overflows u64'', None, h)"
  by (simp add: od_reader_read_def od_reader_read_body_def ffi_guard_def not_less [symmetric])

lemma write_stat_read_passes:
  assumes "dependable E V" "memory_service E S"
  shows "memory_operator_write_stat_read E S te h = Some ()"
proof -
  note store = dependable_store [OF assms(1)]
  let ?file = "''hello opendal fs''" and ?path = "''greeting.txt''"
  have valid: "utf8_valid ?path" by (simp add: is_ascii_def)
  obtain op h1 where op: "memory_operator E S te [] h = Some (op, h1)" "cap_stat (od_cap op)" "cap_read (od_cap op)"
    by (rule memory_operator_val [OF assms(2) no_options]) simp_all
  obtain h2 where seed: "seed_file E op ?path ?file h1 = Some h2" "V h2 (service (od_op op)) ?path = Some (FileNode ?file)"
    using seed_file_val [OF assms(1)] by blast
  let ?h3 = "h2 @ [Stat (od_op op) ?path default_stat_opts]"
  obtain m where stat: "od_stat E (Ptr 0 op) (Some ?path) (Some unset_meta) no_error h2 = ((), no_error, Some m, ?h3)"
    "md_content_length m = of_nat (length ?file)" "md_is_dir m = 0"
    using stat_val [OF assms(1) op(2) valid seed(2), of 0 unset_meta no_error] by auto
  have V3: "V ?h3 (service (od_op op)) ?path = Some (FileNode ?file)" using seed(2) store_quiet [OF store, of h2] by simp
  obtain r h4 where r: "od_reader_open E (Ptr 0 op) (Some ?path) no_error ?h3 = (Some r, no_error, h4)"
    using reader_open_val [OF assms(1) op(3) valid V3, of 0 no_error] by auto
  with reader_open_steady [OF store _ V3] have "steady E V r (service (od_op op), ?path) ?file h4" by blast
  from read_val [OF assms(1) this, of 6 6 0 no_error] obtain h5 where
    read: "od_reader_read E (Ptr 0 r) 6 6 True no_error h4 = (6, no_error, Some ''openda'', h5)"
    by (auto simp: isize_max_def)
  have "od_reader_read E (Ptr 0 r) (- 1) 2 True no_error h5 =
      (- 1, set_error no_error CodeInvalidInput ''read range overflows u64'', None, h5)"
    by (rule read_past_end) (simp_all add: isize_max_def checked_add_def unsigned_minus_1_eq_mask mask_eq_exp_minus_1)
  then show ?thesis
    using op seed stat r read
    by (simp add: memory_operator_write_stat_read_def Let_def)
      (simp add: no_error_def set_error_def cstring_new_def nul_free_def)
qed

text \<open>A write of an impossible length, and what a close leaves.\<close>

lemma write_too_long:
  "len \<noteq> 0 \<Longrightarrow> slice_limit < len \<Longrightarrow> od_writer_write E (Ptr a w) (Some d) len err h =
     (- 1, set_error err CodeInvalidInput ''write length exceeds slice limit'', Ptr a w, h)"
  by (simp add: od_writer_write_def od_writer_write_body_def ffi_guard_def)

lemma close_closes:
  assumes "od_writer_close E (Ptr a w) err h = (0, e, q, h')"
  shows "q = Ptr a (w\<lparr>wr_state := WClosed\<rparr>)"
  using assms
  by (auto simp: od_writer_close_def od_writer_close_body_def ffi_guard_def require_open_def invoke_def
      fail_writer_def split: reply.splits prod.splits outcome.splits if_splits)

text \<open>A removal on a dependable store.\<close>

lemma remove_val:
  assumes "dependable E V" "cap_delete (od_cap op)" "utf8_valid path"
  shows "\<exists>h1. od_remove E (Ptr a op) (Some path) 0 err h = (0, set_ok err, h1) \<and> V h1 (service (od_op op)) path = None"
proof -
  note reply = dependable_answers(11) [OF assms(1), of h "od_op op" path]
  then have "od_remove E (Ptr a op) (Some path) 0 err h = (0, set_ok err, h @ [Delete (od_op op) path])"
    using assms(2,3) by (simp add: mutation_cases cstr_def perform_def)
  with store_replies(5) [OF dependable_store [OF assms(1)] reply] show ?thesis by blast
qed

lemma writer_and_mutations_passes:
  assumes "dependable E V" "memory_service E S"
  shows "memory_writer_and_mutations E S te h = Some ()"
proof -
  note store = dependable_store [OF assms(1)]
  let ?path = "''out/greeting.txt''" and ?dst = "''out/renamed.txt''" and ?file = "''hello world''"
  have valid: "utf8_valid ?path" "utf8_valid ?dst" by (simp_all add: is_ascii_def)
  obtain op h1 where op: "memory_operator E S te [] h = Some (op, h1)"
    "cap_stat (od_cap op)" "cap_read (od_cap op)" "cap_write (od_cap op)" "cap_delete (od_cap op)" "\<not> cap_rename (od_cap op)"
    by (rule memory_operator_val [OF assms(2) no_options]) simp_all
  obtain w h2 where w: "od_writer_open E (Ptr 0 op) (Some ?path) no_error h1 = (Some w, no_error, h2)"
    using writer_open_val [OF assms(1) op(4) valid(1), of 0 no_error h1] by auto
  with writer_open_streaming [OF store] have s2: "streaming E w (service (od_op op), ?path) [] h2" by blast
  have long: "od_writer_write E (Ptr 0 w) (Some ''hello '') (- 1) no_error h2 =
      (- 1, set_error no_error CodeInvalidInput ''write length exceeds slice limit'', Ptr 0 w, h2)"
    by (rule write_too_long) (simp_all add: slice_limit_def)
  obtain h3 where w1: "od_writer_write E (Ptr 0 w) (Some ''hello '') (of_nat (length ''hello '')) no_error h2 = (0, no_error, Ptr 0 w, h3)"
    using write_val [OF assms(1) s2, of "''hello ''" 0 no_error] by auto
  have s3: "streaming E w (service (od_op op), ?path) ''hello '' h3"
    using write_streams [OF store s2 _ w1] by simp
  obtain h4 where w2: "od_writer_write E (Ptr 0 w) (Some ''world'') (of_nat (length ''world'')) no_error h3 = (0, no_error, Ptr 0 w, h4)"
    using write_val [OF assms(1) s3, of "''world''" 0 no_error] by auto
  have s4: "streaming E w (service (od_op op), ?path) ?file h4"
    using write_streams [OF store s3 _ w2] by simp
  obtain q h5 where c: "od_writer_close E (Ptr 0 w) no_error h4 = (0, no_error, q, h5)"
    using close_val [OF assms(1) s4, of 0 no_error] by auto
  let ?closed = "w\<lparr>wr_state := WClosed\<rparr>"
  from close_closes [OF c] have q: "q = Ptr 0 ?closed" .
  have V5: "V h5 (service (od_op op)) ?path = Some (FileNode ?file)"
    using close_publishes [OF store s4 c] by blast
  let ?h6 = "h5 @ [Stat (od_op op) ?path default_stat_opts]"
  obtain m where stat: "od_stat E (Ptr 0 op) (Some ?path) (Some unset_meta) no_error h5 = ((), no_error, Some m, ?h6)"
    "md_content_length m = 11" "md_is_dir m = 0"
    using stat_val [OF assms(1) op(2) valid(1) V5, of 0 unset_meta no_error] by auto
  have V6: "V ?h6 (service (od_op op)) ?path = Some (FileNode ?file)" using V5 store_quiet [OF store, of h5] by simp
  obtain r h7 where r: "od_reader_open E (Ptr 0 op) (Some ?path) no_error ?h6 = (Some r, no_error, h7)"
    using reader_open_val [OF assms(1) op(3) valid(1) V6, of 0 no_error] by auto
  with reader_open_steady [OF store _ V6] have s7: "steady E V r (service (od_op op), ?path) ?file h7" by blast
  have r0: "od_reader_read E (Ptr 0 r) 0 0 False no_error h7 = (0, no_error, Some [], h7)"
    by (simp add: od_reader_read_def od_reader_read_body_def ffi_guard_def)
  from read_val [OF assms(1) s7, of 11 0 0 no_error] obtain h8 where
    r1: "od_reader_read E (Ptr 0 r) 0 11 True no_error h7 = (11, no_error, Some ?file, h8)"
    by (auto simp: isize_max_def)
  obtain e where null: "od_stat E (Ptr 0 op) (Some ?path) None no_error h8 = ((), set_error no_error CodeInvalidInput e, None, h8)"
    by (simp add: od_stat_def od_stat_body_def ffi_guard_def)
  obtain e' where rename: "od_rename E (Ptr 0 op) (Some ?path) (Some ?dst) no_error h8 = (- 1, set_error no_error CodeUnsupported e', h8)"
    using op(6) valid by (simp add: mutation_cases cstr_def perform_def)
  obtain h9 where rm: "od_remove E (Ptr 0 op) (Some ?path) 0 no_error h8 = (0, no_error, h9)" "V h9 (service (od_op op)) ?path = None"
    using remove_val [OF assms(1) op(5) valid(1), of 0 no_error] by auto
  have gone: "od_exists E (Ptr 0 op) (Some ?path) no_error h9 = (0, no_error, h9 @ [Exists (od_op op) ?path])"
    using exists_val [OF assms(1) op(2) valid(1), of 0 no_error h9] rm(2) by simp
  show ?thesis
    unfolding memory_writer_and_mutations_def
    using op(1) w long w1 w2 c q stat r r0 r1 null rename rm(1) gone not_open [of ?closed]
    by (simp add: Let_def)
qed

end
