(* ===== verification/Setups.thy ===== *)
theory Setups
  imports Scenarios
begin

text \<open>
  The remaining end-to-end tests of \<open>opendal/src/lib.rs\<close> as programs (theory Scenarios): operators
  with options, a copy on the local service, refused configurations, the scheme registry, and the
  capabilities of the memory service.
\<close>

section \<open>Operators with options\<close>

definition memory_operator_with_config_sections :: "env \<Rightarrow> service_env \<Rightarrow> text_env \<Rightarrow> history \<Rightarrow> unit option" where
  "memory_operator_with_config_sections E S te h = do {
     (op, h) \<leftarrow> memory_operator E S te
       [(''retry.max_times'', ''3''), (''timeout.operation_timeout'', ''30''), (''io.concurrent_limit'', ''8'')] h;
     h \<leftarrow> seed_file E op ''layered.txt'' ''ok'' h;
     let (_, serr, meta, h) = od_stat E (Ptr 0 op) (Some ''layered.txt'') (Some unset_meta) no_error h;
     m \<leftarrow> meta;
     assert_that (code_of serr = Some CodeOk);
     assert_that (md_content_length m = 2)
   }"

definition memory_operator_with_io_options :: "env \<Rightarrow> service_env \<Rightarrow> text_env \<Rightarrow> history \<Rightarrow> unit option" where
  "memory_operator_with_io_options E S te h = do {
     (op, h) \<leftarrow> memory_operator E S te
       [(''io.write.concurrent'', ''4''), (''io.write.chunk_size'', ''1048576''),
        (''io.read.concurrent'', ''2''), (''io.read.chunk_size'', ''262144'')] h;
     assert_that (concurrent (io_write (od_io op)) = Some 4);
     assert_that (write_chunk (od_io op) = Some 1048576);
     assert_that (concurrent (io_read (od_io op)) = Some 2);
     assert_that (read_chunk (od_io op) = Some 262144);
     let path = Some ''tuned.txt'';
     let (writer, werr, h) = od_writer_open E (Ptr 0 op) path no_error h;
     w \<leftarrow> writer;
     let payload = ''tuned io'';
     let (n, werr, wp, h) = od_writer_write E (Ptr 0 w) (Some payload) (of_nat (length payload)) werr h;
     assert_that (n = 0);
     let (n, werr, wp, h) = od_writer_close E wp werr h;
     assert_that (n = 0);
     let (reader, rerr, h) = od_reader_open E (Ptr 0 op) path no_error h;
     r \<leftarrow> reader;
     let (n, rerr, buf, h) = od_reader_read E (Ptr 0 r) 0 (of_nat (length payload)) True rerr h;
     assert_that (n = int (length payload));
     assert_that (buf = Some payload)
   }"

section \<open>The local service\<close>

definition init_library :: "crypto_env \<Rightarrow> unit parsed option \<Rightarrow> unit parsed option option" where
  "init_library c cell = do {
     let (r, err, cell) = od_init c cell no_error;
     assert_that (r = 0);
     assert_that (code_of err = Some CodeOk);
     Some cell
   }"

definition fs_copy_succeeds ::
  "env \<Rightarrow> service_env \<Rightarrow> text_env \<Rightarrow> crypto_env \<Rightarrow> unit parsed option \<Rightarrow> string \<Rightarrow> history \<Rightarrow> unit option" where
  "fs_copy_succeeds E S te c cell root h = do {
     _ \<leftarrow> init_library c cell;
     let (new, err, h) = od_operator_new E S te (Some ''fs://'') (Some [Some ''root'']) (Some [Some root]) 1
       None None 0 None no_error h;
     op \<leftarrow> new;
     h \<leftarrow> seed_file E op ''src.txt'' ''copy me'' h;
     let (n, cerr, h) = od_copy E (Ptr 0 op) (Some ''src.txt'') (Some ''dst.txt'') no_error h;
     assert_that (n = 0);
     let (n, e, h) = od_exists E (Ptr 0 op) (Some ''src.txt'') no_error h;
     assert_that (n = 1);
     let (n, e, h) = od_exists E (Ptr 0 op) (Some ''dst.txt'') e h;
     assert_that (n = 1)
   }"

section \<open>Refused configurations\<close>

fun each_refused :: "env \<Rightarrow> service_env \<Rightarrow> text_env \<Rightarrow> (string \<times> string) list \<Rightarrow> history \<Rightarrow> unit option" where
  "each_refused E S te [] h = Some ()"
| "each_refused E S te ((name, val) # rest) h = do {
     let (op, err, h) = od_operator_new E S te (Some ''memory://'') None None 0 (Some [Some name]) (Some [Some val]) 1 None no_error h;
     assert_that (op = None);
     assert_that (code_of err = Some CodeInvalidInput);
     each_refused E S te rest h
   }"

definition operator_rejects_invalid_cross_service_options ::
  "env \<Rightarrow> service_env \<Rightarrow> text_env \<Rightarrow> history \<Rightarrow> unit option" where
  "operator_rejects_invalid_cross_service_options E S te h = each_refused E S te
     [(''retry.max_times'', ''banana''), (''retry.factor'', ''0.5''), (''retry.jitter'', ''yes''),
      (''io.read.concurrent'', ''0''), (''cache.shards'', ''0''), (''cache.unknown'', ''1'')] h"

definition service_config_validation_is_propagated ::
  "env \<Rightarrow> service_env \<Rightarrow> text_env \<Rightarrow> crypto_env \<Rightarrow> unit parsed option \<Rightarrow> history \<Rightarrow> unit option" where
  "service_config_validation_is_propagated E S te c cell h = do {
     _ \<leftarrow> init_library c cell;
     let (op, err, h) = od_operator_new E S te (Some ''s3://bucket'') (Some [Some ''enable_virtual_host_style''])
       (Some [Some ''banana'']) 1 None None 0 None no_error h;
     assert_that (op = None);
     assert_that (code_of err = Some CodeInvalidInput)
   }"

section \<open>The scheme registry\<close>

text \<open>\<open>sup\<close>, with the registry's cell.\<close>

definition supported :: "string list \<Rightarrow> string \<Rightarrow> scheme_cell \<Rightarrow> bool \<times> scheme_cell" where
  "supported registry s cell = (let (n, cell') = od_scheme_supported registry (Some s) cell in (n = 1, cell'))"

fun all_supported :: "string list \<Rightarrow> string list \<Rightarrow> scheme_cell \<Rightarrow> scheme_cell option" where
  "all_supported registry [] cell = Some cell"
| "all_supported registry (s # ss) cell = do {
     let (b, cell) = supported registry s cell;
     assert_that b;
     all_supported registry ss cell
   }"

definition scheme_membership_reads_registry ::
  "crypto_env \<Rightarrow> unit parsed option \<Rightarrow> string list \<Rightarrow> scheme_cell \<Rightarrow> unit option" where
  "scheme_membership_reads_registry c icell registry cell = do {
     _ \<leftarrow> init_library c icell;
     cell \<leftarrow> all_supported registry [''memory'', ''fs'', ''s3''] cell;
     let (b, cell) = supported registry ''definitely_not_a_scheme'' cell;
     assert_that (\<not> b);
     let (list, err, cell) = od_schemes registry cell no_error;
     l \<leftarrow> list;
     schemes \<leftarrow> those (map (od_schemes_entry (Ptr 0 l)) [0..<od_schemes_len (Ptr 0 l)]);
     assert_that (list_all2 (<) (butlast schemes) (tl schemes));
     cell \<leftarrow> all_supported registry schemes cell;
     assert_that (''memory'' \<in> set schemes)
   }"

section \<open>Capabilities\<close>

definition capability_row :: "capability_list ptr \<Rightarrow> nat \<Rightarrow> (string \<times> bool) option" where
  "capability_row list i = do {
     let (r, err, out) = od_capabilities_entry list i (Some \<lparr>cap_name = None, cap_supported = 0\<rparr>) no_error;
     ent \<leftarrow> out;
     assert_that (r = 1);
     name \<leftarrow> cap_name ent;
     Some (name, cap_supported ent = 1)
   }"

definition capability_list_and_rename_guard ::
  "env \<Rightarrow> service_env \<Rightarrow> text_env \<Rightarrow> (capability \<Rightarrow> json option) \<Rightarrow> history \<Rightarrow> unit option" where
  "capability_list_and_rename_guard E S te to_json h = do {
     (op, h) \<leftarrow> memory_operator E S te [] h;
     let (list, cerr, _) = od_capabilities to_json (Ptr 0 op) no_error;
     l \<leftarrow> list;
     assert_that (0 < od_capabilities_len (Ptr 0 l));
     rows \<leftarrow> those (map (capability_row (Ptr 0 l)) [0..<od_capabilities_len (Ptr 0 l)]);
     let caps = map_of (rev rows);
     assert_that (caps ''read'' = Some True);
     assert_that (caps ''write'' = Some True);
     assert_that (caps ''list'' = Some True);
     assert_that (caps ''rename'' = Some False);
     assert_that (caps ''copy'' = Some False);
     let probe = (\<lambda>name. od_operator_supports to_json (Ptr 0 op) (Some name) = 1);
     assert_that (probe ''read'');
     assert_that (probe ''write'');
     assert_that (\<not> probe ''rename'');
     assert_that (\<not> probe ''copy'');
     assert_that (\<not> probe ''definitely_not_a_capability'');
     let (rc, merr, h) = od_rename E (Ptr 0 op) (Some ''a.txt'') (Some ''b.txt'') no_error h;
     assert_that (rc = - 1);
     assert_that (code_of merr = Some CodeUnsupported);
     msg \<leftarrow> Option.bind merr err_message;
     assert_that (contains_str ''memory'' msg \<and> contains_str ''rename'' msg);
     let (rc, cerr, h) = od_copy E (Ptr 0 op) (Some ''a.txt'') (Some ''b.txt'') no_error h;
     assert_that (rc = - 1);
     assert_that (code_of cerr = Some CodeUnsupported)
   }"

section \<open>They pass\<close>

lemma config_sections_parse:
  assumes "parse_duration te ''30'' = Some d" "d \<noteq> 0"
  shows "\<exists>c. config_parse te [(''retry.max_times'', ''3''), (''timeout.operation_timeout'', ''30''), (''io.concurrent_limit'', ''8'')] None
    = Ret (Inr c) \<and> oc_cache c = None"
  using assms
  by (simp add: config_parse_def known_section_def section_insert_def section_of_def io_parse_def retry_parse_def
      retry_option_def timeout_parse_def timeout_option_def cache_parse_def duration_parse_def duration_is_zero_def
      io_option_def usize_value_def positive_usize_def parse_u64_def is_digit_def digit_value_def default_retry_def)

lemma config_sections_passes:
  assumes "dependable E V" "memory_service E S" "parse_duration te ''30'' = Some d" "d \<noteq> 0"
  shows "memory_operator_with_config_sections E S te h = Some ()"
proof -
  let ?options = "[(''retry.max_times'', ''3''), (''timeout.operation_timeout'', ''30''), (''io.concurrent_limit'', ''8'')]"
  have valid: "utf8_valid ''layered.txt''" by (simp add: is_ascii_def)
  obtain c where c: "config_parse te ?options None = Ret (Inr c)" "oc_cache c = None"
    using config_sections_parse [OF assms(3,4)] by blast
  obtain op h1 where op: "memory_operator E S te ?options h = Some (op, h1)" "cap_stat (od_cap op)"
    by (rule memory_operator_val [OF assms(2) c]) (simp_all add: is_ascii_def)
  obtain h2 where seed: "seed_file E op ''layered.txt'' ''ok'' h1 = Some h2"
    "V h2 (service (od_op op)) ''layered.txt'' = Some (FileNode ''ok'')"
    using seed_file_val [OF assms(1)] by blast
  obtain m h3 where "od_stat E (Ptr 0 op) (Some ''layered.txt'') (Some unset_meta) no_error h2 = ((), no_error, Some m, h3)"
    "md_content_length m = 2"
    using stat_val [OF assms(1) op(2) valid seed(2), of 0 unset_meta no_error] by auto
  with op(1) seed(1) show ?thesis by (simp add: memory_operator_with_config_sections_def Let_def)
qed

lemma io_options_parse:
  "\<exists>c. config_parse te [(''io.write.concurrent'', ''4''), (''io.write.chunk_size'', ''1048576''),
        (''io.read.concurrent'', ''2''), (''io.read.chunk_size'', ''262144'')] None = Ret (Inr c)
     \<and> oc_cache c = None \<and> concurrent (io_write (oc_io c)) = Some 4 \<and> write_chunk (oc_io c) = Some 1048576
     \<and> concurrent (io_read (oc_io c)) = Some 2 \<and> read_chunk (oc_io c) = Some 262144"
  by (simp add: config_parse_def known_section_def section_insert_def section_of_def io_parse_def retry_parse_def
      timeout_parse_def cache_parse_def io_option_def positive_usize_def parse_u64_def is_digit_def digit_value_def
      byte_size_parse_def parse_bytes_def str_chars_ascii is_ascii_def trim_chars_def is_whitespace_def Let_def
      default_io_def write_chunk_def read_chunk_def)

lemma io_options_passes:
  assumes "dependable E V" "memory_service E S"
  shows "memory_operator_with_io_options E S te h = Some ()"
proof -
  note store = dependable_store [OF assms(1)]
  let ?options = "[(''io.write.concurrent'', ''4''), (''io.write.chunk_size'', ''1048576''),
        (''io.read.concurrent'', ''2''), (''io.read.chunk_size'', ''262144'')]"
  let ?path = "''tuned.txt''" and ?file = "''tuned io''"
  have valid: "utf8_valid ?path" by (simp add: is_ascii_def)
  obtain c where c: "config_parse te ?options None = Ret (Inr c)" "oc_cache c = None"
    and io: "concurrent (io_write (oc_io c)) = Some 4" "write_chunk (oc_io c) = Some 1048576"
      "concurrent (io_read (oc_io c)) = Some 2" "read_chunk (oc_io c) = Some 262144"
    using io_options_parse by blast
  obtain op h1 where op: "memory_operator E S te ?options h = Some (op, h1)" "od_io op = oc_io c"
    "cap_read (od_cap op)" "cap_write (od_cap op)"
    by (rule memory_operator_val [OF assms(2) c]) (simp_all add: is_ascii_def)
  obtain w h2 where w: "od_writer_open E (Ptr 0 op) (Some ?path) no_error h1 = (Some w, no_error, h2)"
    using writer_open_val [OF assms(1) op(4) valid, of 0 no_error h1] by auto
  with writer_open_streaming [OF store] have s2: "streaming E w (service (od_op op), ?path) [] h2" by blast
  obtain h3 where w1: "od_writer_write E (Ptr 0 w) (Some ?file) (of_nat (length ?file)) no_error h2 = (0, no_error, Ptr 0 w, h3)"
    using write_val [OF assms(1) s2, of ?file 0 no_error] by auto
  have s3: "streaming E w (service (od_op op), ?path) ?file h3"
    using write_streams [OF store s2 _ w1] by simp
  obtain q h4 where cl: "od_writer_close E (Ptr 0 w) no_error h3 = (0, no_error, q, h4)"
    using close_val [OF assms(1) s3, of 0 no_error] by auto
  have V4: "V h4 (service (od_op op)) ?path = Some (FileNode ?file)"
    using close_publishes [OF store s3 cl] by blast
  obtain r h5 where r: "od_reader_open E (Ptr 0 op) (Some ?path) no_error h4 = (Some r, no_error, h5)"
    using reader_open_val [OF assms(1) op(3) valid V4, of 0 no_error] by auto
  with reader_open_steady [OF store _ V4] have "steady E V r (service (od_op op), ?path) ?file h5" by blast
  from read_val [OF assms(1) this, of 8 0 0 no_error] obtain h6 where
    "od_reader_read E (Ptr 0 r) 0 8 True no_error h5 = (8, no_error, Some ?file, h6)"
    by (auto simp: isize_max_def)
  with op(1,2) io w w1 cl r show ?thesis by (simp add: memory_operator_with_io_options_def Let_def)
qed

text \<open>What the tests rely on of the crypto library: a provider is there or can be installed.\<close>

definition crypto_ready :: "crypto_env \<Rightarrow> bool" where
  "crypto_ready c \<longleftrightarrow> provider_before c \<or> install_ok c \<or> provider_after c"

lemma init_library_val: "crypto_ready c \<Longrightarrow> \<exists>cell. init_library c None = Some cell"
  by (auto simp: init_library_def od_init_def get_or_init_def init_once_def crypto_ready_def ffi_guard_def)

text \<open>What is relied on of the local service.\<close>

definition fs_service :: "env \<Rightarrow> service_env \<Rightarrow> string \<Rightarrow> bool" where
  "fs_service E S root \<longleftrightarrow> uri_scheme S ''fs://'' [(''root'', root)] = ROk ''fs''
     \<and> (\<forall>h. \<exists>n. on_handle E (h @ [BuildOperator ''fs://'' [(''root'', root)]]) = ROk n)
     \<and> (\<forall>op. cap_stat (capability_of S op) \<and> cap_copy (capability_of S op))"

lemma fs_copy_passes:
  assumes "dependable E V" "fs_service E S root" "crypto_ready c" "utf8_valid root"
  shows "fs_copy_succeeds E S te c None root h = Some ()"
proof -
  note store = dependable_store [OF assms(1)]
  have valid: "utf8_valid ''src.txt''" "utf8_valid ''dst.txt''" by (simp_all add: is_ascii_def)
  obtain cell where init: "init_library c None = Some cell" using init_library_val [OF assms(3)] by blast
  let ?h1 = "h @ [BuildOperator ''fs://'' [(''root'', root)]]"
  obtain n where n: "on_handle E ?h1 = ROk n" using assms(2) by (auto simp: fs_service_def)
  obtain op where op: "od_operator_new E S te (Some ''fs://'') (Some [Some ''root'']) (Some [Some root]) 1
      None None 0 None no_error h = (Some op, no_error, ?h1)" "cap_stat (od_cap op)" "cap_copy (od_cap op)"
    using assms(2,4) n
    by (simp add: od_operator_new_def od_operator_new_body_def collect_pairs_def cstr_def is_ascii_def no_options
        build_operator_def fs_service_def invoke_def apply_layers_def io_apply_layer_def default_io_def
        operator_handle_def ffi_guard_def)
  obtain h2 where seed: "seed_file E op ''src.txt'' ''copy me'' ?h1 = Some h2"
    "V h2 (service (od_op op)) ''src.txt'' = Some (FileNode ''copy me'')"
    using seed_file_val [OF assms(1)] by blast
  let ?h3 = "h2 @ [Copy (od_op op) ''src.txt'' ''dst.txt'']"
  have reply: "on_unit E ?h3 = ROk ()" using dependable_answers(13) [OF assms(1)] seed(2) by simp
  then have copy: "od_copy E (Ptr 0 op) (Some ''src.txt'') (Some ''dst.txt'') no_error h2 = (0, no_error, ?h3)"
    using op(3) valid by (simp add: mutation_cases cstr_def perform_def)
  have V3: "V ?h3 (service (od_op op)) ''dst.txt'' = Some (FileNode ''copy me'')"
    "V ?h3 (service (od_op op)) ''src.txt'' = Some (FileNode ''copy me'')"
    using store_replies(8) [OF store reply] unchanged_keeps [OF store_frame [OF store], of "service (od_op op)" "''src.txt''"] seed(2)
    by auto
  let ?h4 = "?h3 @ [Exists (od_op op) ''src.txt'']"
  have e1: "od_exists E (Ptr 0 op) (Some ''src.txt'') no_error ?h3 = (1, no_error, ?h4)"
    using exists_val [OF assms(1) op(2) valid(1), of 0 no_error ?h3] V3 by simp
  obtain h5 where "od_exists E (Ptr 0 op) (Some ''dst.txt'') no_error ?h4 = (1, no_error, h5)"
    using exists_val [OF assms(1) op(2) valid(2), of 0 no_error ?h4] V3 store_quiet [OF store, of ?h3] by simp
  with init op(1) seed(1) copy e1 show ?thesis by (simp add: fs_copy_succeeds_def Let_def)
qed

text \<open>Refusals: the options do not parse, or the service refuses its configuration.\<close>

lemma refused_option:
  assumes "config_parse te [(k, v)] None = Ret (Inl msg)" "utf8_valid k" "utf8_valid v"
  shows "od_operator_new E S te (Some ''memory://'') None None 0 (Some [Some k]) (Some [Some v]) 1 None no_error h
    = (None, set_error no_error CodeInvalidInput msg, h)"
  using assms
  by (simp add: od_operator_new_def od_operator_new_body_def collect_pairs_def cstr_def is_ascii_def ffi_guard_def)

lemma parse_half: "parse_f32 ''0.5'' = Some (Finite False (2 ^ 23) (- 24))"
proof -
  have "bit_length 5 = 3" "bit_length 10 = 4" by (simp_all add: bit_length.simps)
  then have "decimal_to_f32 False 5 (- 1) = Finite False (2 ^ 23) (- 24)"
    by (simp add: decimal_to_f32_def round_f32_def floor_log2_def scale_up_def round_half_even_def Let_def)
  moreover have "parse_decimal ''0.5'' = Some (5, - 1)"
    by (simp add: parse_decimal_def is_digit_def Let_def digit_value_def parse_exponent_def)
  ultimately show ?thesis by (simp add: parse_f32_def Let_def)
qed

lemma half_is_too_small: "\<exists>f. float ''retry'' ''factor'' ''0.5'' = Inr f \<and> f32_lt_one f"
  by (simp add: float_def parse_half f32_lt_one_def)

lemma invalid_options_refused:
  assumes "cache_default te = Ret (Inr cc)"
  shows "(k, v) \<in> {(''retry.max_times'', ''banana''), (''retry.factor'', ''0.5''), (''retry.jitter'', ''yes''),
      (''io.read.concurrent'', ''0''), (''cache.shards'', ''0''), (''cache.unknown'', ''1'')}
    \<Longrightarrow> \<exists>msg. config_parse te [(k, v)] None = Ret (Inl msg)"
  using assms half_is_too_small
  by (elim insertE emptyE)
    (simp_all add: config_parse_def known_section_def section_insert_def section_of_def io_parse_def retry_parse_def
      timeout_parse_def cache_parse_def io_option_def retry_option_def cache_option_def usize_value_def positive_usize_def
      parse_u64_def is_digit_def digit_value_def boolean_def del: ex_simps, auto)

lemma each_refused_all:
  assumes "\<And>k v. (k, v) \<in> set kvs \<Longrightarrow> (\<exists>msg. config_parse te [(k, v)] None = Ret (Inl msg)) \<and> utf8_valid k \<and> utf8_valid v"
  shows "each_refused E S te kvs h = Some ()"
  using assms
proof (induction kvs)
  case (Cons x kvs)
  obtain k v where x: "x = (k, v)" by (cases x)
  with Cons.prems obtain msg where "config_parse te [(k, v)] None = Ret (Inl msg)" "utf8_valid k" "utf8_valid v" by auto
  moreover have "each_refused E S te kvs h = Some ()" using Cons.prems by (intro Cons.IH) auto
  ultimately show ?case using refused_option [of te k v msg E S h] x by (simp add: Let_def)
qed simp

lemma rejects_invalid_passes:
  assumes "cache_default te = Ret (Inr cc)"
  shows "operator_rejects_invalid_cross_service_options E S te h = Some ()"
  unfolding operator_rejects_invalid_cross_service_options_def
proof (intro each_refused_all conjI)
  fix k v
  assume "(k, v) \<in> set [(''retry.max_times'', ''banana''), (''retry.factor'', ''0.5''), (''retry.jitter'', ''yes''),
      (''io.read.concurrent'', ''0''), (''cache.shards'', ''0''), (''cache.unknown'', ''1'')]"
  then have kv: "(k, v) \<in> {(''retry.max_times'', ''banana''), (''retry.factor'', ''0.5''), (''retry.jitter'', ''yes''),
      (''io.read.concurrent'', ''0''), (''cache.shards'', ''0''), (''cache.unknown'', ''1'')}"
    by (simp only: list.set)
  then show "\<exists>msg. config_parse te [(k, v)] None = Ret (Inl msg)" by (rule invalid_options_refused [OF assms])
  show "utf8_valid k" "utf8_valid v" using kv by (elim insertE emptyE; simp add: is_ascii_def)+
qed

text \<open>A service that refuses the configuration, when the URI is read or when it is built.\<close>

definition refuses_config :: "env \<Rightarrow> service_env \<Rightarrow> string \<Rightarrow> (string \<times> string) list \<Rightarrow> bool" where
  "refuses_config E S uri cfg \<longleftrightarrow>
     (case uri_scheme S uri cfg of
        RErr e \<Rightarrow> kind e = KConfigInvalid
      | ROk _ \<Rightarrow> (\<forall>h. \<exists>e. on_handle E (h @ [BuildOperator uri cfg]) = RErr e \<and> kind e = KConfigInvalid)
      | RPanic \<Rightarrow> False)"

lemma config_validation_passes:
  assumes "refuses_config E S ''s3://bucket'' [(''enable_virtual_host_style'', ''banana'')]" "crypto_ready c"
  shows "service_config_validation_is_propagated E S te c None h = Some ()"
proof -
  let ?cfg = "[(''enable_virtual_host_style'', ''banana'')]"
  obtain cell where init: "init_library c None = Some cell" using init_library_val [OF assms(2)] by blast
  have "\<exists>e h1. build_operator E S ''s3://bucket'' ?cfg config no_error h = (Ret None, set_opendal_error no_error e, h1) \<and> kind e = KConfigInvalid"
    for config
  proof (cases "uri_scheme S ''s3://bucket'' ?cfg")
    case (ROk s)
    with assms(1) obtain e where "on_handle E (h @ [BuildOperator ''s3://bucket'' ?cfg]) = RErr e" "kind e = KConfigInvalid"
      by (auto simp: refuses_config_def)
    with ROk show ?thesis by (auto simp: build_operator_def invoke_def)
  next
    case (RErr e)
    with assms(1) show ?thesis by (auto simp: refuses_config_def build_operator_def)
  qed (use assms(1) in \<open>simp add: refuses_config_def\<close>)
  then obtain e h1 where refused: "build_operator E S ''s3://bucket'' ?cfg \<lparr>oc_io = default_io, oc_retry = None,
      oc_timeout = None, oc_cache = None, oc_cache_namespace = None\<rparr> no_error h = (Ret None, set_opendal_error no_error e, h1)"
    "kind e = KConfigInvalid" by blast
  then have "od_operator_new E S te (Some ''s3://bucket'') (Some [Some ''enable_virtual_host_style'']) (Some [Some ''banana'']) 1
      None None 0 None no_error h = (None, set_opendal_error no_error e, h1)"
    by (simp add: od_operator_new_def od_operator_new_body_def collect_pairs_def cstr_def is_ascii_def no_options
        ffi_guard_def)
  with init refused(2) show ?thesis
    by (simp add: service_config_validation_is_propagated_def set_opendal_error_def opendal_error_code_def Let_def)
qed

text \<open>The registry.\<close>

lemma supported_val: "utf8_valid s \<Longrightarrow> supported registry s (Some (reg, l)) = (s \<in> set reg, Some (reg, l))"
  by (simp add: supported_def od_scheme_supported_def registered_schemes_def get_or_init_def cstr_def)

lemma all_supported_val:
  "list_all utf8_valid ss \<Longrightarrow> set ss \<subseteq> set reg \<Longrightarrow> all_supported registry ss (Some (reg, l)) = Some (Some (reg, l))"
  by (induction ss) (simp_all add: supported_val)

lemma supported_first:
  "utf8_valid s \<Longrightarrow> supported registry s None = (s \<in> set registry, Some (registry, sort registry))"
  by (simp add: supported_def od_scheme_supported_def registered_schemes_def get_or_init_def cstr_def)

lemma strict_neighbours: "sorted_wrt (<) (xs :: string list) \<Longrightarrow> list_all2 (<) (butlast xs) (tl xs)"
  by (induction xs rule: induct_list012) auto

lemma those_map_Some: "those (map (\<lambda>x. Some (f x)) xs) = Some (map f xs)"
  by (induction xs) auto

lemma scheme_membership_passes:
  assumes "crypto_ready c" "{''memory'', ''fs'', ''s3''} \<subseteq> set registry" "''definitely_not_a_scheme'' \<notin> set registry"
    and "distinct registry" "list_all (\<lambda>s. nul_free s \<and> utf8_valid s) registry"
  shows "scheme_membership_reads_registry c None registry None = Some ()"
proof -
  let ?l = "sort registry"
  have ok: "list_all nul_free ?l" "list_all utf8_valid ?l" using assms(5) by (simp_all add: list_all_iff)
  obtain cell where init: "init_library c None = Some cell" using init_library_val [OF assms(1)] by blast
  have valid: "utf8_valid ''memory''" "utf8_valid ''fs''" "utf8_valid ''s3''" "utf8_valid ''definitely_not_a_scheme''"
    by (simp_all add: is_ascii_def)
  have all: "all_supported registry [''memory'', ''fs'', ''s3''] None = Some (Some (registry, ?l))"
    using assms(2) valid by (simp add: supported_first supported_val)
  have "cstring_all ?l = Some ?l" using ok by (simp add: cstring_all_Some_iff)
  then have schemes: "od_schemes registry (Some (registry, ?l)) no_error = (Some ?l, no_error, Some (registry, ?l))"
    by (simp add: od_schemes_def registered_schemes_def get_or_init_def ffi_guard_def)
  have "map (od_schemes_entry (Ptr 0 ?l)) [0..<length ?l] = map (\<lambda>i. Some (?l ! i)) [0..<length ?l]"
    by (simp add: od_schemes_entry_def)
  then have entries: "those (map (od_schemes_entry (Ptr 0 ?l)) [0..<od_schemes_len (Ptr 0 ?l)]) = Some ?l"
    by (simp only: od_schemes_len_def ptr.case those_map_Some map_nth)
  have "sorted_wrt (<) ?l" using assms(4) by (simp add: strict_sorted_iff)
  then have sorted: "list_all2 (<) (butlast ?l) (tl ?l)" by (rule strict_neighbours)
  have again: "all_supported registry ?l (Some (registry, ?l)) = Some (Some (registry, ?l))"
    using ok by (simp add: all_supported_val)
  show ?thesis
    unfolding scheme_membership_reads_registry_def
    using init all schemes entries sorted again assms(2,3) valid(4) by (simp add: supported_val Let_def)
qed

text \<open>Capabilities: the JSON form is an object with distinct C strings as keys that shows the flags.\<close>

definition shows_flags :: "(capability \<Rightarrow> json option) \<Rightarrow> bool" where
  "shows_flags to_json \<longleftrightarrow> (\<forall>cap. \<exists>kvs. to_json cap = Some (JObject kvs) \<and> distinct (map fst kvs)
     \<and> list_all (\<lambda>k. nul_free k \<and> utf8_valid k) (map fst kvs)
     \<and> map_of kvs ''read'' = Some (JBool (cap_read cap)) \<and> map_of kvs ''write'' = Some (JBool (cap_write cap))
     \<and> map_of kvs ''list'' = Some (JBool (cap_list cap)) \<and> map_of kvs ''rename'' = Some (JBool (cap_rename cap))
     \<and> map_of kvs ''copy'' = Some (JBool (cap_copy cap)) \<and> ''definitely_not_a_capability'' \<notin> set (map fst kvs))"

lemma bools_map_of:
  assumes "to_json cap = Some (JObject kvs)" "distinct (map fst kvs)"
  shows "map_of (capability_bools to_json cap) n = Option.bind (map_of kvs n) json_as_bool"
proof -
  have "map_of (List.map_filter (\<lambda>(k, v). map_option (Pair k) (json_as_bool v)) kvs) n = Option.bind (map_of kvs n) json_as_bool"
    using assms(2)
  proof (induction kvs)
    case (Cons x kvs)
    have "n \<notin> set (map fst kvs) \<Longrightarrow> map_of (List.map_filter (\<lambda>(k, v). map_option (Pair k) (json_as_bool v)) kvs) n = None"
      using map_filter_fst [of json_as_bool kvs] by (auto simp: map_of_eq_None_iff)
    with Cons show ?case by (cases x) (auto simp: List.map_filter_simps split: option.splits)
  qed (simp add: List.map_filter_simps)
  with assms(1) show ?thesis by (simp add: capability_bools_def)
qed

lemma capability_rows:
  "those (map (capability_row (Ptr a l)) [0..<od_capabilities_len (Ptr a l)]) = Some l"
proof -
  have "map (capability_row (Ptr a l)) [0..<length l] = map (\<lambda>i. Some (l ! i)) [0..<length l]"
    by (simp add: capability_row_def od_capabilities_entry_def ffi_guard_def Let_def) (metis prod.collapse)
  then show ?thesis by (simp only: od_capabilities_len_def ptr.case those_map_Some map_nth)
qed

lemma map_of_rev: "distinct (map fst l) \<Longrightarrow> map_of (rev l) = map_of l"
  by (rule map_of_inject_set [THEN iffD2]) (simp_all add: rev_map [symmetric])

lemma capability_list_passes:
  assumes "memory_service E S" "shows_flags to_json"
  shows "capability_list_and_rename_guard E S te to_json h = Some ()"
proof -
  obtain op h1 where op: "memory_operator E S te [] h = Some (op, h1)" "od_scheme op = ''memory''"
    and caps: "cap_read (od_cap op)" "cap_write (od_cap op)" "cap_list (od_cap op)" "\<not> cap_rename (od_cap op)" "\<not> cap_copy (od_cap op)"
    by (rule memory_operator_val [OF assms(1) no_options]) simp_all
  obtain kvs where j: "to_json (od_cap op) = Some (JObject kvs)" "distinct (map fst kvs)"
      "list_all (\<lambda>k. nul_free k \<and> utf8_valid k) (map fst kvs)"
    and flags: "map_of kvs ''read'' = Some (JBool True)" "map_of kvs ''write'' = Some (JBool True)"
      "map_of kvs ''list'' = Some (JBool True)" "map_of kvs ''rename'' = Some (JBool False)" "map_of kvs ''copy'' = Some (JBool False)"
    and none: "''definitely_not_a_capability'' \<notin> set (map fst kvs)"
    using assms(2) [unfolded shows_flags_def, rule_format, of "od_cap op"] caps by auto
  let ?l = "capability_bools to_json (od_cap op)"
  have keys: "distinct (map fst ?l)" "set (map fst ?l) \<subseteq> set (map fst kvs)" using capability_bools_keys [of to_json, OF j(1,2)] by auto
  obtain e where l: "od_capabilities to_json (Ptr 0 op) no_error = (Some ?l, e, ())"
  proof -
    have "nul_free (fst x)" if "x \<in> set ?l" for x
    proof -
      from that have "fst x \<in> set (map fst kvs)" using keys(2) by auto
      with j(3) show ?thesis by (simp only: list_all_iff)
    qed
    then have "map (\<lambda>(n, b). (case cstring_new n of Some s \<Rightarrow> s | None \<Rightarrow> '''', b)) ?l = ?l"
      by (intro map_idI) (force simp: cstring_new_def)
    then show thesis using that by (simp add: od_capabilities_def ffi_guard_def)
  qed
  have shown: "map_of ?l ''read'' = Some True" "map_of ?l ''write'' = Some True" "map_of ?l ''list'' = Some True"
    "map_of ?l ''rename'' = Some False" "map_of ?l ''copy'' = Some False" "map_of ?l ''definitely_not_a_capability'' = None"
    using flags map_of_eq_None_iff [of kvs, THEN iffD2, OF none [unfolded set_map]]
    by (simp_all add: bools_map_of [of to_json, OF j(1,2)] json_as_bool_def)
  then have "?l \<noteq> []" by auto
  then have some: "0 < od_capabilities_len (Ptr 0 ?l)" by (simp add: od_capabilities_len_def)
  have asked: "od_operator_supports to_json (Ptr 0 op) (Some n) = (if map_of ?l n = Some True then 1 else 0)"
    if "utf8_valid n" for n
    using that keys(1) by (auto simp: od_operator_supports_def cstr_def find_key split: option.splits)
  have valid: "utf8_valid ''read''" "utf8_valid ''write''" "utf8_valid ''rename''" "utf8_valid ''copy''"
    "utf8_valid ''definitely_not_a_capability''" "utf8_valid ''a.txt''" "utf8_valid ''b.txt''" by (simp_all add: is_ascii_def)
  have guards: "od_rename E (Ptr 0 op) (Some ''a.txt'') (Some ''b.txt'') no_error h1 =
      (- 1, set_error no_error CodeUnsupported (''service '' @ quoted ''memory'' @ '' does not support rename''), h1)"
    "od_copy E (Ptr 0 op) (Some ''a.txt'') (Some ''b.txt'') no_error h1 =
      (- 1, set_error no_error CodeUnsupported (''service '' @ quoted ''memory'' @ '' does not support copy''), h1)"
    using caps op(2) valid(6,7) by (simp_all add: mutation_cases cstr_def perform_def)
  have "nul_free (''service '' @ quoted ''memory'' @ '' does not support rename'')" by (simp add: nul_free_def quoted_def)
  then have message: "set_error no_error CodeUnsupported (''service '' @ quoted ''memory'' @ '' does not support rename'') =
      Some \<lparr>err_code = CodeUnsupported, err_message = Some (''service '' @ quoted ''memory'' @ '' does not support rename'')\<rparr>"
    by (simp add: no_error_def set_error_def cstring_new_def)
  have says: "contains_str ''memory'' (''service '' @ quoted ''memory'' @ '' does not support rename'')"
    "contains_str ''rename'' (''service '' @ quoted ''memory'' @ '' does not support rename'')"
    by (simp_all add: quoted_def)
  show ?thesis
    unfolding capability_list_and_rename_guard_def
    using op(1) l some capability_rows [of 0 ?l] shown map_of_rev [OF keys(1)] asked valid guards message says
    by (simp add: Let_def code_of_def [of "Some _"])
qed

end
