(* ===== verification/Probes.thy ===== *)
theory Probes
  imports Setups
begin

text \<open>
  The last two end-to-end tests (theory Scenarios): probing and listing a directory, and reading
  through the cache; then the properties that all of these tests pass.
\<close>

section \<open>Listing\<close>

text \<open>The loop that counts the files of a listing and looks at their names.\<close>

definition blank_entry :: od_entry where
  "blank_entry = \<lparr>oe_path = None, oe_name = None, oe_content_length = 0, oe_last_modified_ms = 0, oe_is_dir = 0\<rparr>"

fun count_files :: "env \<Rightarrow> od_entry_list ptr \<Rightarrow> nat list \<Rightarrow> nat \<Rightarrow> nat option" where
  "count_files E list [] files = Some files"
| "count_files E list (i # is) files = do {
     let (r, err, out, list) = od_list_entry E list i (Some blank_entry) no_error;
     ent \<leftarrow> out;
     assert_that (r = 1);
     if oe_is_dir ent = 0 then do {
       name \<leftarrow> oe_name ent;
       assert_that (name = ''one.txt'' \<or> name = ''two.txt'');
       count_files E list is (Suc files)
     } else count_files E list is files
   }"

definition memory_list_and_exists :: "env \<Rightarrow> service_env \<Rightarrow> text_env \<Rightarrow> history \<Rightarrow> unit option" where
  "memory_list_and_exists E S te h = do {
     (op, h) \<leftarrow> memory_operator E S te [] h;
     h \<leftarrow> seed_file E op ''a/one.txt'' ''11'' h;
     h \<leftarrow> seed_file E op ''a/two.txt'' ''222'' h;
     let (n, e, h) = od_exists E (Ptr 0 op) (Some ''a/one.txt'') no_error h;
     assert_that (n = 1);
     let (n, e, h) = od_exists E (Ptr 0 op) (Some ''a/nope.txt'') e h;
     assert_that (n = 0);
     let (n, e, h) = od_dir_exists E (Ptr 0 op) (Some ''a/'') e h;
     assert_that (n = 1);
     let (n, e, h) = od_dir_exists E (Ptr 0 op) (Some ''a'') e h;
     assert_that (n = 1);
     let (n, e, h) = od_dir_exists E (Ptr 0 op) (Some ''a/one.txt'') e h;
     assert_that (n = 0);
     let (n, e, h) = od_dir_exists E (Ptr 0 op) (Some ''nope/'') e h;
     assert_that (n = 0);
     let (list, lerr, h) = od_list E (Ptr 0 op) (Some ''a/'') 1 no_error h;
     l \<leftarrow> list;
     files \<leftarrow> count_files E (Ptr 0 l) [0..<od_list_len (Ptr 0 l)] 0;
     assert_that (files = 2)
   }"

text \<open>\<open>od_dir_exists\<close> on a dependable store that can be probed: its value and that nothing changes.\<close>

lemma dir_exists_val:
  assumes "dependable E V" "probing E V" "cap_stat (od_cap op)" "cap_list (od_cap op)" "utf8_valid path"
    and "\<And>x. V h (service (od_op op)) path = Some x \<Longrightarrow> measurable x"
  shows "\<exists>h1. od_dir_exists E (Ptr a op) (Some path) err h =
    (case V h (service (od_op op)) path of
       Some x \<Rightarrow> if x = DirNode then 1 else 0
     | None \<Rightarrow> if \<exists>q. prefix (dir_prefix path) q \<and> V h (service (od_op op)) q \<noteq> None then 1 else 0, set_ok err, h1)
    \<and> V h1 = V h"
proof -
  note store = dependable_store [OF assms(1)]
  let ?s = "Stat (od_op op) path default_stat_opts" and ?sv = "service (od_op op)"
  let ?l = "ListerWith (od_op op) (dir_prefix path)"
  have quiet: "V (h @ [?s]) = V h" using store_quiet [OF store, of h ?s] by simp
  show ?thesis
  proof (cases "V h ?sv path")
    case (Some x)
    with dependable_answers(2) [OF assms(1) Some assms(6) [OF Some]] obtain m where m: "on_metadata E (h @ [?s]) = ROk m" by blast
    with store_replies(2) [OF store m] Some have "describes m x" by auto
    then have "is_dir m \<longleftrightarrow> x = DirNode" by (auto simp: describes_def is_dir_def split: node.splits)
    with Some m quiet assms(3,5) show ?thesis
      by (simp add: od_dir_exists_def od_dir_exists_body_def ffi_guard_def require_def decode_or_leave_def cstr_def invoke_def)
  next
    case None
    with dependable_answers(3) [OF assms(1)] obtain e where e: "on_metadata E (h @ [?s]) = RErr e" "kind e = KNotFound" by blast
    from assms(2) [unfolded probing_def, rule_format, of "h @ [?s]" "od_op op" "dir_prefix path"] obtain n x where
      n: "on_handle E ((h @ [?s]) @ [?l]) = ROk n" "on_entry E ((h @ [?s]) @ [?l, ListerNext n]) = ROk x"
      and x: "x \<noteq> None \<longleftrightarrow> (\<exists>q. prefix (dir_prefix path) q \<and> V h ?sv q \<noteq> None)"
      unfolding quiet by blast
    have "V (((h @ [?s]) @ [?l]) @ [ListerNext n]) = V h"
      using quiet store_quiet [OF store, of "h @ [?s]" ?l] store_quiet [OF store, of "(h @ [?s]) @ [?l]" "ListerNext n"] by simp
    with None e n x assms(3-5) show ?thesis
      by (cases x) (auto simp: od_dir_exists_def od_dir_exists_body_def ffi_guard_def require_def decode_or_leave_def cstr_def
          invoke_def probe_children_def)
  qed
qed

text \<open>Counting, over a listing whose files have the expected names.\<close>

lemma count_files_val:
  assumes "\<And>x. x \<in> set es \<Longrightarrow> \<not> is_dir (snd x) \<Longrightarrow> snd (entry_strings E x) \<in> {''one.txt'', ''two.txt''}"
  shows "cache_coherent E l \<Longrightarrow> el_entries l = es \<Longrightarrow> \<forall>i \<in> set ns. i < length es \<Longrightarrow>
    count_files E (Ptr a l) ns n = Some (n + length (filter (\<lambda>i. \<not> is_dir (snd (es ! i))) ns))"
proof (induction ns arbitrary: l n)
  case (Cons i ns)
  from Cons.prems have i: "i < length (el_entries l)" by simp
  obtain l' where l': "od_list_entry E (Ptr a l) i (Some blank_entry) no_error =
      (1, no_error, Some (entry_view E (es ! i)), Ptr a l')" "cache_coherent E l'" "el_entries l' = es"
    using od_list_entry_in_range [OF Cons.prems(1) i, of a blank_entry no_error] Cons.prems(2) by auto
  have "\<not> is_dir (snd (es ! i)) \<Longrightarrow> snd (entry_strings E (es ! i)) \<in> {''one.txt'', ''two.txt''}"
    using assms i Cons.prems(2) by simp
  moreover have "count_files E (Ptr a l') ns m = Some (m + length (filter (\<lambda>i. \<not> is_dir (snd (es ! i))) ns))" for m
    using Cons.IH [OF l'(2,3)] Cons.prems(3) by simp
  ultimately show ?case using l'(1) by (auto simp: Let_def entry_view_def)
qed simp

text \<open>Two files in an empty store: what the tree then holds.\<close>

definition two_files :: "tree \<Rightarrow> bool" where
  "two_files T \<longleftrightarrow> T ''a/one.txt'' = Some (FileNode ''11'') \<and> T ''a/two.txt'' = Some (FileNode ''222'')
     \<and> (\<forall>q. q \<notin> {''a/one.txt'', ''a/two.txt''} \<longrightarrow>
          T q = None \<or> T q = Some DirNode \<and> (strict_prefix q ''a/one.txt'' \<or> strict_prefix q ''a/two.txt''))"

lemma seed_two_files:
  assumes "dependable E V" "V h (service (od_op op)) = Map.empty"
  obtains h1 h2 where "seed_file E op ''a/one.txt'' ''11'' h = Some h1" "seed_file E op ''a/two.txt'' ''222'' h1 = Some h2"
    "two_files (V h2 (service (od_op op)))"
proof -
  note store = dependable_store [OF assms(1)]
  let ?s = "service (od_op op)"
  obtain h1 where h1: "seed_file E op ''a/one.txt'' ''11'' h = Some h1" "V h1 ?s ''a/one.txt'' = Some (FileNode ''11'')"
    using seed_file_val [OF assms(1)] by blast
  obtain h2 where h2: "seed_file E op ''a/two.txt'' ''222'' h1 = Some h2" "V h2 ?s ''a/two.txt'' = Some (FileNode ''222'')"
    using seed_file_val [OF assms(1)] by blast
  have u1: "unchanged_but {(?s, ''a/one.txt'')} (V h) (V h1)"
    using h1(1) store_frame [OF store, of h "WriteAll (od_op op) ''a/one.txt'' ''11''"]
    by (auto simp: seed_file_def invoke_def split: reply.splits)
  have u2: "unchanged_but {(?s, ''a/two.txt'')} (V h1) (V h2)"
    using h2(1) store_frame [OF store, of h1 "WriteAll (od_op op) ''a/two.txt'' ''222''"]
    by (auto simp: seed_file_def invoke_def split: reply.splits)
  have "V h2 ?s ''a/one.txt'' = Some (FileNode ''11'')" using unchanged_keeps [OF u2 _ h1(2)] by simp
  moreover have "V h2 ?s q = None \<or> V h2 ?s q = Some DirNode \<and> (strict_prefix q ''a/one.txt'' \<or> strict_prefix q ''a/two.txt'')"
    if q: "q \<notin> {''a/one.txt'', ''a/two.txt''}" for q
  proof -
    have "V h1 ?s q = None \<or> V h1 ?s q = Some DirNode \<and> strict_prefix q ''a/one.txt''"
      using u1 [unfolded unchanged_but_def, rule_format, of ?s q] q assms(2) by auto
    then show ?thesis using u2 [unfolded unchanged_but_def, rule_format, of ?s q] q by auto
  qed
  ultimately show thesis using that [OF h1(1) h2(1)] h2(2) by (simp add: two_files_def)
qed

lemma two_files_elsewhere:
  assumes "two_files T" "\<not> prefix q ''a/one.txt''" "\<not> prefix q ''a/two.txt''"
  shows "T q = None"
proof -
  have "q \<notin> {''a/one.txt'', ''a/two.txt''}" using assms(2,3) by blast
  with assms show ?thesis unfolding two_files_def by (metis prefix_order.less_imp_le)
qed

lemma two_files_cases:
  assumes "two_files T" "T q = Some x"
  shows "q = ''a/one.txt'' \<and> x = FileNode ''11'' \<or> q = ''a/two.txt'' \<and> x = FileNode ''222'' \<or> x = DirNode"
proof (cases "q \<in> {''a/one.txt'', ''a/two.txt''}")
  case True
  with assms show ?thesis by (elim insertE emptyE) (simp_all add: two_files_def)
next
  case False
  then have "T q = None \<or> T q = Some DirNode" using assms(1) unfolding two_files_def by blast
  with assms(2) show ?thesis by simp
qed

lemma two_files_small: "two_files T \<Longrightarrow> T q = Some x \<Longrightarrow> measurable x"
  by (drule (1) two_files_cases, elim disjE conjE) (simp_all add: measurable_def)

lemma two_files_below:
  assumes "two_files T"
  shows "{q. prefix ''a/'' q \<and> is_file_at T q} = {''a/one.txt'', ''a/two.txt''}"
proof (intro equalityI subsetI)
  fix q
  assume "q \<in> {q. prefix ''a/'' q \<and> is_file_at T q}"
  then obtain b where "T q = Some (FileNode b)" by (auto simp: is_file_at_def)
  from two_files_cases [OF assms this] show "q \<in> {''a/one.txt'', ''a/two.txt''}" by (elim disjE conjE) simp_all
next
  fix q
  assume "q \<in> {''a/one.txt'', ''a/two.txt''}"
  then show "q \<in> {q. prefix ''a/'' q \<and> is_file_at T q}"
    using assms by (elim insertE emptyE) (simp_all add: two_files_def is_file_at_def)
qed

text \<open>A listing of the directory counts both.\<close>

lemma listed_two_files:
  assumes "two_files T" "lists T ''a/'' es"
  shows "length (filter (\<lambda>i. \<not> is_dir (snd (es ! i))) [0..<length es]) = 2"
    and "x \<in> set es \<Longrightarrow> \<not> is_dir (snd x) \<Longrightarrow> fst x \<in> {''a/one.txt'', ''a/two.txt''}"
proof -
  have kinds: "\<not> is_dir (snd x) \<longleftrightarrow> is_file (snd x)" if "x \<in> set es" for x
  proof -
    obtain q m where x: "x = (q, m)" by (cases x)
    with that have "(q, m) \<in> set es" by simp
    with assms(2) have "\<exists>y. T q = Some y \<and> describes m y" unfolding lists_def by blast
    then obtain y where "describes (snd x) y" using x by auto
    then show ?thesis by (auto simp: describes_def is_dir_def is_file_def split: node.splits)
  qed
  from lists_accurate [OF assms(2), of "\<lambda>_. True"] have acc: "distinct (map fst es)"
    "{q. \<exists>m. (q, m) \<in> set es \<and> is_file m} = {''a/one.txt'', ''a/two.txt''}"
    using two_files_below [OF assms(1)] by (auto simp: accurate_def)
  let ?fs = "filter (\<lambda>x. \<not> is_dir (snd x)) es"
  have "set (map fst ?fs) = {q. \<exists>m. (q, m) \<in> set es \<and> is_file m}"
    using kinds by force
  then have names: "set (map fst ?fs) = {''a/one.txt'', ''a/two.txt''}" using acc(2) by simp
  have "length ?fs = card (set (map fst ?fs))"
    using acc(1) distinct_card [of "map fst ?fs"] by (simp add: distinct_map_filter del: set_map)
  then have "length ?fs = 2" unfolding names by simp
  moreover have "filter (\<lambda>i. \<not> is_dir (snd (es ! i))) [0..<length es] = filter ((\<lambda>x. \<not> is_dir (snd x)) \<circ> (!) es) [0..<length es]"
    by (simp add: o_def)
  ultimately show "length (filter (\<lambda>i. \<not> is_dir (snd (es ! i))) [0..<length es]) = 2"
    by (metis filter_map length_map map_nth)
  show "x \<in> set es \<Longrightarrow> \<not> is_dir (snd x) \<Longrightarrow> fst x \<in> {''a/one.txt'', ''a/two.txt''}"
  proof -
    assume "x \<in> set es" "\<not> is_dir (snd x)"
    then have "fst x \<in> set (map fst ?fs)" by simp
    then show ?thesis unfolding names .
  qed
qed

lemma list_and_exists_passes:
  assumes "dependable E V" "probing E V" "memory_service E S" "\<And>s. V h s = Map.empty"
    and "get_basename E ''a/one.txt'' = ''one.txt''" "get_basename E ''a/two.txt'' = ''two.txt''"
  shows "memory_list_and_exists E S te h = Some ()"
proof -
  note store = dependable_store [OF assms(1)]
  have valid: "utf8_valid ''a/one.txt''" "utf8_valid ''a/nope.txt''" "utf8_valid ''a/''" "utf8_valid ''a''" "utf8_valid ''nope/''"
    by (simp_all add: is_ascii_def)
  obtain op h1 where op: "memory_operator E S te [] h = Some (op, h1)" "cap_stat (od_cap op)" "cap_list (od_cap op)"
    and h1: "h1 = h @ [BuildOperator ''memory'' []]"
    by (rule memory_operator_val [OF assms(3) no_options, of te h]) simp_all
  let ?s = "service (od_op op)"
  have "V h1 ?s = Map.empty" using store_quiet [OF store, of h "BuildOperator ''memory'' []"] h1 assms(4) by simp
  then obtain h2 h3 where seeds: "seed_file E op ''a/one.txt'' ''11'' h1 = Some h2" "seed_file E op ''a/two.txt'' ''222'' h2 = Some h3"
    and tree: "two_files (V h3 ?s)" by (rule seed_two_files [OF assms(1)])
  from tree have one: "V h3 ?s ''a/one.txt'' = Some (FileNode ''11'')" by (simp add: two_files_def)
  note small = two_files_small [OF tree]
  let ?h4 = "h3 @ [Exists (od_op op) ''a/one.txt'']" and ?h5 = "h3 @ [Exists (od_op op) ''a/one.txt'', Exists (od_op op) ''a/nope.txt'']"
  have V4: "V ?h4 = V h3" using store_quiet [OF store, of h3] by simp
  have V5: "V ?h5 = V h3" using V4 store_quiet [OF store, of ?h4 "Exists (od_op op) ''a/nope.txt''"] by simp
  have e1: "od_exists E (Ptr 0 op) (Some ''a/one.txt'') no_error h3 = (1, no_error, ?h4)"
    using exists_val [OF assms(1) op(2) valid(1), of 0 no_error h3] one by simp
  have "V h3 ?s ''a/nope.txt'' = None" by (rule two_files_elsewhere [OF tree]) simp_all
  then have e2: "od_exists E (Ptr 0 op) (Some ''a/nope.txt'') no_error ?h4 = (0, no_error, ?h5)"
    using exists_val [OF assms(1) op(2) valid(2), of 0 no_error ?h4] V4 by simp
  have dirs: "V h3 ?s ''a/'' \<in> {None, Some DirNode}" "V h3 ?s ''a'' \<in> {None, Some DirNode}" "V h3 ?s ''nope/'' = None"
  proof -
    have dir: "V h3 ?s q \<in> {None, Some DirNode}" if "q \<notin> {''a/one.txt'', ''a/two.txt''}" for q
      using tree that unfolding two_files_def by blast
    show "V h3 ?s ''a/'' \<in> {None, Some DirNode}" by (rule dir) simp
    show "V h3 ?s ''a'' \<in> {None, Some DirNode}" by (rule dir) simp
    show "V h3 ?s ''nope/'' = None" by (rule two_files_elsewhere [OF tree]) simp_all
  qed
  have below: "\<exists>q. prefix ''a/'' q \<and> V h3 ?s q \<noteq> None" using one by (intro exI [of _ "''a/one.txt''"]) simp
  have none: "\<nexists>q. prefix ''nope/'' q \<and> V h3 ?s q \<noteq> None"
  proof
    assume "\<exists>q. prefix ''nope/'' q \<and> V h3 ?s q \<noteq> None"
    then obtain q where q: "prefix ''nope/'' q" "V h3 ?s q \<noteq> None" by blast
    then obtain tail where "q = ''nope/'' @ tail" by (elim prefixE)
    with two_files_elsewhere [OF tree, of q] q(2) show False by simp
  qed
  let ?val = "\<lambda>p. case V h3 ?s p of Some x \<Rightarrow> if x = DirNode then 1 else 0
     | None \<Rightarrow> if \<exists>q. prefix (dir_prefix p) q \<and> V h3 ?s q \<noteq> None then 1 else 0"
  have prefixes: "dir_prefix ''a/'' = ''a/''" "dir_prefix ''a'' = ''a/''" "dir_prefix ''nope/'' = ''nope/''"
    by (simp_all add: dir_prefix_def)
  have vals: "?val ''a/'' = 1" "?val ''a'' = 1" "?val ''a/one.txt'' = 0" "?val ''nope/'' = 0"
  proof -
    have there: "?val p = 1" if "V h3 ?s p \<in> {None, Some DirNode}" "dir_prefix p = ''a/''" for p
      using that(1) unfolding that(2) if_P [OF below] by (elim insertE emptyE) simp_all
    from there [OF dirs(1) prefixes(1)] show "?val ''a/'' = 1" .
    from there [OF dirs(2) prefixes(2)] show "?val ''a'' = 1" .
    show "?val ''nope/'' = 0" unfolding dirs(3) prefixes if_not_P [OF none] by simp
    show "?val ''a/one.txt'' = 0" unfolding one by simp
  qed
  note probe = dir_exists_val [OF assms(1,2) op(2,3), where a = 0 and err = no_error, unfolded code_of_simps]
  obtain h6 where d1: "od_dir_exists E (Ptr 0 op) (Some ''a/'') no_error ?h5 = (1, no_error, h6)" "V h6 = V h3"
    using probe [OF valid(3), of ?h5, unfolded V5 vals] small by blast
  obtain h7 where d2: "od_dir_exists E (Ptr 0 op) (Some ''a'') no_error h6 = (1, no_error, h7)" "V h7 = V h3"
    using probe [OF valid(4), of h6, unfolded d1(2) vals] small by blast
  obtain h8 where d3: "od_dir_exists E (Ptr 0 op) (Some ''a/one.txt'') no_error h7 = (0, no_error, h8)" "V h8 = V h3"
    using probe [OF valid(1), of h7, unfolded d2(2) vals] small by blast
  obtain h9 where d4: "od_dir_exists E (Ptr 0 op) (Some ''nope/'') no_error h8 = (0, no_error, h9)" "V h9 = V h3"
    using probe [OF valid(5), of h8, unfolded d3(2) vals] small by blast
  obtain es where es: "on_entries E (h9 @ [ListWith (od_op op) ''a/'' True]) = ROk es"
    using dependable_answers(6) [OF assms(1), of "''a/''" h9 "od_op op"] small d4(2) by metis
  let ?l = "\<lparr>el_entries = es, el_strings = Map.empty\<rparr>"
  have list: "od_list E (Ptr 0 op) (Some ''a/'') 1 no_error h9 = (Some ?l, no_error, h9 @ [ListWith (od_op op) ''a/'' True])"
    using op(3) valid(3) es
    by (simp add: od_list_def od_list_body_def ffi_guard_def require_def decode_or_leave_def cstr_def invoke_def)
  have "lists (V h3 ?s) ''a/'' es" using store_replies(3) [OF store es] d4(2) by simp
  note counted = listed_two_files [OF tree this]
  have "snd (entry_strings E x) \<in> {''one.txt'', ''two.txt''}" if "x \<in> set es" "\<not> is_dir (snd x)" for x
    using counted(2) [OF that] assms(5,6) by (auto simp: entry_strings_def cstring_or_empty_def cstring_new_def)
  from count_files_val [OF this, where l = ?l and ns = "[0..<length es]" and a = 0 and n = 0] counted(1)
  have "count_files E (Ptr 0 ?l) [0..<od_list_len (Ptr 0 ?l)] 0 = Some 2"
    by (simp add: cache_coherent_def od_list_len_def)
  then show ?thesis
    unfolding memory_list_and_exists_def
    using op(1) seeds e1 e2 d1(1) d2(1) d3(1) d4(1) list by (simp add: Let_def)
qed

section \<open>Reading through the cache\<close>

fun read_again :: "env \<Rightarrow> od_operator \<Rightarrow> nat \<Rightarrow> history \<Rightarrow> unit option" where
  "read_again E op 0 h = Some ()"
| "read_again E op (Suc n) h = do {
     let (reader, serr, h) = od_reader_open E (Ptr 0 op) (Some ''cached.txt'') no_error h;
     r \<leftarrow> reader;
     let (got, serr, buf, h) = od_reader_read E (Ptr 0 r) 0 8 True serr h;
     assert_that (got = 8);
     assert_that (buf = Some ''cache me'');
     read_again E op n h
   }"

definition memory_operator_with_cache :: "env \<Rightarrow> service_env \<Rightarrow> text_env \<Rightarrow> history \<Rightarrow> unit option" where
  "memory_operator_with_cache E S te h = do {
     (op, h) \<leftarrow> memory_operator E S te [(''cache.memory_size'', ''16'')] h;
     h \<leftarrow> seed_file E op ''cached.txt'' ''cache me'' h;
     read_again E op 2 h
   }"

text \<open>The cache library: its default sizes parse and are positive, and building a cache in memory
  answers, with the cache or with an error.\<close>

definition cache_library :: "env \<Rightarrow> text_env \<Rightarrow> bool" where
  "cache_library E te \<longleftrightarrow> (\<exists>cc. cache_default te = Ret (Inr cc) \<and> size_get (disk_size cc) \<noteq> 0 \<and> size_get (block_size cc) \<noteq> 0)
     \<and> (\<forall>h m s. on_handle E (h @ [CacheBuild m s None]) \<noteq> RPanic)"

lemma cache_config_parse:
  assumes "cache_library E te"
  shows "\<exists>c cc. config_parse te [(''cache.memory_size'', ''16'')] None = Ret (Inr c) \<and> oc_cache c = Some cc \<and> disk_path cc = None
    \<and> oc_retry c = None \<and> oc_timeout c = None \<and> oc_io c = default_io"
proof -
  obtain cc where cc: "cache_default te = Ret (Inr cc)" "size_get (disk_size cc) \<noteq> 0" "size_get (block_size cc) \<noteq> 0"
    using assms by (auto simp: cache_library_def)
  then have plain: "disk_path cc = None" "max_file_size cc = None"
    by (auto simp: cache_default_def question_def split: outcome.splits sum.splits)
  have "byte_size_parse te ''cache'' ''memory_size'' ''16'' = Ret (Inr (ByteSize 16))"
    by (simp add: byte_size_parse_def parse_bytes_def str_chars_ascii is_ascii_def trim_chars_def is_whitespace_def
        parse_u64_def is_digit_def digit_value_def Let_def)
  with cc plain show ?thesis
    by (simp add: config_parse_def known_section_def section_insert_def section_of_def io_parse_def retry_parse_def
        timeout_parse_def cache_parse_def cache_option_def cache_check_def)
qed

lemma cache_layers_build:
  assumes "cache_library E te" "oc_cache c = Some cc" "disk_path cc = None"
  shows "\<exists>applied. apply_layers E c op h = (Ret applied, h @ [CacheBuild (size_get (memory_size cc)) (shards cc) None])"
proof -
  let ?c = "CacheBuild (size_get (memory_size cc)) (shards cc) None"
  have "on_handle E (h @ [?c]) \<noteq> RPanic" using assms(1) by (simp add: cache_library_def)
  then show ?thesis
    using assms(2,3)
    by (cases "on_handle E (h @ [?c])")
      (simp_all add: apply_layers_def cache_apply_def build_layer_def build_step_def invoke_def Let_def)
qed

lemma read_again_val:
  assumes "dependable E V" "cap_read (od_cap op)"
  shows "V h (service (od_op op)) ''cached.txt'' = Some (FileNode ''cache me'') \<Longrightarrow> read_again E op n h = Some ()"
proof (induction n arbitrary: h)
  case (Suc n)
  note store = dependable_store [OF assms(1)]
  have valid: "utf8_valid ''cached.txt''" by (simp add: is_ascii_def)
  obtain r h1 where r: "od_reader_open E (Ptr 0 op) (Some ''cached.txt'') no_error h = (Some r, no_error, h1)"
    using reader_open_val [OF assms valid Suc.prems, of 0 no_error] by auto
  with reader_open_steady [OF store _ Suc.prems]
  have s: "steady E V r (service (od_op op), ''cached.txt'') ''cache me'' h1" "V h1 = V h" by blast+
  from read_val [OF assms(1) s(1), of 8 0 0 no_error] obtain h2 where
    "od_reader_read E (Ptr 0 r) 0 8 True no_error h1 = (8, no_error, Some ''cache me'', h2)" "V h2 = V h1"
    by (auto simp: isize_max_def)
  with r s(2) Suc.IH [of h2] Suc.prems show ?case by (simp add: Let_def)
qed simp

lemma cache_passes:
  assumes "dependable E V" "memory_service E S" "cache_library E te"
  shows "memory_operator_with_cache E S te h = Some ()"
proof -
  obtain c cc where c: "config_parse te [(''cache.memory_size'', ''16'')] None = Ret (Inr c)" "oc_cache c = Some cc" "disk_path cc = None"
    using cache_config_parse [OF assms(3)] by blast
  let ?b = "CacheBuild (size_get (memory_size cc)) (shards cc) None"
  have layers: "\<exists>applied. apply_layers E c op (h @ [BuildOperator ''memory'' []]) = (Ret applied, h @ BuildOperator ''memory'' [] # [?b])" for op
    using cache_layers_build [OF assms(3) c(2,3), of op "h @ [BuildOperator ''memory'' []]"] by simp
  obtain op h1 where op: "memory_operator E S te [(''cache.memory_size'', ''16'')] h = Some (op, h1)" "cap_read (od_cap op)"
    by (rule memory_operator_layers [OF assms(2) c(1) _ layers]) (simp_all add: is_ascii_def)
  obtain h2 where seed: "seed_file E op ''cached.txt'' ''cache me'' h1 = Some h2"
    "V h2 (service (od_op op)) ''cached.txt'' = Some (FileNode ''cache me'')"
    using seed_file_val [OF assms(1)] by blast
  from read_again_val [OF assms(1) op(2) seed(2), of 2] op(1) seed(1) show ?thesis
    by (simp add: memory_operator_with_cache_def)
qed

section \<open>Properties\<close>

text \<open>A service, crates and a JSON form as the tests assume them.\<close>

definition sample_memory :: service_env where
  "sample_memory = \<lparr>uri_scheme = \<lambda>_ _. ROk ''memory'',
     capability_of = \<lambda>_. (od_cap full_operator)\<lparr>cap_rename := False, cap_copy := False\<rparr>, root_of = \<lambda>_. ''/''\<rparr>"

definition sample_fs :: service_env where
  "sample_fs = sample_memory\<lparr>uri_scheme := \<lambda>_ _. ROk ''fs'', capability_of := \<lambda>_. od_cap full_operator\<rparr>"

definition sample_refusal :: service_env where
  "sample_refusal = sample_memory\<lparr>uri_scheme := \<lambda>_ _. RErr \<lparr>kind = KConfigInvalid, display = ''invalid''\<rparr>\<rparr>"

definition sample_crates :: text_env where
  "sample_crates = \<lparr>uni_numeric = \<lambda>_. False, parse_iec = \<lambda>_. Some (2 ^ 20), parse_duration = \<lambda>_. Some (10 ^ 9)\<rparr>"

definition sample_json :: "capability \<Rightarrow> json option" where
  "sample_json c = Some (JObject [(''read'', JBool (cap_read c)), (''write'', JBool (cap_write c)),
     (''list'', JBool (cap_list c)), (''rename'', JBool (cap_rename c)), (''copy'', JBool (cap_copy c))])"

lemma sample_services:
  "memory_service mem_env sample_memory" "fs_service mem_env sample_fs root" "shows_flags sample_json"
  "refuses_config E sample_refusal uri cfg"
  by (simp_all add: memory_service_def fs_service_def shows_flags_def refuses_config_def sample_memory_def sample_fs_def
      sample_refusal_def sample_json_def full_operator_def Let_def is_ascii_def)

lemma sample_sizes:
  "byte_size_parse sample_crates sec k ''256 MiB'' = Ret (Inr (ByteSize (2 ^ 20)))"
  "byte_size_parse sample_crates sec k ''1 GiB'' = Ret (Inr (ByteSize (2 ^ 20)))"
  "byte_size_parse sample_crates sec k ''4 MiB'' = Ret (Inr (ByteSize (2 ^ 20)))"
  "byte_size_parse sample_crates sec k ''0'' = Ret (Inr (ByteSize 0))"
  by (simp_all add: byte_size_parse_def parse_bytes_def str_chars_ascii is_ascii_def trim_chars_def is_whitespace_def
      parse_u64_def is_digit_def digit_value_def Let_def sample_crates_def)

lemma sample_cache: "\<exists>cc. cache_default sample_crates = Ret (Inr cc)" "cache_library mem_env sample_crates"
  by (simp_all add: cache_library_def cache_default_def sample_sizes)

text \<open>
  C12: the repository's end-to-end tests on the in-memory service pass on every dependable store: an
  operator of such a service, plain or with retry, timeout, concurrency, tuning or cache options, finds,
  measures and reads back what was written, refuses what must be refused with the right code, and
  its writer, its mutations and its capabilities behave as each test asserts.
\<close>

theorem memory_tests_pass:
  assumes "dependable E V" "memory_service E S" "cache_library E te" "shows_flags to_json"
    and "parse_duration te ''30'' = Some d" "d \<noteq> 0"
  shows "memory_operator_write_stat_read E S te h = Some () \<and> memory_writer_and_mutations E S te h = Some ()
    \<and> memory_operator_with_config_sections E S te h = Some () \<and> memory_operator_with_io_options E S te h = Some ()
    \<and> memory_operator_with_cache E S te h = Some () \<and> capability_list_and_rename_guard E S te to_json h = Some ()"
  using write_stat_read_passes [OF assms(1,2)] writer_and_mutations_passes [OF assms(1,2)]
    config_sections_passes [OF assms(1,2,5,6)] io_options_passes [OF assms(1,2)] cache_passes [OF assms(1-3)]
    capability_list_passes [OF assms(2,4)]
  by (intro conjI)

theorem memory_tests_pass_witness:
  "memory_writer_and_mutations mem_env sample_memory sample_crates [] = Some ()
     \<and> memory_operator_with_cache mem_env sample_memory sample_crates [] = Some ()"
proof -
  have "parse_duration sample_crates ''30'' = Some (10 ^ 9)" by (simp add: sample_crates_def)
  from memory_tests_pass [OF mem_dependable sample_services(1) sample_cache(2) sample_services(3) this, of "[]"]
  show ?thesis by simp
qed

text \<open>
  C30: the other end-to-end tests pass too: on an empty dependable store, directories are found by
  what is below them and a listing has each file once, under its name; a copy on a service that
  copies leaves both files; options that do not parse, and a configuration that the service refuses,
  are reported as invalid input; and every registered scheme, no other, is supported and listed in
  order.
\<close>

theorem service_tests_pass:
  assumes "dependable E V" "probing E V" "memory_service E S" "\<And>s. V h s = Map.empty"
    and "get_basename E ''a/one.txt'' = ''one.txt''" "get_basename E ''a/two.txt'' = ''two.txt''"
    and "fs_service E F root" "utf8_valid root" "crypto_ready c"
    and "cache_default te = Ret (Inr cc)" "refuses_config E R ''s3://bucket'' [(''enable_virtual_host_style'', ''banana'')]"
    and "{''memory'', ''fs'', ''s3''} \<subseteq> set registry" "''definitely_not_a_scheme'' \<notin> set registry" "distinct registry"
    and "list_all (\<lambda>s. nul_free s \<and> utf8_valid s) registry"
  shows "memory_list_and_exists E S te h = Some () \<and> fs_copy_succeeds E F te c None root h = Some ()
    \<and> operator_rejects_invalid_cross_service_options E S te h = Some ()
    \<and> service_config_validation_is_propagated E R te c None h = Some ()
    \<and> scheme_membership_reads_registry c None registry None = Some ()"
  using list_and_exists_passes [OF assms(1-6)] fs_copy_passes [OF assms(1,7,9,8)] rejects_invalid_passes [OF assms(10)]
    config_validation_passes [OF assms(11,9)] scheme_membership_passes [OF assms(9,12-15)]
  by (intro conjI)

theorem service_tests_pass_witness:
  "memory_list_and_exists mem_env sample_memory sample_crates [] = Some ()
     \<and> fs_copy_succeeds mem_env sample_fs sample_crates \<lparr>provider_before = False, install_ok = True, provider_after = True\<rparr> None ''/tmp'' [] = Some ()
     \<and> scheme_membership_reads_registry \<lparr>provider_before = False, install_ok = True, provider_after = True\<rparr> None
         [''s3'', ''memory'', ''fs''] None = Some ()"
proof -
  have names: "get_basename mem_env ''a/one.txt'' = ''one.txt''" "get_basename mem_env ''a/two.txt'' = ''two.txt''"
    by (simp_all add: mem_env_def)
  have empty: "mem_view [] s = Map.empty" for s by (simp add: mem_view_def mem_Nil)
  have crypto: "crypto_ready \<lparr>provider_before = False, install_ok = True, provider_after = True\<rparr>"
    by (simp add: crypto_ready_def)
  obtain cc where cc: "cache_default sample_crates = Ret (Inr cc)" using sample_cache(1) by blast
  have root: "utf8_valid ''/tmp''" by (simp add: is_ascii_def)
  have registry: "{''memory'', ''fs'', ''s3''} \<subseteq> set [''s3'', ''memory'', ''fs'']"
    "''definitely_not_a_scheme'' \<notin> set [''s3'', ''memory'', ''fs'']" "distinct [''s3'', ''memory'', ''fs'']"
    "list_all (\<lambda>s. nul_free s \<and> utf8_valid s) [''s3'', ''memory'', ''fs'']"
    by (simp_all add: is_ascii_def)
  from service_tests_pass [OF mem_dependable mem_probing sample_services(1) empty names sample_services(2) root crypto cc
      sample_services(4) registry] show ?thesis by simp
qed

end
