(* ===== verification/Handles.thy ===== *)
theory Handles
  imports Prelude
begin

text \<open>
  Who owns what crosses the C interface: every handle and string is a box the client gets a raw
  pointer to, and each kind has a function that releases it (\<open>free_handle\<close> in \<open>ffi.rs\<close>, the
  functions \<open>od_..._free\<close>, \<open>od_string_free\<close> in \<open>lib.rs\<close>).  The heap maps the live boxes to their
  kind; an allocation is known by its number, so an address is never used twice.  Taking back a box
  that is not live, or that is of another kind, is undefined behaviour: the result is \<open>None\<close>.
\<close>

section \<open>The code\<close>

datatype kind =
  KString | KOperator | KSchemes | KCapabilities | KEntries | KReader | KWriter
| KTableCursor | KDuCursor | KCopyCursor

record heap =
  boxes :: "nat \<Rightarrow> kind option"
  allocated :: nat

text \<open>\<open>Box::into_raw\<close> and \<open>CString::into_raw\<close>; \<open>from_raw\<close> and the drop, which releases the box even
  when the destructor panics, and the panic is caught.\<close>

definition into_raw :: "kind \<Rightarrow> heap \<Rightarrow> nat \<times> heap" where
  "into_raw k h = (allocated h, h\<lparr>boxes := (boxes h)(allocated h \<mapsto> k), allocated := Suc (allocated h)\<rparr>)"

definition drop_raw :: "kind \<Rightarrow> nat \<Rightarrow> heap \<Rightarrow> heap option" where
  "drop_raw k a h = (if boxes h a = Some k then Some (h\<lparr>boxes := (boxes h)(a := None)\<rparr>) else None)"

definition free_handle :: "kind \<Rightarrow> nat option \<Rightarrow> heap \<Rightarrow> heap option" where
  "free_handle k p h = (case p of None \<Rightarrow> Some h | Some a \<Rightarrow> drop_raw k a h)"

definition od_string_free :: "nat option \<Rightarrow> heap \<Rightarrow> heap option" where
  "od_string_free p h = (case p of None \<Rightarrow> Some h | Some a \<Rightarrow> drop_raw KString a h)"

definition od_operator_free :: "nat option \<Rightarrow> heap \<Rightarrow> heap option" where
  "od_operator_free = free_handle KOperator"

definition od_schemes_free :: "nat option \<Rightarrow> heap \<Rightarrow> heap option" where
  "od_schemes_free = free_handle KSchemes"

definition od_capabilities_free :: "nat option \<Rightarrow> heap \<Rightarrow> heap option" where
  "od_capabilities_free = free_handle KCapabilities"

definition od_list_free :: "nat option \<Rightarrow> heap \<Rightarrow> heap option" where
  "od_list_free = free_handle KEntries"

definition od_reader_free :: "nat option \<Rightarrow> heap \<Rightarrow> heap option" where
  "od_reader_free = free_handle KReader"

definition od_writer_free :: "nat option \<Rightarrow> heap \<Rightarrow> heap option" where
  "od_writer_free = free_handle KWriter"

definition od_table_cursor_free :: "nat option \<Rightarrow> heap \<Rightarrow> heap option" where
  "od_table_cursor_free = free_handle KTableCursor"

definition od_du_cursor_free :: "nat option \<Rightarrow> heap \<Rightarrow> heap option" where
  "od_du_cursor_free = free_handle KDuCursor"

definition od_copy_cursor_free :: "nat option \<Rightarrow> heap \<Rightarrow> heap option" where
  "od_copy_cursor_free = free_handle KCopyCursor"

section \<open>A client\<close>

text \<open>The function that releases a kind of box.\<close>

fun release :: "kind \<Rightarrow> nat option \<Rightarrow> heap \<Rightarrow> heap option" where
  "release KString = od_string_free"
| "release KOperator = od_operator_free"
| "release KSchemes = od_schemes_free"
| "release KCapabilities = od_capabilities_free"
| "release KEntries = od_list_free"
| "release KReader = od_reader_free"
| "release KWriter = od_writer_free"
| "release KTableCursor = od_table_cursor_free"
| "release KDuCursor = od_du_cursor_free"
| "release KCopyCursor = od_copy_cursor_free"

datatype event = Obtain kind | Release kind "nat option"

fun client :: "event list \<Rightarrow> heap \<Rightarrow> heap option" where
  "client [] h = Some h"
| "client (Obtain k # es) h = client es (snd (into_raw k h))"
| "client (Release k p # es) h = Option.bind (release k p h) (client es)"

definition no_boxes :: heap where
  "no_boxes = \<lparr>boxes = (\<lambda>_. None), allocated = 0\<rparr>"

text \<open>The boxes a client obtained, in order; what it released.\<close>

fun obtained :: "event list \<Rightarrow> kind list" where
  "obtained [] = []"
| "obtained (Obtain k # es) = k # obtained es"
| "obtained (Release k p # es) = obtained es"

fun released :: "event list \<Rightarrow> nat list" where
  "released [] = []"
| "released (Release k (Some a) # es) = a # released es"
| "released (_ # es) = released es"

text \<open>
  The contract the comments of the sources state: what is released was obtained before, by the
  function of its kind, and is released once.
\<close>

definition well_used :: "event list \<Rightarrow> bool" where
  "well_used es \<longleftrightarrow> (\<forall>before later k a. es = before @ Release k (Some a) # later \<longrightarrow>
     a < length (obtained before) \<and> obtained before ! a = k \<and> a \<notin> set (released before))"

lemma release_eq: "release k = free_handle k"
  by (cases k)
    (simp_all add: fun_eq_iff free_handle_def od_string_free_def od_operator_free_def od_schemes_free_def
      od_capabilities_free_def od_list_free_def od_reader_free_def od_writer_free_def
      od_table_cursor_free_def od_du_cursor_free_def od_copy_cursor_free_def)

lemma client_snoc:
  "client (es @ [e]) h = Option.bind (client es h)
     (\<lambda>h'. case e of Obtain k \<Rightarrow> Some (snd (into_raw k h')) | Release k p \<Rightarrow> free_handle k p h')"
  by (induction es h rule: client.induct)
    (auto simp: release_eq bind_assoc split: event.splits bind_splits)

lemma obtained_append [simp]: "obtained (es @ fs) = obtained es @ obtained fs"
  by (induction es rule: obtained.induct) simp_all

lemma released_append [simp]: "released (es @ fs) = released es @ released fs"
  by (induction es rule: released.induct) simp_all

lemma snoc_eq_iff:
  "es @ [e] = before @ x # later \<longleftrightarrow>
     before = es \<and> x = e \<and> later = [] \<or> (\<exists>rest. later = rest @ [e] \<and> es = before @ x # rest)"
  by (cases later rule: rev_cases) auto

lemma well_used_snoc:
  "well_used (es @ [Obtain k]) \<longleftrightarrow> well_used es"
  "well_used (es @ [Release k None]) \<longleftrightarrow> well_used es"
  "well_used (es @ [Release k (Some a)]) \<longleftrightarrow>
     well_used es \<and> a < length (obtained es) \<and> obtained es ! a = k \<and> a \<notin> set (released es)"
  unfolding well_used_def snoc_eq_iff by auto

text \<open>The heap of a client, from its events.\<close>

definition heap_of :: "event list \<Rightarrow> heap" where
  "heap_of es = \<lparr>boxes = (\<lambda>a. if a < length (obtained es) \<and> a \<notin> set (released es) then Some (obtained es ! a) else None),
     allocated = length (obtained es)\<rparr>"

lemma well_used_released: "well_used es \<Longrightarrow> a \<in> set (released es) \<Longrightarrow> a < length (obtained es)"
proof (induction es rule: rev_induct)
  case (snoc e es)
  then show ?case
  proof (cases e)
    case (Release k p)
    with snoc show ?thesis by (cases p) (auto simp: well_used_snoc)
  qed (auto simp: well_used_snoc less_Suc_eq)
qed simp

lemma well_used_distinct: "well_used es \<Longrightarrow> distinct (released es)"
proof (induction es rule: rev_induct)
  case (snoc e es)
  then show ?case
  proof (cases e)
    case (Release k p)
    with snoc show ?thesis by (cases p) (auto simp: well_used_snoc)
  qed (simp add: well_used_snoc)
qed simp

lemma client_heap: "client es no_boxes = (if well_used es then Some (heap_of es) else None)"
proof (induction es rule: rev_induct)
  case Nil
  show ?case by (simp add: well_used_def heap_of_def no_boxes_def)
next
  case (snoc e es)
  show ?case
  proof (cases e)
    case (Obtain k)
    have "well_used es \<Longrightarrow> snd (into_raw k (heap_of es)) = heap_of (es @ [Obtain k])"
      using well_used_released [of es "length (obtained es)"]
      by (auto simp: into_raw_def heap_of_def fun_eq_iff nth_append less_Suc_eq)
    with snoc Obtain show ?thesis by (simp add: client_snoc well_used_snoc)
  next
    case (Release k p)
    show ?thesis
    proof (cases p)
      case None
      with snoc Release show ?thesis
        by (simp add: client_snoc well_used_snoc free_handle_def heap_of_def fun_eq_iff)
    next
      case (Some a)
      have "drop_raw k a (heap_of es) =
          (if a < length (obtained es) \<and> obtained es ! a = k \<and> a \<notin> set (released es)
           then Some (heap_of (es @ [Release k (Some a)])) else None)"
        by (auto simp: drop_raw_def heap_of_def fun_eq_iff)
      with snoc Release Some show ?thesis by (simp add: client_snoc well_used_snoc free_handle_def)
    qed
  qed
qed

text \<open>
  C32: The life of handles and strings: a client's calls are defined exactly when it releases only
  what it obtained before, with the function of its kind and once (null is always allowed); then
  what is left on the heap is what it obtained and did not release, so nothing is left exactly when
  all was released, and what is live keeps its kind.
\<close>

theorem handles_released:
  "case client es no_boxes of None \<Rightarrow> \<not> well_used es
   | Some h \<Rightarrow> well_used es \<and> distinct (released es)
       \<and> (\<forall>a k. boxes h a = Some k \<longleftrightarrow> a < length (obtained es) \<and> obtained es ! a = k \<and> a \<notin> set (released es))
       \<and> (boxes h = (\<lambda>_. None) \<longleftrightarrow> set (released es) = {..< length (obtained es)})"
proof (cases "well_used es")
  case True
  have "boxes (heap_of es) = (\<lambda>_. None) \<longleftrightarrow> set (released es) = {..< length (obtained es)}"
    using well_used_released [OF True] by (auto simp: heap_of_def fun_eq_iff)
  moreover have "distinct (released es)" using True by (rule well_used_distinct)
  moreover have "boxes (heap_of es) a = Some k \<longleftrightarrow>
      a < length (obtained es) \<and> obtained es ! a = k \<and> a \<notin> set (released es)" for a k
    by (simp add: heap_of_def)
  ultimately show ?thesis using True by (simp add: client_heap)
qed (simp add: client_heap)

end
