(* ===== verification/Runtime.thy ===== *)
theory Runtime
  imports Prelude
begin

text \<open>
  The process-wide runtime (\<open>opendal/src/runtime.rs\<close>): a \<open>OnceLock\<close> that any thread may fill.  What
  building a runtime gives is a parameter (\<open>None\<close>: the builder failed); a runtime is known by a
  number.  \<open>runtime\<close> and \<open>block_on\<close> are the calls as one thread sees them; the step relation is
  the same call taken by many threads, where \<open>OnceLock\<close> lets one thread build and the others wait,
  and a build that panics leaves the cell empty.
\<close>

section \<open>The code\<close>

definition runtime :: "nat option \<Rightarrow> nat option \<Rightarrow> nat outcome \<times> nat option" where
  "runtime cell built =
     (case cell of Some rt \<Rightarrow> (Ret rt, cell)
      | None \<Rightarrow> (case built of Some rt \<Rightarrow> (Ret rt, Some rt) | None \<Rightarrow> (Panic, None)))"

text \<open>A future is what it does on the runtime that drives it.\<close>

definition block_on :: "nat option \<Rightarrow> nat option \<Rightarrow> (nat \<Rightarrow> 'a outcome) \<Rightarrow> 'a outcome \<times> nat option" where
  "block_on cell built fut = (let (rt, cell') = runtime cell built in (outcome_bind rt fut, cell'))"

section \<open>Threads\<close>

datatype once = Vacant | Filling nat | Filled nat

record process =
  lock :: once
  driving :: "nat \<Rightarrow> nat option"  \<comment> \<open>the runtime a thread's future runs on\<close>
  answers :: "nat outcome list"  \<comment> \<open>what \<open>runtime\<close> gave, in the order of its returns\<close>
  runtimes :: "nat list"  \<comment> \<open>the runtimes that were built\<close>

definition start :: process where
  "start = \<lparr>lock = Vacant, driving = (\<lambda>_. None), answers = [], runtimes = []\<rparr>"

inductive thread_step :: "process \<Rightarrow> process \<Rightarrow> bool" where
  claim: "lock s = Vacant \<Longrightarrow> driving s t = None \<Longrightarrow> thread_step s (s\<lparr>lock := Filling t\<rparr>)"
| fill: "lock s = Filling t \<Longrightarrow> rt \<notin> set (runtimes s) \<Longrightarrow>
     thread_step s (s\<lparr>lock := Filled rt, driving := (driving s)(t := Some rt),
       answers := answers s @ [Ret rt], runtimes := runtimes s @ [rt]\<rparr>)"
| abandon: "lock s = Filling t \<Longrightarrow> thread_step s (s\<lparr>lock := Vacant, answers := answers s @ [Panic]\<rparr>)"
| share: "lock s = Filled rt \<Longrightarrow> driving s t = None \<Longrightarrow>
     thread_step s (s\<lparr>driving := (driving s)(t := Some rt), answers := answers s @ [Ret rt]\<rparr>)"
| finish: "driving s t = Some rt \<Longrightarrow> thread_step s (s\<lparr>driving := (driving s)(t := None)\<rparr>)"

inductive_cases thread_stepE: "thread_step s s'"

text \<open>The calls one after the other; each may be given a runtime by the builder.\<close>

fun calls :: "nat option \<Rightarrow> nat option list \<Rightarrow> nat outcome list \<times> nat option" where
  "calls cell [] = ([], cell)"
| "calls cell (b # bs) = (let (r, cell') = runtime cell b; (rs, cell'') = calls cell' bs in (r # rs, cell''))"

lemma calls_snoc:
  "calls cell (bs @ [b]) =
     (fst (calls cell bs) @ [fst (runtime (snd (calls cell bs)) b)], snd (runtime (snd (calls cell bs)) b))"
  by (induction bs arbitrary: cell) (simp_all add: case_prod_unfold Let_def)

section \<open>Invariant\<close>

text \<open>What the cell holds for later callers.\<close>

definition shared_runtime :: "process \<Rightarrow> nat option" where
  "shared_runtime s = (case lock s of Filled rt \<Rightarrow> Some rt | _ \<Rightarrow> None)"

definition runtime_inv :: "process \<Rightarrow> bool" where
  "runtime_inv s \<longleftrightarrow> (\<exists>builds. calls None builds = (answers s, shared_runtime s))
     \<and> runtimes s = (case shared_runtime s of Some rt \<Rightarrow> [rt] | None \<Rightarrow> [])
     \<and> (\<forall>t rt. driving s t = Some rt \<longrightarrow> shared_runtime s = Some rt)
     \<and> (\<forall>rt. Ret rt \<in> set (answers s) \<longrightarrow> shared_runtime s = Some rt)"

lemma runtime_inv_step: "thread_step s s' \<Longrightarrow> runtime_inv s \<Longrightarrow> runtime_inv s'"
proof (induction rule: thread_step.induct)
  case (claim s t)
  then show ?case by (simp add: runtime_inv_def shared_runtime_def)
next
  case (fill s t rt)
  then obtain builds where "calls None builds = (answers s, None)" by (auto simp: runtime_inv_def shared_runtime_def)
  then have "calls None (builds @ [Some rt]) = (answers s @ [Ret rt], Some rt)"
    by (simp add: calls_snoc runtime_def)
  with fill show ?case by (auto simp: runtime_inv_def shared_runtime_def)
next
  case (abandon s t)
  then obtain builds where "calls None builds = (answers s, None)" by (auto simp: runtime_inv_def shared_runtime_def)
  then have "calls None (builds @ [None]) = (answers s @ [Panic], None)"
    by (simp add: calls_snoc runtime_def)
  with abandon show ?case by (auto simp: runtime_inv_def shared_runtime_def)
next
  case (share s rt t)
  then obtain builds where "calls None builds = (answers s, Some rt)" by (auto simp: runtime_inv_def shared_runtime_def)
  then have "calls None (builds @ [None]) = (answers s @ [Ret rt], Some rt)"
    by (simp add: calls_snoc runtime_def)
  with share show ?case by (auto simp: runtime_inv_def shared_runtime_def)
next
  case (finish s t rt)
  have "shared_runtime (s\<lparr>driving := (driving s)(t := None)\<rparr>) = shared_runtime s" by (simp add: shared_runtime_def)
  with finish(2) show ?case unfolding runtime_inv_def by (simp split: option.splits)
qed

lemma runtime_inv_start: "runtime_inv start"
  by (auto simp: runtime_inv_def shared_runtime_def start_def intro: exI [of _ "[]"])

lemma runtime_inv_reachable: "thread_step\<^sup>*\<^sup>* start s \<Longrightarrow> runtime_inv s"
  by (induction rule: rtranclp_induct) (auto intro: runtime_inv_start runtime_inv_step)


text \<open>Two threads call at once; the first build panics.\<close>

lemma sample_threads:
  "thread_step\<^sup>*\<^sup>* start \<lparr>lock = Filled 7, driving = (\<lambda>_. None)(2 := Some 7, 1 := Some 7),
     answers = [Panic, Ret 7, Ret 7], runtimes = [7]\<rparr>"
proof -
  have "thread_step start (start\<lparr>lock := Filling 1\<rparr>)"
    by (rule claim) (simp_all add: start_def)
  moreover have "thread_step (start\<lparr>lock := Filling 1\<rparr>) (start\<lparr>answers := [Panic]\<rparr>)"
    using abandon [of "start\<lparr>lock := Filling 1\<rparr>" 1] by (simp add: start_def)
  moreover have "thread_step (start\<lparr>answers := [Panic]\<rparr>) (start\<lparr>lock := Filling 2, answers := [Panic]\<rparr>)"
    using claim [of "start\<lparr>answers := [Panic]\<rparr>" 2] by (simp add: start_def)
  moreover have "thread_step (start\<lparr>lock := Filling 2, answers := [Panic]\<rparr>)
      \<lparr>lock = Filled 7, driving = (\<lambda>_. None)(2 := Some 7), answers = [Panic, Ret 7], runtimes = [7]\<rparr>"
    using fill [of "start\<lparr>lock := Filling 2, answers := [Panic]\<rparr>" 2 7] by (simp add: start_def)
  moreover have "thread_step
      \<lparr>lock = Filled 7, driving = (\<lambda>_. None)(2 := Some 7), answers = [Panic, Ret 7], runtimes = [7]\<rparr>
      \<lparr>lock = Filled 7, driving = (\<lambda>_. None)(2 := Some 7, 1 := Some 7), answers = [Panic, Ret 7, Ret 7], runtimes = [7]\<rparr>"
    using share [of "\<lparr>lock = Filled 7, driving = (\<lambda>_. None)(2 := Some 7), answers = [Panic, Ret 7], runtimes = [7]\<rparr>" 7 1]
    by simp
  ultimately show ?thesis by (meson converse_rtranclp_into_rtranclp rtranclp.rtrancl_refl)
qed


end
