(* ===== verification/Build.thy ===== *)
theory Build
  imports Config
begin

text \<open>
  The build script (\<open>opendal/build.rs\<close>) and the version it hands to the library.  The crates it calls
  (cbindgen, toml) and the file system are a parameter; the parsed lock file is toml's value type.
  Paths are Unix paths; a directory that cannot be read has no entry list.  The tree of source
  directories is finite: links that lead back up are not modelled.
\<close>

section \<open>Paths and the outside\<close>

text \<open>\<open>Path::parent\<close>, for a path without dot components.\<close>

definition path_parent :: "string \<Rightarrow> string option" where
  "path_parent p =
     (let q = trim_end_char CHR ''/'' p in
      if q = [] then None
      else Some (case rfind_char CHR ''/'' q of None \<Rightarrow> []
         | Some i \<Rightarrow> (let r = trim_end_char CHR ''/'' (take i q) in if r = [] then ''/'' else r)))"

text \<open>\<open>Path::extension\<close> of a file name: what follows the last dot, unless nothing precedes it.\<close>

definition file_extension :: "string \<Rightarrow> string option" where
  "file_extension n =
     (if n = ''..'' then None
      else case rfind_char CHR ''.'' n of None \<Rightarrow> None | Some 0 \<Rightarrow> None | Some i \<Rightarrow> Some (drop (Suc i) n))"

text \<open>\<open>str::rsplit_once\<close>\<close>

definition rsplit_once_char :: "char \<Rightarrow> string \<Rightarrow> (string \<times> string) option" where
  "rsplit_once_char c s = map_option (\<lambda>i. (take i s, drop (Suc i) s)) (rfind_char c s)"

datatype toml = TString string | TArray "toml list" | TTable "(string \<times> toml) list" | TOther

fun as_str :: "toml \<Rightarrow> string option" where
  "as_str (TString s) = Some s"
| "as_str _ = None"

fun as_array :: "toml \<Rightarrow> toml list option" where
  "as_array (TArray xs) = Some xs"
| "as_array _ = None"

fun as_table :: "toml \<Rightarrow> (string \<times> toml) list option" where
  "as_table (TTable t) = Some t"
| "as_table _ = None"

datatype dir_entry = PlainFile | Directory "(string \<times> dir_entry) list option"

record build_env =
  env_var :: "string \<Rightarrow> string option"
  create_dirs :: "string \<Rightarrow> bool"
  bindgen_config :: "string \<Rightarrow> string option"
  generate :: "string \<Rightarrow> string \<Rightarrow> string option"
  write_ok :: "string \<Rightarrow> bool"
  read_file :: "string \<Rightarrow> string option"
  parse_toml :: "string \<Rightarrow> (string \<times> toml) list option"
  read_dir :: "string \<Rightarrow> (string \<times> dir_entry) list option"

section \<open>The script\<close>

text \<open>The lines printed for a source directory, given its entries.\<close>

function rerun_if_sources_changed :: "string \<Rightarrow> (string \<times> dir_entry) list option \<Rightarrow> string list" where
  "rerun_if_sources_changed dir None = []"
| "rerun_if_sources_changed dir (Some []) = []"
| "rerun_if_sources_changed dir (Some ((n, Directory sub) # es)) =
     rerun_if_sources_changed (path_join dir n) sub @ rerun_if_sources_changed dir (Some es)"
| "rerun_if_sources_changed dir (Some ((n, PlainFile) # es)) =
     (if file_extension n = Some ''rs'' then [''cargo:rerun-if-changed='' @ path_join dir n] else [])
       @ rerun_if_sources_changed dir (Some es)"
  by pat_completeness auto

termination
  by (relation "measure (size_option (size_list (size_prod (\<lambda>_. 0) size)) \<circ> snd)") auto

definition has_name :: "string \<Rightarrow> toml \<Rightarrow> bool" where
  "has_name name p \<longleftrightarrow> Option.bind (Option.bind (as_table p) (\<lambda>t. map_of t ''name'')) as_str = Some name"

definition locked_package :: "(string \<times> toml) list \<Rightarrow> string \<Rightarrow> (string \<times> toml) list option" where
  "locked_package doc name =
     Option.bind (Option.bind (map_of doc ''package'') as_array) (\<lambda>packages.
     Option.bind (List.find (has_name name) packages) as_table)"

text \<open>The short commit of a git source.\<close>

definition git_commit :: "(string \<times> toml) list \<Rightarrow> string option" where
  "git_commit table =
     (case Option.bind (map_of table ''source'') as_str of None \<Rightarrow> None
      | Some source \<Rightarrow>
          (case rsplit_once_char CHR ''#'' source of None \<Rightarrow> None
           | Some (_, hash) \<Rightarrow>
               if prefix ''git+'' source \<and> hash \<noteq> [] then Some (concat (take 7 (str_chars hash))) else None))"

definition read_locked_version :: "build_env \<Rightarrow> string \<Rightarrow> string \<Rightarrow> string option" where
  "read_locked_version B lock_path name =
     Option.bind (read_file B lock_path) (\<lambda>contents.
     Option.bind (parse_toml B contents) (\<lambda>doc.
     Option.bind (locked_package doc name) (\<lambda>table.
     Option.bind (Option.bind (map_of table ''version'') as_str) (\<lambda>version.
       Some (case git_commit table of Some short \<Rightarrow> version @ '' (git '' @ short @ '')'' | None \<Rightarrow> version)))))"

datatype build_effect = MakeDirs string | WriteHeader string string | Line string

text \<open>What \<open>main\<close> does, in order, and whether it came to its end.\<close>

definition locked_version :: "build_env \<Rightarrow> string \<Rightarrow> string" where
  "locked_version B crate_dir =
     (case read_locked_version B (path_join crate_dir ''Cargo.lock'') ''opendal'' of Some v \<Rightarrow> v | None \<Rightarrow> ''unknown'')"

definition build_lines :: "build_env \<Rightarrow> string \<Rightarrow> string list" where
  "build_lines B crate_dir =
     rerun_if_sources_changed (path_join crate_dir ''src'') (read_dir B (path_join crate_dir ''src''))
     @ [''cargo:rerun-if-changed=cbindgen.toml'',
        ''cargo:rustc-env=OPENDAL_VERSION='' @ locked_version B crate_dir,
        ''cargo:rerun-if-changed=Cargo.lock'', ''cargo:rerun-if-changed=Cargo.toml'']
     @ (if env_var B ''CARGO_CFG_TARGET_OS'' = Some ''windows'' then [''cargo:rustc-link-lib=bcrypt''] else [])"

definition build_main :: "build_env \<Rightarrow> unit outcome \<times> build_effect list" where
  "build_main B =
     (case env_var B ''CARGO_MANIFEST_DIR'' of None \<Rightarrow> (Panic, [])
      | Some crate_dir \<Rightarrow>
     (case path_parent crate_dir of None \<Rightarrow> (Panic, [])
      | Some root \<Rightarrow>
        (let include = path_join (path_join root ''src'') ''include''; out_path = path_join include ''rust.h''
         in if \<not> create_dirs B include then (Panic, [])
            else (case bindgen_config B (path_join crate_dir ''cbindgen.toml'') of None \<Rightarrow> (Panic, [MakeDirs include])
                  | Some config \<Rightarrow>
                 (case generate B crate_dir config of None \<Rightarrow> (Panic, [MakeDirs include])
                  | Some bindings \<Rightarrow>
                      if \<not> write_ok B out_path then (Panic, [MakeDirs include])
                      else (Ret (), MakeDirs include # WriteHeader out_path bindings # map Line (build_lines B crate_dir)))))))"

text \<open>The entry point that reports the version: \<open>OPENDAL_VERSION\<close> is the value the script set.\<close>

definition od_opendal_version :: "string \<Rightarrow> string option" where
  "od_opendal_version opendal_version = cstring_new opendal_version"

section \<open>What is watched\<close>

text \<open>The files with extension \<open>rs\<close> in or below a directory.\<close>

inductive rust_source :: "string \<Rightarrow> (string \<times> dir_entry) list option \<Rightarrow> string \<Rightarrow> bool" where
  here: "(stem @ ''.rs'', PlainFile) \<in> set es \<Longrightarrow> stem \<noteq> [] \<Longrightarrow>
     rust_source dir (Some es) (path_join dir (stem @ ''.rs''))"
| below: "(n, Directory sub) \<in> set es \<Longrightarrow> rust_source (path_join dir n) sub path \<Longrightarrow>
     rust_source dir (Some es) path"

inductive_simps rust_source_None [simp]: "rust_source dir None path"

inductive_simps rust_source_Some: "rust_source dir (Some es) path"

lemma rust_source_Nil [simp]: "\<not> rust_source dir (Some []) path"
  by (simp add: rust_source_Some)

lemma rust_source_Cons:
  "rust_source dir (Some ((n, Directory sub) # es)) path \<longleftrightarrow>
     rust_source (path_join dir n) sub path \<or> rust_source dir (Some es) path"
  "rust_source dir (Some ((n, PlainFile) # es)) path \<longleftrightarrow>
     (\<exists>stem. n = stem @ ''.rs'' \<and> stem \<noteq> [] \<and> path = path_join dir n) \<or> rust_source dir (Some es) path"
  by (auto simp: rust_source_Some)

lemma rfind_char_Some_iff [result_iff]:
  "rfind_char c s = Some i \<longleftrightarrow> (\<exists>a b. s = a @ c # b \<and> c \<notin> set b \<and> i = length a)"
proof
  assume r: "rfind_char c s = Some i"
  have "s = take i s @ c # drop (Suc i) s"
    using rfind_char_SomeD [OF r] by (metis id_take_nth_drop)
  with rfind_char_SomeD [OF r] show "\<exists>a b. s = a @ c # b \<and> c \<notin> set b \<and> i = length a"
    by (metis length_take less_imp_le min.absorb2)
next
  have found: "c \<notin> set b \<Longrightarrow> rfind_char c (a @ c # b) = Some (length a)" for a b
    by (induction a) (simp_all add: rfind_char_None_iff [THEN iffD2])
  assume "\<exists>a b. s = a @ c # b \<and> c \<notin> set b \<and> i = length a"
  then show "rfind_char c s = Some i" by (auto simp: found)
qed

lemma file_extension_rs: "file_extension n = Some ''rs'' \<longleftrightarrow> (\<exists>stem. n = stem @ ''.rs'' \<and> stem \<noteq> [])"
proof
  assume "file_extension n = Some ''rs''"
  then obtain i where "rfind_char CHR ''.'' n = Some i" "i \<noteq> 0" "drop (Suc i) n = ''rs''"
    by (auto simp: file_extension_def split: if_splits option.splits nat.splits)
  then show "\<exists>stem. n = stem @ ''.rs'' \<and> stem \<noteq> []" by (auto simp: result_iff)
next
  assume "\<exists>stem. n = stem @ ''.rs'' \<and> stem \<noteq> []"
  then obtain stem where n: "n = stem @ ''.rs''" "stem \<noteq> []" by auto
  then have "rfind_char CHR ''.'' n = Some (length stem)"
    unfolding rfind_char_Some_iff by (intro exI [of _ stem] exI [of _ "''rs''"]) simp
  with n show "file_extension n = Some ''rs''"
    by (cases stem) (auto simp: file_extension_def)
qed

lemma set_rerun:
  "set (rerun_if_sources_changed dir entries) = {''cargo:rerun-if-changed='' @ path |path. rust_source dir entries path}"
proof (induction dir entries rule: rerun_if_sources_changed.induct)
  case (3 dir n sub es)
  then show ?case by (auto simp: rust_source_Cons)
next
  case (4 dir n es)
  then show ?case by (auto simp: rust_source_Cons file_extension_rs)
qed auto

lemmas build_main_simps = build_main_def build_lines_def Let_def set_rerun

section \<open>Properties\<close>

text \<open>The directory of the sources.\<close>

definition source_dir :: "string \<Rightarrow> string" where
  "source_dir crate_dir = path_join crate_dir ''src''"

text \<open>
  C35: When the build script comes to its end, it has made the include directory beside the crate,
  then written what the generator gave to \<open>rust.h\<close> in it, and only then printed its lines; and
  cargo watches exactly the Rust sources in or below the source directory, the generator's
  configuration and the two cargo files.
\<close>

theorem build_watches_sources:
  assumes "fst (build_main B) = Ret ()"
  shows "\<exists>crate_dir root include config bindings lines.
     env_var B ''CARGO_MANIFEST_DIR'' = Some crate_dir
     \<and> path_parent crate_dir = Some root \<and> include = path_join (path_join root ''src'') ''include''
     \<and> bindgen_config B (path_join crate_dir ''cbindgen.toml'') = Some config
     \<and> generate B crate_dir config = Some bindings
     \<and> snd (build_main B) = MakeDirs include # WriteHeader (path_join include ''rust.h'') bindings # map Line lines
     \<and> {path. ''cargo:rerun-if-changed='' @ path \<in> set lines} =
         {path. rust_source (source_dir crate_dir) (read_dir B (source_dir crate_dir)) path}
           \<union> {''cbindgen.toml'', ''Cargo.lock'', ''Cargo.toml''}"
proof -
  obtain crate_dir root config bindings where
    "env_var B ''CARGO_MANIFEST_DIR'' = Some crate_dir" "path_parent crate_dir = Some root"
    "bindgen_config B (path_join crate_dir ''cbindgen.toml'') = Some config"
    "generate B crate_dir config = Some bindings"
    and run: "snd (build_main B) = MakeDirs (path_join (path_join root ''src'') ''include'')
      # WriteHeader (path_join (path_join (path_join root ''src'') ''include'') ''rust.h'') bindings
      # map Line (build_lines B crate_dir)"
    using assms by (auto simp: build_main_def Let_def split: option.splits if_splits)
  moreover have "{path. ''cargo:rerun-if-changed='' @ path \<in> set (build_lines B crate_dir)} =
      {path. rust_source (source_dir crate_dir) (read_dir B (source_dir crate_dir)) path}
        \<union> {''cbindgen.toml'', ''Cargo.lock'', ''Cargo.toml''}"
    by (auto simp: build_lines_def set_rerun source_dir_def)
  ultimately show ?thesis by blast
qed

definition sample_lock :: "(string \<times> toml) list" where
  "sample_lock = [(''version'', TOther), (''package'', TArray
     [TTable [(''name'', TString ''serde''), (''version'', TString ''1.0.1'')],
      TTable [(''name'', TString ''opendal''), (''version'', TString ''0.58.0''),
              (''source'', TString ''git+https://host/opendal?rev=main#a1b2c3d4e5'')]])]"

definition sample_build :: build_env where
  "sample_build = \<lparr>env_var = [''CARGO_MANIFEST_DIR'' \<mapsto> ''/r/opendal''], create_dirs = (\<lambda>_. True),
     bindgen_config = (\<lambda>_. Some ''c''), generate = (\<lambda>_ _. Some ''h''), write_ok = (\<lambda>_. True),
     read_file = [''/r/opendal/Cargo.lock'' \<mapsto> ''lock''], parse_toml = [''lock'' \<mapsto> sample_lock],
     read_dir = [''/r/opendal/src'' \<mapsto> [(''lib.rs'', PlainFile), (''config'', Directory (Some [(''io.rs'', PlainFile)])),
       (''notes.md'', PlainFile)]]\<rparr>"

lemma sample_build_done: "fst (build_main sample_build) = Ret ()"
  by (simp add: sample_build_def build_main_def path_parent_def path_join_def trim_end_char_def)

theorem build_watches_sources_witness:
  "\<exists>crate_dir root include config bindings lines.
     env_var sample_build ''CARGO_MANIFEST_DIR'' = Some crate_dir
     \<and> path_parent crate_dir = Some root \<and> include = path_join (path_join root ''src'') ''include''
     \<and> bindgen_config sample_build (path_join crate_dir ''cbindgen.toml'') = Some config
     \<and> generate sample_build crate_dir config = Some bindings
     \<and> snd (build_main sample_build) =
         MakeDirs include # WriteHeader (path_join include ''rust.h'') bindings # map Line lines
     \<and> {path. ''cargo:rerun-if-changed='' @ path \<in> set lines} =
         {path. rust_source (source_dir crate_dir) (read_dir sample_build (source_dir crate_dir)) path}
           \<union> {''cbindgen.toml'', ''Cargo.lock'', ''Cargo.toml''}"
  by (rule build_watches_sources [OF sample_build_done])

text \<open>The version.\<close>

lemma find_first:
  "\<forall>x \<in> set before. \<not> P x \<Longrightarrow> P y \<Longrightarrow> List.find P (before @ y # after) = Some y"
  by (induction before) auto

lemma git_commit_simps:
  "map_of t ''source'' = None \<Longrightarrow> git_commit t = None"
  "map_of t ''source'' = Some (TString src) \<Longrightarrow> \<not> prefix ''git+'' src \<Longrightarrow> git_commit t = None"
  "map_of t ''source'' = Some (TString (''git+'' @ url @ ''#'' @ hash)) \<Longrightarrow> CHR ''#'' \<notin> set hash \<Longrightarrow> hash \<noteq> []
     \<Longrightarrow> list_all is_ascii hash \<Longrightarrow> git_commit t = Some (take 7 hash)"
proof -
  show "map_of t ''source'' = None \<Longrightarrow> git_commit t = None"
    and "map_of t ''source'' = Some (TString src) \<Longrightarrow> \<not> prefix ''git+'' src \<Longrightarrow> git_commit t = None"
    by (auto simp: git_commit_def split: option.splits)
  assume s: "map_of t ''source'' = Some (TString (''git+'' @ url @ ''#'' @ hash))" and h: "CHR ''#'' \<notin> set hash"
    "hash \<noteq> []" "list_all is_ascii hash"
  have "rfind_char CHR ''#'' (''git+'' @ url @ ''#'' @ hash) = Some (length (''git+'' @ url))"
    using h(1) by (simp only: rfind_char_Some_iff) (metis append_assoc append_Cons append_Nil)
  then have "rsplit_once_char CHR ''#'' (''git+'' @ url @ ''#'' @ hash) = Some (''git+'' @ url, hash)"
    by (simp add: rsplit_once_char_def)
  then show "git_commit t = Some (take 7 hash)"
    using s h by (simp add: git_commit_def str_chars_ascii take_map concat_map_singleton)
qed

lemma read_locked_found:
  assumes "read_file B lock = Some contents" "parse_toml B contents = Some doc"
    and "map_of doc ''package'' = Some (TArray (before @ TTable t # after))"
    and "\<forall>x \<in> set before. \<not> has_name name x" "map_of t ''name'' = Some (TString name)"
    and "map_of t ''version'' = Some (TString ver)"
  shows "read_locked_version B lock name =
     Some (case git_commit t of Some short \<Rightarrow> ver @ '' (git '' @ short @ '')'' | None \<Rightarrow> ver)"
proof -
  have "has_name name (TTable t)" using assms(5) by (simp add: has_name_def)
  then show ?thesis
    using assms by (simp add: read_locked_version_def locked_package_def find_first)
qed

text \<open>How the version of a package reads, given the table of the package in the lock file.\<close>

inductive version_text :: "(string \<times> toml) list \<Rightarrow> string \<Rightarrow> bool" where
  local_source: "map_of t ''version'' = Some (TString ver) \<Longrightarrow> map_of t ''source'' = None \<Longrightarrow> version_text t ver"
| registry: "map_of t ''version'' = Some (TString ver) \<Longrightarrow> map_of t ''source'' = Some (TString src) \<Longrightarrow>
     \<not> prefix ''git+'' src \<Longrightarrow> version_text t ver"
| git: "map_of t ''version'' = Some (TString ver) \<Longrightarrow>
     map_of t ''source'' = Some (TString (''git+'' @ url @ ''#'' @ hash)) \<Longrightarrow> CHR ''#'' \<notin> set hash \<Longrightarrow> hash \<noteq> [] \<Longrightarrow>
     list_all is_ascii hash \<Longrightarrow> version_text t (ver @ '' (git '' @ take 7 hash @ '')'')"

lemma version_text_read:
  assumes "version_text t v" "read_file B lock = Some contents" "parse_toml B contents = Some doc"
    and "map_of doc ''package'' = Some (TArray (before @ TTable t # after))"
    and "\<forall>x \<in> set before. \<not> has_name name x" "map_of t ''name'' = Some (TString name)"
  shows "read_locked_version B lock name = Some v"
  using assms(1) by cases (simp_all add: read_locked_found [OF assms(2-6)] git_commit_simps)

lemma build_main_version:
  assumes "fst (build_main B) = Ret ()" "Line (''cargo:rustc-env=OPENDAL_VERSION='' @ v) \<in> set (snd (build_main B))"
    and "env_var B ''CARGO_MANIFEST_DIR'' = Some crate_dir"
  shows "v = locked_version B crate_dir"
  using assms by (auto simp: build_main_def build_lines_def Let_def set_rerun split: option.splits if_splits)

text \<open>
  C34: The version that the library reports is the one the build script found.  When the lock file
  has the package, that is the locked version of its first entry, followed by the short commit for
  a git source; when the lock file cannot be read or parsed, or has no such package, it is
  \<open>unknown\<close>.
\<close>

theorem version_reported:
  assumes "fst (build_main B) = Ret ()" "Line (''cargo:rustc-env=OPENDAL_VERSION='' @ v) \<in> set (snd (build_main B))"
    and "env_var B ''CARGO_MANIFEST_DIR'' = Some crate_dir" "lock = path_join crate_dir ''Cargo.lock''"
  shows "(\<forall>contents doc before t after w. read_file B lock = Some contents \<longrightarrow> parse_toml B contents = Some doc \<longrightarrow>
       map_of doc ''package'' = Some (TArray (before @ TTable t # after)) \<longrightarrow>
       (\<forall>x \<in> set before. \<not> has_name ''opendal'' x) \<longrightarrow> map_of t ''name'' = Some (TString ''opendal'') \<longrightarrow>
       version_text t w \<longrightarrow> nul_free w \<longrightarrow> od_opendal_version v = Some w)
    \<and> (Option.bind (read_file B lock) (parse_toml B) = None \<longrightarrow> od_opendal_version v = Some ''unknown'')
    \<and> (\<forall>contents doc packages. read_file B lock = Some contents \<longrightarrow> parse_toml B contents = Some doc \<longrightarrow>
       map_of doc ''package'' = Some (TArray packages) \<longrightarrow> (\<forall>x \<in> set packages. \<not> has_name ''opendal'' x) \<longrightarrow>
       od_opendal_version v = Some ''unknown'')"
proof -
  have v: "v = (case read_locked_version B lock ''opendal'' of Some v \<Rightarrow> v | None \<Rightarrow> ''unknown'')"
    using build_main_version [OF assms(1-3)] assms(4) by (simp add: locked_version_def)
  have unknown: "od_opendal_version ''unknown'' = Some ''unknown''"
    by (simp add: od_opendal_version_def result_iff)
  have none: "v = ''unknown''" if "read_locked_version B lock ''opendal'' = None" using that v by simp
  show ?thesis
  proof (intro conjI allI impI)
    fix contents doc before t after w
    assume "read_file B lock = Some contents" "parse_toml B contents = Some doc"
      "map_of doc ''package'' = Some (TArray (before @ TTable t # after))"
      "\<forall>x \<in> set before. \<not> has_name ''opendal'' x" "map_of t ''name'' = Some (TString ''opendal'')"
      "version_text t w" "nul_free w"
    then show "od_opendal_version v = Some w"
      using v by (simp add: version_text_read od_opendal_version_def result_iff)
  next
    assume "Option.bind (read_file B lock) (parse_toml B) = None"
    then show "od_opendal_version v = Some ''unknown''"
      using none unknown by (auto simp: read_locked_version_def split: bind_splits)
  next
    fix contents doc packages
    assume "read_file B lock = Some contents" "parse_toml B contents = Some doc"
      "map_of doc ''package'' = Some (TArray packages)" "\<forall>x \<in> set packages. \<not> has_name ''opendal'' x"
    moreover from this have "List.find (has_name ''opendal'') packages = None" by (simp add: find_None_iff)
    ultimately have "read_locked_version B lock ''opendal'' = None"
      by (simp add: read_locked_version_def locked_package_def)
    then show "od_opendal_version v = Some ''unknown''" using none unknown by simp
  qed
qed

lemma sample_build_line:
  "Line (''cargo:rustc-env=OPENDAL_VERSION='' @ ''0.58.0 (git a1b2c3d)'') \<in> set (snd (build_main sample_build))"
  by code_simp

theorem version_reported_witness: "od_opendal_version ''0.58.0 (git a1b2c3d)'' = Some ''0.58.0 (git a1b2c3d)''"
proof -
  have "env_var sample_build ''CARGO_MANIFEST_DIR'' = Some ''/r/opendal''" by (simp add: sample_build_def)
  note reported = version_reported [OF sample_build_done sample_build_line this refl, THEN conjunct1, rule_format,
      where contents = "''lock''" and doc = sample_lock
        and before = "[TTable [(''name'', TString ''serde''), (''version'', TString ''1.0.1'')]]"
        and t = "[(''name'', TString ''opendal''), (''version'', TString ''0.58.0''),
              (''source'', TString ''git+https://host/opendal?rev=main#a1b2c3d4e5'')]"]
  show ?thesis
    by (rule reported [OF _ _ _ _ _ git [where url = "''https://host/opendal?rev=main''" and hash = "''a1b2c3d4e5''"
          and ver = "''0.58.0''", simplified]])
       (simp_all add: sample_build_def sample_lock_def path_join_def has_name_def is_ascii_def)
qed

end
