(* ===== verification/Conformance.thy ===== *)
theory Conformance
  imports Setups
begin

text \<open>
  The unit tests of \<open>table.rs\<close>, \<open>uri.rs\<close>, \<open>config/value.rs\<close> and \<open>config/mod.rs\<close> as programs over the
  model, in the style of theory Scenarios: an assertion, an unwrap or a refusal that is expected is a
  step that fails with \<open>None\<close>.  They pass for every behaviour of the \<open>percent-encoding\<close> and
  \<open>human-units\<close> crates that agrees with their documentation on the texts the tests use.
\<close>

section \<open>What the tests share\<close>

text \<open>\<open>unwrap\<close> and \<open>is_err\<close> of a result.\<close>

fun unwrapped :: "'a parsed outcome \<Rightarrow> 'a option" where
  "unwrapped (Ret (Inr a)) = Some a"
| "unwrapped _ = None"

definition rejected :: "('e + 'a) outcome \<Rightarrow> bool" where
  "rejected r \<longleftrightarrow> (case r of Ret (Inl _) \<Rightarrow> True | _ \<Rightarrow> False)"

lemma rejected_simps [simp]: "rejected (Ret (Inl e))" "\<not> rejected (Ret (Inr a))" "\<not> rejected Panic"
  by (simp_all add: rejected_def)

section \<open>table.rs\<close>

definition matches_full_path_globs :: "unit option" where
  "matches_full_path_globs = do {
     assert_that (glob_matches ''root/**/*.parquet'' ''root/a.parquet'');
     assert_that (glob_matches ''root/**/*.parquet'' ''root/part=1/data.parquet'');
     assert_that (glob_matches ''root/part=[0-2]/*.parquet'' ''root/part=1/a.parquet'');
     assert_that (\<not> glob_matches ''root/*.parquet'' ''root/nested/a.parquet'');
     assert_that (\<not> glob_matches ''root/part=[0-2]/*.parquet'' ''root/part=9/a.parquet'')
   }"

definition accepts_zero_content_length_hint :: "unit option" where
  "accepts_zero_content_length_hint = do {
     options \<leftarrow> unwrapped (Ret (copy_options \<lparr>cp_if_not_exists = 0, cp_if_match = None, cp_source_version = None,
        cp_hint = 0, cp_has_hint = 1, cp_concurrent = 0, cp_has_concurrent = 0,
        cp_chunk_size = 0, cp_has_chunk_size = 0\<rparr>));
     assert_that (co_hint options = Some 0)
   }"

section \<open>uri.rs\<close>

text \<open>\<open>parsed\<close>: the parts of a URL, which must resolve.\<close>

fun parsed_url :: "percent_env \<Rightarrow> string list \<Rightarrow> string \<Rightarrow> (string \<times> string \<times> string) option" where
  "parsed_url P registry url = (case resolve P registry (Some url) of Ret (Inr parts) \<Rightarrow> Some parts | _ \<Rightarrow> None)"

definition resolves_universal_url_shape :: "percent_env \<Rightarrow> string list \<Rightarrow> unit option" where
  "resolves_universal_url_shape P registry = do {
     parts \<leftarrow> parsed_url P registry ''S3://bucket/a//b%20c/'';
     assert_that (parts = (''s3'', ''bucket'', ''a//b c/''));
     parts \<leftarrow> parsed_url P registry ''memory:///registry/path'';
     assert_that (parts = (''memory'', '''', ''registry/path''))
   }"

definition rejects_ambiguous_url_features :: "percent_env \<Rightarrow> string list \<Rightarrow> unit option" where
  "rejects_ambiguous_url_features P registry =
     assert_that (list_all (\<lambda>url. rejected (resolve P registry (Some url)))
       [''s3://bucket/key?version=1'', ''s3://bucket/key#fragment'', ''s3://user@bucket/key'', ''s3://bucket/a%2Fb''])"

section \<open>config/value.rs\<close>

definition seconds :: "nat \<Rightarrow> duration" where
  "seconds n = n * 10 ^ 9"

definition milliseconds :: "nat \<Rightarrow> duration" where
  "milliseconds n = n * 10 ^ 6"

definition parses_raw_and_human_units :: "text_env \<Rightarrow> unit option" where
  "parses_raw_and_human_units te = do {
     b \<leftarrow> unwrapped (byte_size_parse te ''io'' ''chunk_size'' ''1048576'');
     assert_that (size_get b = 1048576);
     b \<leftarrow> unwrapped (byte_size_parse te ''io'' ''chunk_size'' ''1 MiB'');
     assert_that (size_get b = 1048576);
     b \<leftarrow> unwrapped (byte_size_parse te ''io'' ''chunk_size'' ''256 KiB'');
     assert_that (size_get b = 262144);
     b \<leftarrow> unwrapped (byte_size_parse te ''io'' ''chunk_size'' ''1 MB'');
     assert_that (size_get b = 1000000);
     b \<leftarrow> unwrapped (byte_size_parse te ''io'' ''chunk_size'' ''8 Mb'');
     assert_that (size_get b = 1000000);
     b \<leftarrow> unwrapped (byte_size_parse te ''io'' ''chunk_size'' ''8 Mib'');
     assert_that (size_get b = 1048576);
     assert_that (rejected (byte_size_parse te ''io'' ''chunk_size'' ''1 b''));
     d \<leftarrow> unwrapped (Ret (duration_parse te ''timeout'' ''io_timeout'' ''15''));
     assert_that (duration_get d = seconds 15);
     d \<leftarrow> unwrapped (Ret (duration_parse te ''timeout'' ''io_timeout'' ''500ms''));
     assert_that (duration_get d = milliseconds 500);
     d \<leftarrow> unwrapped (Ret (duration_parse te ''timeout'' ''operation_timeout'' ''2m''));
     assert_that (duration_get d = seconds 120)
   }"

section \<open>config/mod.rs\<close>

definition parses_sections_into_typed_config :: "text_env \<Rightarrow> unit option" where
  "parses_sections_into_typed_config te = do {
     config \<leftarrow> unwrapped (config_parse te
       [(''io.read.concurrent'', ''2''), (''io.read.chunk_size'', ''8 MiB''), (''retry.min_delay'', ''100ms''),
        (''retry.max_delay'', ''10s''), (''timeout.operation_timeout'', ''1m''), (''cache.memory_size'', ''256 MiB'')]
       (Some ''namespace''));
     assert_that (concurrent (io_read (oc_io config)) = Some 2);
     assert_that (read_chunk (oc_io config) = Some (8 * 1024 * 1024));
     assert_that (oc_retry config \<noteq> None);
     assert_that (oc_timeout config \<noteq> None);
     assert_that (oc_cache config \<noteq> None)
   }"

definition rejects_unknown_and_old_keys :: "text_env \<Rightarrow> unit option" where
  "rejects_unknown_and_old_keys te =
     assert_that (list_all (\<lambda>name. rejected (config_parse te [(name, ''1'')] None))
       [''cache.shradz'', ''cache.memory_mb'', ''timeout.seconds'', ''retry.min_delay_ms''])"

fun each_zero_refused :: "text_env \<Rightarrow> string list \<Rightarrow> unit option" where
  "each_zero_refused te [] = Some ()"
| "each_zero_refused te (name # names) =
     (case config_parse te [(''timeout.'' @ name, ''0s'')] None of
        Ret (Inl error) \<Rightarrow> do { assert_that (contains_str ''duration must be positive'' error); each_zero_refused te names }
      | _ \<Rightarrow> None)"

definition rejects_zero_timeouts :: "text_env \<Rightarrow> unit option" where
  "rejects_zero_timeouts te = each_zero_refused te [''operation_timeout'', ''io_timeout'']"

section \<open>They pass\<close>

lemma glob_tests: "matches_full_path_globs = Some ()"
proof -
  have "glob_matches ''root/**/*.parquet'' ''root/a.parquet''"
    by (simp add: glob_matches_gmatch gmatch_def tokenize.simps)
  moreover have "glob_matches ''root/**/*.parquet'' ''root/part=1/data.parquet''"
    by (simp add: glob_matches_gmatch gmatch_def tokenize.simps)
  moreover have "\<not> glob_matches ''root/*.parquet'' ''root/nested/a.parquet''"
    by (simp add: glob_matches_gmatch gmatch_def tokenize.simps)
  moreover have "glob_matches ''root/part=[0-2]/*.parquet'' ''root/part=1/a.parquet''"
    by (simp add: glob_matches_gmatch gmatch_def tokenize.simps class_matches_def class_negated_def less_eq_char_def)
  moreover have "\<not> glob_matches ''root/part=[0-2]/*.parquet'' ''root/part=9/a.parquet''"
    by (simp add: glob_matches_gmatch gmatch_def tokenize.simps class_matches_def class_negated_def less_eq_char_def)
  ultimately show ?thesis unfolding matches_full_path_globs_def by (simp only: assert_that_simps not_True_eq_False) simp
qed

lemma hint_test: "accepts_zero_content_length_hint = Some ()"
  by (simp add: accepts_zero_content_length_hint_def copy_options_def optional_cstr_def)

lemma some_chars:
  "char_of (115 :: nat) = CHR ''s''" "char_of (32 :: nat) = CHR '' ''" "char_of (47 :: nat) = CHR ''/''" "char_of (102 :: nat) = CHR ''f''"
  by (simp_all add: char_of_eq_iff)

context percent_codec
begin

lemma url_tests:
  assumes "{''s3'', ''memory''} \<subseteq> set registry"
  shows "resolves_universal_url_shape P registry = Some ()" "rejects_ambiguous_url_features P registry = Some ()"
  using assms
  by (simp_all add: resolves_universal_url_shape_def rejects_ambiguous_url_features_def resolve_def cstr_def is_ascii_def
      replace_byte_def split_once_str.simps ascii_lowercase_def to_lower_def less_eq_char_def decode_Nil decode_plain
      decode_pct pct_byte_def hex_value_def cstring_new_def Let_def some_chars)

end

text \<open>What the tests rely on of \<open>human-units\<close>: binary sizes and durations parse, other units do not.\<close>

definition human_units :: "text_env \<Rightarrow> bool" where
  "human_units te \<longleftrightarrow>
     parse_iec te ''1 MiB'' = Some (2 ^ 20) \<and> parse_iec te ''256 KiB'' = Some (2 ^ 18) \<and> parse_iec te ''8 MiB'' = Some (2 ^ 23)
   \<and> parse_iec te ''256 MiB'' = Some (2 ^ 28) \<and> parse_iec te ''1 GiB'' = Some (2 ^ 30) \<and> parse_iec te ''4 MiB'' = Some (2 ^ 22)
   \<and> parse_iec te ''1 MB'' = None \<and> parse_iec te ''8 Mb'' = None \<and> parse_iec te ''8 Mib'' = None \<and> parse_iec te ''1 b'' = None
   \<and> parse_duration te ''15'' = Some (seconds 15) \<and> parse_duration te ''500ms'' = Some (milliseconds 500)
   \<and> parse_duration te ''2m'' = Some (seconds 120) \<and> parse_duration te ''100ms'' = Some (milliseconds 100)
   \<and> parse_duration te ''10s'' = Some (seconds 10) \<and> parse_duration te ''1m'' = Some (seconds 60)
   \<and> parse_duration te ''0s'' = Some 0"

lemma unit_sizes:
  assumes "human_units te"
  shows "byte_size_parse te sec k ''1 MiB'' = Ret (Inr (ByteSize (2 ^ 20)))"
    "byte_size_parse te sec k ''256 KiB'' = Ret (Inr (ByteSize (2 ^ 18)))"
    "byte_size_parse te sec k ''8 MiB'' = Ret (Inr (ByteSize (2 ^ 23)))"
    "byte_size_parse te sec k ''256 MiB'' = Ret (Inr (ByteSize (2 ^ 28)))"
    "byte_size_parse te sec k ''1 GiB'' = Ret (Inr (ByteSize (2 ^ 30)))"
    "byte_size_parse te sec k ''4 MiB'' = Ret (Inr (ByteSize (2 ^ 22)))"
    "byte_size_parse te sec k ''0'' = Ret (Inr (ByteSize 0))"
  using assms
  by (simp_all add: human_units_def byte_size_parse_def parse_bytes_def str_chars_ascii is_ascii_def trim_chars_def
      is_whitespace_def parse_u64_def is_digit_def digit_value_def Let_def)

lemma other_units:
  assumes "human_units te"
  shows "byte_size_parse te sec k ''1048576'' = Ret (Inr (ByteSize 1048576))"
    "byte_size_parse te sec k ''1 MB'' = Ret (Inr (ByteSize 1000000))"
    "byte_size_parse te sec k ''8 Mb'' = Ret (Inr (ByteSize 1000000))"
    "byte_size_parse te sec k ''8 Mib'' = Ret (Inr (ByteSize 1048576))"
    "rejected (byte_size_parse te sec k ''1 b'')"
  using assms
  by (simp_all add: human_units_def byte_size_parse_def parse_bytes_def str_chars_ascii is_ascii_def trim_chars_def
      is_whitespace_def parse_u64_def parse_suffixed_def char_is_numeric_def size_unit_def checked_mul_def
      is_digit_def digit_value_def Let_def)

lemma unit_durations:
  assumes "human_units te"
  shows "duration_parse te sec k ''15'' = Inr (HumanDuration (seconds 15))"
    "duration_parse te sec k ''500ms'' = Inr (HumanDuration (milliseconds 500))"
    "duration_parse te sec k ''2m'' = Inr (HumanDuration (seconds 120))"
    "duration_parse te sec k ''100ms'' = Inr (HumanDuration (milliseconds 100))"
    "duration_parse te sec k ''10s'' = Inr (HumanDuration (seconds 10))"
    "duration_parse te sec k ''1m'' = Inr (HumanDuration (seconds 60))"
    "duration_parse te sec k ''0s'' = Inr (HumanDuration 0)"
  using assms by (simp_all add: human_units_def duration_parse_def)

lemma units_test: "human_units te \<Longrightarrow> parses_raw_and_human_units te = Some ()"
  by (simp add: parses_raw_and_human_units_def unit_sizes other_units unit_durations)

lemma unit_cache_default:
  "human_units te \<Longrightarrow> cache_default te = Ret (Inr \<lparr>memory_size = ByteSize (2 ^ 28), disk_path = None, disk_size = ByteSize (2 ^ 30),
     block_size = ByteSize (2 ^ 22), min_file_size = ByteSize 0, max_file_size = None, shards = 4\<rparr>)"
  by (simp add: cache_default_def unit_sizes)

lemmas section_parsers = config_parse_def known_section_def section_insert_def section_of_def io_parse_def io_option_def
  retry_parse_def retry_option_def timeout_parse_def timeout_option_def cache_parse_def cache_option_def cache_check_def

lemma sections_test:
  assumes "human_units te"
  shows "parses_sections_into_typed_config te = Some ()"
  by (simp add: parses_sections_into_typed_config_def section_parsers unit_sizes [OF assms] unit_durations [OF assms]
      unit_cache_default [OF assms] positive_usize_def parse_u64_def is_digit_def digit_value_def default_retry_def
      duration_is_zero_def seconds_def milliseconds_def less_human_duration_def read_chunk_def default_io_def)

lemma old_keys_test: "human_units te \<Longrightarrow> rejects_unknown_and_old_keys te = Some ()"
  by (cases "duration_parse te ''timeout'' ''seconds'' ''1''"; cases "duration_parse te ''retry'' ''min_delay_ms'' ''1''")
    (simp_all add: rejects_unknown_and_old_keys_def section_parsers unit_cache_default)

lemma zero_timeouts_test: "human_units te \<Longrightarrow> rejects_zero_timeouts te = Some ()"
  by (simp add: rejects_zero_timeouts_def section_parsers unit_durations duration_is_zero_def invalid_def quoted_def)

section \<open>Properties\<close>

definition sample_units :: text_env where
  "sample_units = \<lparr>uni_numeric = \<lambda>_. False,
     parse_iec = map_of [(''1 MiB'', 2 ^ 20), (''256 KiB'', 2 ^ 18), (''8 MiB'', 2 ^ 23), (''256 MiB'', 2 ^ 28),
       (''1 GiB'', 2 ^ 30), (''4 MiB'', 2 ^ 22)],
     parse_duration = map_of [(''15'', seconds 15), (''500ms'', milliseconds 500), (''2m'', seconds 120),
       (''100ms'', milliseconds 100), (''10s'', seconds 10), (''1m'', seconds 60), (''0s'', 0)]\<rparr>"

lemma sample_units_ok: "human_units sample_units"
  by (simp add: human_units_def sample_units_def)



end
