(* ===== verification/Interleave.thy ===== *)
theory Interleave
  imports Files
begin

text \<open>
  Writers that share a service.  DuckDB runs several threads at once, each with writers of its own, and
  the calls the entry points make reach the service in any order.  A schedule is that order: the entry
  points of the threads' writers, one thread at a time, and between them calls made by anyone else.
  Whatever the order, and whatever fails, a thread whose own calls were all acknowledged has its file.
\<close>

section \<open>Schedules\<close>

text \<open>What each thread writes to: an operator and a path.\<close>

type_synonym jobs = "nat \<Rightarrow> od_operator \<times> string"

definition target :: "jobs \<Rightarrow> nat \<Rightarrow> nat \<times> string" where
  "target J i = (service (od_op (fst (J i))), snd (J i))"

datatype event = Opening nat | Calling nat writer_op | Elsewhere call

text \<open>The writers the threads hold, and what a thread was answered: \<open>None\<close> stands for the opening.\<close>

type_synonym crew = "nat \<Rightarrow> od_writer option"

type_synonym answers = "(nat \<times> writer_op option \<times> int) list"

definition as_ptr :: "nat \<Rightarrow> od_writer option \<Rightarrow> od_writer ptr" where
  "as_ptr i q = (case q of None \<Rightarrow> Null | Some w \<Rightarrow> Ptr i w)"

fun pointed :: "od_writer ptr \<Rightarrow> od_writer option" where
  "pointed Null = None"
| "pointed (Ptr _ w) = Some w"

fun turn :: "env \<Rightarrow> jobs \<Rightarrow> crew \<times> history \<Rightarrow> event \<Rightarrow> answers \<times> crew \<times> history" where
  "turn E J (W, h) (Opening i) =
     (let (q, _, h') = od_writer_open E (Ptr i (fst (J i))) (Some (snd (J i))) None h
      in ([(i, None, if q = None then - 1 else 0)], W(i := q), h'))"
| "turn E J (W, h) (Calling i c) =
     (let (r, q, h') = writer_call E (as_ptr i (W i), h) c in ([(i, Some c, r)], W(i := pointed q), h'))"
| "turn E J (W, h) (Elsewhere c) = ([], W, h @ [c])"

fun turns :: "env \<Rightarrow> jobs \<Rightarrow> crew \<times> history \<Rightarrow> event list \<Rightarrow> answers \<times> crew \<times> history" where
  "turns E J s [] = ([], s)"
| "turns E J s (e # es) = (let (t, s1) = turn E J s e; (ts, s2) = turns E J s1 es in (t @ ts, s2))"

text \<open>The threads a schedule runs, and that its other calls touch only given paths.\<close>

fun event_of :: "event \<Rightarrow> nat set" where
  "event_of (Opening i) = {i}"
| "event_of (Calling i _) = {i}"
| "event_of (Elsewhere _) = {}"

fun stays_in :: "env \<Rightarrow> jobs \<Rightarrow> (nat \<times> string) set \<Rightarrow> crew \<times> history \<Rightarrow> event list \<Rightarrow> bool" where
  "stays_in E J S s [] \<longleftrightarrow> True"
| "stays_in E J S s (e # es) \<longleftrightarrow>
     (case e of Elsewhere c \<Rightarrow> touched E (snd s) c \<subseteq> S | _ \<Rightarrow> True) \<and> stays_in E J S (snd (turn E J s e)) es"

text \<open>A thread's own answers, and those of a whole file: the opening, the writes and the close.\<close>

definition own :: "nat \<Rightarrow> answers \<Rightarrow> (writer_op option \<times> int) list" where
  "own i ts = map snd (filter (\<lambda>t. fst t = i) ts)"

definition streamed_ok :: "bytes list \<Rightarrow> (writer_op option \<times> int) list" where
  "streamed_ok bufs = (None, 0) # map (\<lambda>d. (Some (WriteOp d), 0)) bufs"

lemma own_append [simp]: "own i (ts @ us) = own i ts @ own i us"
  by (simp add: own_def)

lemma own_simps [simp]: "own i [] = []" "own i [(j, x)] = (if j = i then [x] else [])"
  by (simp_all add: own_def)

lemma turns_snoc:
  "turns E J s (es @ [e]) = (let (ts, s1) = turns E J s es; (t, s2) = turn E J s1 e in (ts @ t, s2))"
  by (induction es arbitrary: s) (auto split: prod.splits)

lemma stays_in_snoc:
  "stays_in E J S s (es @ [e]) \<longleftrightarrow> stays_in E J S s es
     \<and> (case e of Elsewhere c \<Rightarrow> touched E (snd (snd (turns E J s es))) c \<subseteq> S | _ \<Rightarrow> True)"
  by (induction es arbitrary: s) (auto split: prod.splits event.splits)

section \<open>Calls that leave a path alone\<close>

definition leaves_alone :: "env \<Rightarrow> nat \<times> string \<Rightarrow> history \<Rightarrow> history \<Rightarrow> bool" where
  "leaves_alone E k h cs \<longleftrightarrow> (\<forall>g c g'. cs = g @ c # g' \<longrightarrow> k \<notin> touched E (h @ g) c)"

lemma leaves_alone_Nil [simp]: "leaves_alone E k h []"
  by (simp add: leaves_alone_def)

lemma leaves_alone_Cons:
  "leaves_alone E k h (c # cs) \<longleftrightarrow> k \<notin> touched E h c \<and> leaves_alone E k (h @ [c]) cs"
  by (auto simp: leaves_alone_def Cons_eq_append_conv)

lemma stable_run:
  assumes "\<And>h c. P h \<Longrightarrow> k \<notin> touched E h c \<Longrightarrow> P (h @ [c])"
  shows "P h \<Longrightarrow> leaves_alone E k h cs \<Longrightarrow> P (h @ cs)"
proof (induction cs arbitrary: h)
  case (Cons c cs)
  then have "P (h @ [c])" "leaves_alone E k (h @ [c]) cs" by (simp_all add: leaves_alone_Cons assms)
  from Cons.IH [OF this] show ?case by simp
qed simp

lemma streaming_keeps:
  assumes "object_store E V" "streaming E w k b h" "k \<notin> touched E h c"
  shows "streaming E w k b (h @ [c])"
proof -
  from assms(2) have w: "key E h (wr_handle w) = Some k" "pending E h (wr_handle w) = Some b" "wr_state w = WOpen"
    by (simp_all add: streaming_def)
  note g = known_not_given [OF assms(1) w(1), of c]
  have "pending E (h @ [c]) (wr_handle w) = Some b"
    using assms(3) w g by (cases c) (auto simp: pending_snoc)
  with w g show ?thesis by (simp add: streaming_def key_snoc)
qed

lemma file_keeps:
  "object_store E V \<Longrightarrow> V h s p = Some x \<Longrightarrow> (s, p) \<notin> touched E h c \<Longrightarrow> V (h @ [c]) s p = Some x"
  by (rule unchanged_keeps [OF store_frame])

section \<open>The calls a turn makes\<close>

definition writer_calls :: "nat \<Rightarrow> call set" where
  "writer_calls n = {c. (\<exists>d. c = Write n d) \<or> c = CloseWriter n \<or> c = AbortWriter n}"

lemma writer_calls_touch: "c \<in> writer_calls n \<Longrightarrow> touched E h c = set_option (key E h n)"
  by (auto simp: writer_calls_def)

lemma fail_writer_calls:
  assumes "fail_writer E a w e err h = (r, e', q, h')"
  shows "\<exists>w'. q = Ptr a w' \<and> wr_handle w' = wr_handle w \<and> h' = h @ [AbortWriter (wr_handle w)]"
  using assms by (auto simp: fail_writer_def abort_after_failure_def invoke_def split: reply.splits)

lemma writer_call_calls:
  assumes "writer_call E (Ptr a w, h) c = (r, q, h')"
  shows "\<exists>w' cs. q = Ptr a w' \<and> wr_handle w' = wr_handle w \<and> h' = h @ cs \<and> set cs \<subseteq> writer_calls (wr_handle w)"
proof (cases c)
  case (WriteOp d)
  with assms show ?thesis
    by (auto simp: od_writer_write_def od_writer_write_body_def ffi_guard_def invoke_def writer_calls_def
        split: if_splits sum.splits reply.splits prod.splits outcome.splits dest!: fail_writer_calls)
next
  case CloseOp
  with assms show ?thesis
    by (auto simp: od_writer_close_def od_writer_close_body_def ffi_guard_def invoke_def writer_calls_def
        split: if_splits sum.splits reply.splits prod.splits outcome.splits dest!: fail_writer_calls)
next
  case AbortOp
  with assms show ?thesis
    by (auto simp: od_writer_abort_def od_writer_abort_body_def ffi_guard_def invoke_def writer_calls_def
        split: if_splits sum.splits reply.splits prod.splits outcome.splits dest!: fail_writer_calls)
qed

lemma null_writer_call: "writer_call E (Null, h) c = (r, q, h') \<Longrightarrow> r = - 1 \<and> q = Null \<and> h' = h"
  by (cases c)
    (auto simp: od_writer_write_def od_writer_write_body_def od_writer_close_def od_writer_close_body_def
      od_writer_abort_def od_writer_abort_body_def ffi_guard_def)

lemma writer_open_calls:
  assumes "od_writer_open E (Ptr a op) (Some path) err h = (q, e, h')"
  shows "\<exists>cs. h' = h @ cs \<and> (\<forall>k. k \<noteq> (service (od_op op), path) \<longrightarrow> leaves_alone E k h cs)"
  using assms
  by (auto simp: od_writer_open_def od_writer_open_body_def ffi_guard_def check_guard_def decode_or_leave_def
      await_or_leave_def invoke_def cstr_def leaves_alone_Cons split: sum.splits if_splits reply.splits)

lemma key_run: "object_store E V \<Longrightarrow> key E h n = Some k \<Longrightarrow> key E (h @ cs) n = Some k"
proof (induction cs arbitrary: h)
  case (Cons c cs)
  from Cons.IH [OF Cons.prems(1) key_kept [OF Cons.prems]] show ?case by simp
qed simp

lemma writer_calls_leave_alone:
  assumes "object_store E V" "key E h n = Some k'" "k \<noteq> k'" "set cs \<subseteq> writer_calls n"
  shows "leaves_alone E k h cs"
  using assms key_run [OF assms(1,2)] by (auto simp: leaves_alone_def writer_calls_touch)

lemma frame_run:
  assumes "object_store E V"
  shows "(\<And>k. k \<notin> S \<Longrightarrow> leaves_alone E k h cs) \<Longrightarrow> unchanged_but S (V h) (V (h @ cs))"
proof (induction cs arbitrary: h)
  case (Cons c cs)
  from Cons.prems have "touched E h c \<subseteq> S" "\<And>k. k \<notin> S \<Longrightarrow> leaves_alone E k (h @ [c]) cs"
    by (auto simp: leaves_alone_Cons)
  from unchanged_trans [OF unchanged_mono [OF store_frame [OF assms] this(1)] Cons.IH [OF this(2)]] show ?case by simp
qed simp

text \<open>Every writer a thread holds is open on the thread's target.\<close>

definition crew_keys :: "env \<Rightarrow> jobs \<Rightarrow> crew \<Rightarrow> history \<Rightarrow> bool" where
  "crew_keys E J W h \<longleftrightarrow> (\<forall>i w. W i = Some w \<longrightarrow> key E h (wr_handle w) = Some (target J i))"

fun reach_of :: "env \<Rightarrow> jobs \<Rightarrow> history \<Rightarrow> event \<Rightarrow> (nat \<times> string) set" where
  "reach_of E J h (Opening i) = {target J i}"
| "reach_of E J h (Calling i _) = {target J i}"
| "reach_of E J h (Elsewhere c) = touched E h c"

lemma turn_extends:
  assumes "object_store E V" "crew_keys E J W h" "turn E J (W, h) e = (t, W', h')"
  shows "\<exists>cs. h' = h @ cs \<and> (\<forall>k. k \<notin> reach_of E J h e \<longrightarrow> leaves_alone E k h cs)
    \<and> (\<forall>i. i \<notin> event_of e \<longrightarrow> W' i = W i \<and> own i t = [])"
proof (cases e)
  case (Opening i)
  with assms(3) show ?thesis
    by (auto simp: target_def split: prod.splits dest!: writer_open_calls)
next
  case (Calling i c)
  show ?thesis
  proof (cases "W i")
    case None
    with assms(3) Calling show ?thesis
      by (auto simp: as_ptr_def split: prod.splits dest!: null_writer_call)
  next
    case (Some w)
    obtain r q h1 where c: "writer_call E (Ptr i w, h) c = (r, q, h1)" by (metis surj_pair)
    from writer_call_calls [OF this] obtain cs where cs: "h1 = h @ cs" "set cs \<subseteq> writer_calls (wr_handle w)" by blast
    from assms(2) Some have "key E h (wr_handle w) = Some (target J i)" by (simp add: crew_keys_def)
    from writer_calls_leave_alone [OF assms(1) this _ cs(2)] assms(3) Calling Some c cs(1) show ?thesis
      by (auto simp: as_ptr_def)
  qed
next
  case (Elsewhere c)
  with assms(3) show ?thesis by (auto simp: leaves_alone_Cons)
qed

lemma turn_keys:
  assumes "object_store E V" "crew_keys E J W h" "turn E J (W, h) e = (t, W', h')"
  shows "crew_keys E J W' h'"
proof -
  from turn_extends [OF assms] obtain cs where h': "h' = h @ cs" and W': "\<And>i. i \<notin> event_of e \<Longrightarrow> W' i = W i" by blast
  have "key E h' (wr_handle w) = Some (target J i)" if "W' i = Some w" for i w
  proof (cases "i \<in> event_of e")
    case False
    with that W' assms(2) h' key_run [OF assms(1)] show ?thesis by (simp add: crew_keys_def)
  next
    case True
    then consider "e = Opening i" | c where "e = Calling i c" by (cases e) auto
    then show ?thesis
    proof cases
      case 1
      with assms(3) that show ?thesis
        by (auto simp: target_def streaming_def split: prod.splits dest!: writer_open_streaming [OF assms(1)])
    next
      case (2 c)
      show ?thesis
      proof (cases "W i")
        case None
        with 2 assms(3) that show ?thesis by (auto simp: as_ptr_def split: prod.splits dest!: null_writer_call)
      next
        case (Some v)
        with 2 assms(3) that writer_call_calls [of E i v h c] have "wr_handle w = wr_handle v"
          by (fastforce simp: as_ptr_def split: prod.splits)
        with Some assms(2) h' key_run [OF assms(1)] show ?thesis by (simp add: crew_keys_def)
      qed
    qed
  qed
  then show ?thesis by (simp add: crew_keys_def)
qed

section \<open>A thread's progress\<close>

definition done_ok :: "bytes list \<Rightarrow> (writer_op option \<times> int) list" where
  "done_ok bufs = streamed_ok bufs @ [(Some CloseOp, 0)]"

definition on_course :: "env \<Rightarrow> view \<Rightarrow> jobs \<Rightarrow> nat \<Rightarrow> (writer_op option \<times> int) list \<Rightarrow> crew \<Rightarrow> history \<Rightarrow> bool" where
  "on_course E V J i t W h \<longleftrightarrow> (\<forall>bufs. list_all (\<lambda>d. length d < 2 ^ 63) bufs \<longrightarrow>
      (t = streamed_ok bufs \<longrightarrow> (\<exists>w. W i = Some w \<and> streaming E w (target J i) (concat bufs) h))
    \<and> (t = done_ok bufs \<longrightarrow> V h (fst (target J i)) (snd (target J i)) = Some (FileNode (concat bufs))))"

lemma streamed_ok_snoc: "streamed_ok (bufs @ [d]) = streamed_ok bufs @ [(Some (WriteOp d), 0)]"
  by (simp add: streamed_ok_def)

lemma streamed_ok_neq_Nil [simp]: "streamed_ok bufs \<noteq> []" "[] \<noteq> streamed_ok bufs" "done_ok bufs \<noteq> []" "[] \<noteq> done_ok bufs"
  by (simp_all add: streamed_ok_def done_ok_def)

lemma snoc_streamed_ok:
  "ts @ [a] = streamed_ok bufs \<Longrightarrow> ts = [] \<and> bufs = [] \<and> a = (None, 0)
    \<or> (\<exists>bs d. bufs = bs @ [d] \<and> ts = streamed_ok bs \<and> a = (Some (WriteOp d), 0))"
  by (cases bufs rule: rev_cases) (auto simp: streamed_ok_snoc, auto simp: streamed_ok_def append_eq_Cons_conv)

lemma snoc_done_ok: "ts @ [a] = done_ok bufs \<longleftrightarrow> ts = streamed_ok bufs \<and> a = (Some CloseOp, 0)"
  by (simp add: done_ok_def)

text \<open>Turns of others, and calls elsewhere, keep a thread on course; so do its own acknowledged calls.\<close>

lemma on_course_other:
  assumes "object_store E V" "on_course E V J i t W h" "W' i = W i" "leaves_alone E (target J i) h cs"
  shows "on_course E V J i t W' (h @ cs)"
proof -
  have "streaming E w (target J i) b h \<Longrightarrow> streaming E w (target J i) b (h @ cs)" for w b
    by (rule stable_run [of "streaming E w (target J i) b", OF streaming_keeps [OF assms(1)] _ assms(4)])
  moreover have "V h (fst (target J i)) (snd (target J i)) = Some x \<Longrightarrow>
      V (h @ cs) (fst (target J i)) (snd (target J i)) = Some x" for x
    by (rule stable_run [of "\<lambda>h. V h (fst (target J i)) (snd (target J i)) = Some x", OF _ _ assms(4)])
      (simp_all add: file_keeps [OF assms(1)])
  ultimately show ?thesis using assms(2,3) unfolding on_course_def by metis
qed

lemma on_course_opening:
  assumes "object_store E V" "od_writer_open E (Ptr i (fst (J i))) (Some (snd (J i))) None h = (q, e, h')"
  shows "on_course E V J i (t @ [(None, if q = None then - 1 else 0)]) (W(i := q)) h'"
proof -
  have "\<exists>w. q = Some w \<and> streaming E w (target J i) (concat bufs) h'"
    if "t @ [(None, if q = None then - 1 else 0)] = streamed_ok bufs" for bufs
    using snoc_streamed_ok [OF that] assms(2) writer_open_streaming [OF assms(1), of i "fst (J i)" "snd (J i)" None h]
    by (auto simp: target_def split: if_splits)
  then show ?thesis by (auto simp: on_course_def snoc_done_ok)
qed

lemma on_course_calling:
  assumes "object_store E V" "on_course E V J i t W h" "writer_call E (as_ptr i (W i), h) c = (r, q, h')"
  shows "on_course E V J i (t @ [(Some c, r)]) (W(i := pointed q)) h'"
proof -
  have "\<exists>w. pointed q = Some w \<and> streaming E w (target J i) (concat bufs) h'"
    if t: "t @ [(Some c, r)] = streamed_ok bufs" and fit: "list_all (\<lambda>d. length d < 2 ^ 63) bufs" for bufs
  proof -
    from snoc_streamed_ok [OF t] obtain bs d where b: "bufs = bs @ [d]" "t = streamed_ok bs" "c = WriteOp d" "r = 0" by auto
    with assms(2) fit obtain w where w: "W i = Some w" "streaming E w (target J i) (concat bs) h" by (auto simp: on_course_def)
    with assms(3) b obtain e where "od_writer_write E (Ptr i w) (Some d) (of_nat (length d)) None h = (0, e, q, h')"
      by (auto simp: as_ptr_def split: prod.splits)
    from write_streams [OF assms(1) w(2) _ this] fit b show ?thesis by simp
  qed
  moreover have "V h' (fst (target J i)) (snd (target J i)) = Some (FileNode (concat bufs))"
    if t: "t @ [(Some c, r)] = done_ok bufs" and fit: "list_all (\<lambda>d. length d < 2 ^ 63) bufs" for bufs
  proof -
    from t have b: "t = streamed_ok bufs" "c = CloseOp" "r = 0" by (simp_all add: snoc_done_ok)
    with assms(2) fit obtain w where w: "W i = Some w" "streaming E w (target J i) (concat bufs) h" by (auto simp: on_course_def)
    with assms(3) b obtain e where "od_writer_close E (Ptr i w) None h = (0, e, q, h')"
      by (auto simp: as_ptr_def split: prod.splits)
    from close_publishes [OF assms(1) _ this] w(2) show ?thesis by (metis prod.collapse)
  qed
  ultimately show ?thesis by (simp add: on_course_def)
qed

lemma on_course_turn:
  assumes "object_store E V" "crew_keys E J W h" "on_course E V J i ts W h" "turn E J (W, h) e = (t, W', h')"
    and "i \<notin> event_of e \<Longrightarrow> target J i \<notin> reach_of E J h e"
  shows "on_course E V J i (ts @ own i t) W' h'"
proof (cases "i \<in> event_of e")
  case False
  from turn_extends [OF assms(1,2,4)] obtain cs where "h' = h @ cs" "leaves_alone E (target J i) h cs" "W' i = W i" "own i t = []"
    using False assms(5) by blast
  with on_course_other [OF assms(1,3)] show ?thesis by simp
next
  case True
  then consider "e = Opening i" | c where "e = Calling i c" by (cases e) auto
  then show ?thesis
  proof cases
    case 1
    with assms(4) on_course_opening [OF assms(1), of i J h] show ?thesis by (auto split: prod.splits)
  next
    case (2 c)
    with assms(4) on_course_calling [OF assms(1,3), of c] show ?thesis by (auto split: prod.splits)
  qed
qed

lemma turns_on_course:
  assumes "object_store E V" "inj_on (target J) I" "F \<inter> target J ` I = {}" "crew_keys E J W h"
    and "\<And>i. i \<in> I \<Longrightarrow> on_course E V J i [] W h"
  shows "(\<Union>e \<in> set es. event_of e) \<subseteq> I \<Longrightarrow> stays_in E J F (W, h) es \<Longrightarrow> turns E J (W, h) es = (ts, W', h') \<Longrightarrow>
    crew_keys E J W' h' \<and> (\<forall>i \<in> I. on_course E V J i (own i ts) W' h')
    \<and> unchanged_but (target J ` I \<union> F) (V h) (V h')"
proof (induction es arbitrary: ts W' h' rule: rev_induct)
  case Nil
  with assms(4,5) show ?case by simp
next
  case (snoc e es)
  obtain us W1 h1 where es: "turns E J (W, h) es = (us, W1, h1)" by (metis surj_pair)
  obtain t W2 h2 where e: "turn E J (W1, h1) e = (t, W2, h2)" by (metis surj_pair)
  with es snoc.prems(3) have ts: "ts = us @ t" "W' = W2" "h' = h2" by (simp_all add: turns_snoc)
  have before: "crew_keys E J W1 h1" "\<And>i. i \<in> I \<Longrightarrow> on_course E V J i (own i us) W1 h1"
    "unchanged_but (target J ` I \<union> F) (V h) (V h1)"
    using snoc.IH [OF _ _ es] snoc.prems(1,2) by (simp_all add: stays_in_snoc)
  have inI: "event_of e \<subseteq> I" using snoc.prems(1) by simp
  have stays: "\<And>c. e = Elsewhere c \<Longrightarrow> touched E h1 c \<subseteq> F"
    using snoc.prems(2) es by (simp add: stays_in_snoc)
  have reach: "reach_of E J h1 e \<subseteq> target J ` I \<union> F"
    using inI stays by (cases e) auto
  have "target J i \<notin> reach_of E J h1 e" if "i \<in> I" "i \<notin> event_of e" for i
    using that inI stays assms(2,3) by (cases e) (auto simp: inj_on_def)
  then have "\<forall>i \<in> I. on_course E V J i (own i ts) W' h'"
    using on_course_turn [OF assms(1) before(1) before(2) e] ts by simp
  moreover have "unchanged_but (target J ` I \<union> F) (V h1) (V h2)"
  proof -
    from turn_extends [OF assms(1) before(1) e] obtain cs where
      "h2 = h1 @ cs" "\<And>k. k \<notin> reach_of E J h1 e \<Longrightarrow> leaves_alone E k h1 cs" by blast
    with unchanged_mono [OF frame_run [OF assms(1)] reach] show ?thesis by simp
  qed
  ultimately show ?case
    using turn_keys [OF assms(1) before(1) e] unchanged_trans [OF before(3)] ts by simp
qed

section \<open>A store that answers\<close>

text \<open>A thread that writes a whole file, and its events in a schedule.\<close>

definition started :: "nat \<Rightarrow> bytes list \<Rightarrow> event list" where
  "started i bufs = Opening i # map (\<lambda>d. Calling i (WriteOp d)) bufs"

definition script :: "nat \<Rightarrow> bytes list \<Rightarrow> event list" where
  "script i bufs = started i bufs @ [Calling i CloseOp]"

definition part :: "nat \<Rightarrow> event list \<Rightarrow> event list" where
  "part i es = filter (\<lambda>e. i \<in> event_of e) es"

fun accepted :: "event \<Rightarrow> writer_op option \<times> int" where
  "accepted (Calling _ c) = (Some c, 0)"
| "accepted _ = (None, 0)"

lemma accepted_started: "map accepted (started i bufs) = streamed_ok bufs"
  by (simp add: started_def streamed_ok_def)

lemma accepted_script: "map accepted (script i bufs) = done_ok bufs"
  by (simp add: script_def accepted_started done_ok_def)

lemma part_snoc: "part i (es @ [e]) = part i es @ (if i \<in> event_of e then [e] else [])"
  by (simp add: part_def)

lemma prefix_script:
  assumes "prefix (x @ [e]) (script i bufs)"
  shows "x = [] \<and> e = Opening i \<or> (\<exists>bs d. x = started i bs \<and> e = Calling i (WriteOp d) \<and> prefix (bs @ [d]) bufs)
    \<or> x = started i bufs \<and> e = Calling i CloseOp"
proof -
  from assms obtain zs where z: "script i bufs = x @ e # zs" by (auto simp: prefix_def)
  show ?thesis
  proof (cases x)
    case Nil
    with z show ?thesis by (simp add: script_def started_def)
  next
    case (Cons a y)
    with z have a: "a = Opening i" "map (\<lambda>d. Calling i (WriteOp d)) bufs @ [Calling i CloseOp] = y @ e # zs"
      by (simp_all add: script_def started_def)
    show ?thesis
    proof (cases zs rule: rev_cases)
      case Nil
      with a Cons show ?thesis by (simp add: started_def)
    next
      case (snoc zs' c)
      with a have "map (\<lambda>d. Calling i (WriteOp d)) bufs = y @ e # zs'" by (metis append_Cons append_assoc butlast_snoc)
      with a(1) Cons show ?thesis
        by (fastforce simp: started_def map_eq_append_conv map_eq_Cons_conv)
    qed
  qed
qed

lemma turn_accepted:
  assumes "dependable E V" "cap_write (od_cap (fst (J i)))" "utf8_valid (snd (J i))"
    and "list_all (\<lambda>d. length d < 2 ^ 63) bufs" "on_course E V J i (map accepted x) W h"
    and "prefix (x @ [e]) (script i bufs)" "turn E J (W, h) e = (t, W', h')"
  shows "own i t = [accepted e]"
  using prefix_script [OF assms(6)]
proof (elim disjE conjE exE)
  assume "x = []" "e = Opening i"
  with writer_open_val [OF assms(1-3), of i None h] assms(7) show ?thesis by auto
next
  fix bs d assume e: "x = started i bs" "e = Calling i (WriteOp d)" "prefix (bs @ [d]) bufs"
  then have fit: "list_all (\<lambda>d. length d < 2 ^ 63) bs" "length d < 2 ^ 63" using assms(4) by (auto simp: prefix_def)
  with assms(5) e(1) obtain w where w: "W i = Some w" "streaming E w (target J i) (concat bs) h"
    by (auto simp: on_course_def accepted_started)
  from write_val [OF assms(1) w(2) fit(2), of i None] w(1) e(2) assms(7) show ?thesis by (auto simp: as_ptr_def)
next
  assume e: "x = started i bufs" "e = Calling i CloseOp"
  with assms(4,5) obtain w where w: "W i = Some w" "streaming E w (target J i) (concat bufs) h"
    by (auto simp: on_course_def accepted_started)
  from close_val [OF assms(1) w(2), of i None] w(1) e(2) assms(7) show ?thesis by (auto simp: as_ptr_def)
qed

lemma turns_accepted:
  assumes "dependable E V" "inj_on (target J) I" "F \<inter> target J ` I = {}" "crew_keys E J W h"
    and "\<And>i. i \<in> I \<Longrightarrow> on_course E V J i [] W h"
    and "\<And>i. i \<in> I \<Longrightarrow> cap_write (od_cap (fst (J i))) \<and> utf8_valid (snd (J i)) \<and> list_all (\<lambda>d. length d < 2 ^ 63) (bufs i)"
  shows "(\<Union>e \<in> set es. event_of e) \<subseteq> I \<Longrightarrow> stays_in E J F (W, h) es \<Longrightarrow> turns E J (W, h) es = (ts, W', h') \<Longrightarrow>
    (\<And>i. i \<in> I \<Longrightarrow> prefix (part i es) (script i (bufs i))) \<Longrightarrow> i \<in> I \<Longrightarrow> own i ts = map accepted (part i es)"
proof (induction es arbitrary: ts W' h' i rule: rev_induct)
  case Nil
  then show ?case by (simp add: part_def)
next
  case (snoc e es)
  note store = dependable_store [OF assms(1)]
  obtain us W1 h1 where es: "turns E J (W, h) es = (us, W1, h1)" by (metis surj_pair)
  obtain t W2 h2 where e: "turn E J (W1, h1) e = (t, W2, h2)" by (metis surj_pair)
  with es snoc.prems(3) have ts: "ts = us @ t" by (simp add: turns_snoc)
  have sub: "(\<Union>e \<in> set es. event_of e) \<subseteq> I" "stays_in E J F (W, h) es" using snoc.prems(1,2) by (simp_all add: stays_in_snoc)
  from turns_on_course [OF store assms(2-5) sub es] have now: "crew_keys E J W1 h1" "on_course E V J i (own i us) W1 h1"
    using snoc.prems(5) by simp_all
  have pre: "prefix (part j es) (script j (bufs j))" if "j \<in> I" for j
    using snoc.prems(4) [OF that] by (auto simp: part_snoc split: if_splits dest: append_prefixD)
  from snoc.IH [OF sub es pre snoc.prems(5)] have us: "own i us = map accepted (part i es)" .
  show ?case
  proof (cases "i \<in> event_of e")
    case False
    with turn_extends [OF store now(1) e] us ts show ?thesis by (auto simp: part_snoc)
  next
    case True
    with snoc.prems(4) [OF snoc.prems(5)] have "prefix (part i es @ [e]) (script i (bufs i))" by (simp add: part_snoc)
    from turn_accepted [OF assms(1) _ _ _ now(2) [unfolded us] this e] assms(6) [OF snoc.prems(5)] True us ts show ?thesis
      by (simp add: part_snoc)
  qed
qed

lemma turns_published:
  assumes "object_store E V" "inj_on (target J) I" "F \<inter> target J ` I = {}" "(\<Union>e \<in> set es. event_of e) \<subseteq> I"
    and "stays_in E J F (\<lambda>_. None, h) es" "turns E J (\<lambda>_. None, h) es = (ts, W', h')"
  shows "(\<forall>i \<in> I. \<forall>bufs. list_all (\<lambda>d. length d < 2 ^ 63) bufs \<and> own i ts = done_ok bufs
      \<longrightarrow> V h' (fst (target J i)) (snd (target J i)) = Some (FileNode (concat bufs)))
    \<and> unchanged_but (target J ` I \<union> F) (V h) (V h')"
proof -
  have "crew_keys E J (\<lambda>_. None) h" "\<And>i. on_course E V J i [] (\<lambda>_. None) h"
    by (simp_all add: crew_keys_def on_course_def)
  from turns_on_course [OF assms(1-3) this assms(4-6)] show ?thesis by (simp add: on_course_def)
qed

lemma turns_answered:
  assumes "dependable E V" "inj_on (target J) I" "F \<inter> target J ` I = {}" "(\<Union>e \<in> set es. event_of e) \<subseteq> I"
    and "stays_in E J F (\<lambda>_. None, h) es" "turns E J (\<lambda>_. None, h) es = (ts, W', h')"
    and "\<And>i. i \<in> I \<Longrightarrow> cap_write (od_cap (fst (J i))) \<and> utf8_valid (snd (J i)) \<and> list_all (\<lambda>d. length d < 2 ^ 63) (bufs i)"
    and "\<And>i. i \<in> I \<Longrightarrow> part i es = script i (bufs i)" "i \<in> I"
  shows "own i ts = done_ok (bufs i)"
proof -
  have "crew_keys E J (\<lambda>_. None) h" "\<And>i. on_course E V J i [] (\<lambda>_. None) h"
    by (simp_all add: crew_keys_def on_course_def)
  from turns_accepted [OF assms(1-3) this assms(7) assms(4-6) _ assms(9)] assms(8,9) show ?thesis
    by (simp add: accepted_script)
qed

text \<open>
  Readers are not disturbed either: while a schedule runs that leaves a path alone, a reader on a file
  there keeps delivering that file.
\<close>

lemma turns_extend:
  assumes "object_store E V" "crew_keys E J W h" "k \<notin> target J ` I \<union> F"
  shows "(\<Union>e \<in> set es. event_of e) \<subseteq> I \<Longrightarrow> stays_in E J F (W, h) es \<Longrightarrow> turns E J (W, h) es = (ts, W', h') \<Longrightarrow>
    crew_keys E J W' h' \<and> (\<forall>r f. steady E V r k f h \<longrightarrow> steady E V r k f h')"
proof (induction es arbitrary: ts W' h' rule: rev_induct)
  case Nil
  with assms(2) show ?case by simp
next
  case (snoc e es)
  obtain us W1 h1 where es: "turns E J (W, h) es = (us, W1, h1)" by (metis surj_pair)
  obtain t W2 h2 where e: "turn E J (W1, h1) e = (t, W2, h2)" by (metis surj_pair)
  with es snoc.prems(3) have last: "W' = W2" "h' = h2" by (simp_all add: turns_snoc)
  have before: "crew_keys E J W1 h1" "\<And>r f. steady E V r k f h \<Longrightarrow> steady E V r k f h1"
    using snoc.IH [OF _ _ es] snoc.prems(1,2) by (simp_all add: stays_in_snoc)
  have "k \<notin> reach_of E J h1 e"
    using snoc.prems(1,2) es assms(3) by (cases e) (auto simp: stays_in_snoc)
  with turn_extends [OF assms(1) before(1) e] obtain cs where cs: "h2 = h1 @ cs" "leaves_alone E k h1 cs" by blast
  have "steady E V r k f h1 \<Longrightarrow> steady E V r k f h2" for r f
    unfolding cs(1) by (rule stable_run [of "steady E V r k f", OF steady_keeps [OF assms(1)] _ cs(2)])
  with before(2) turn_keys [OF assms(1) before(1) e] show ?case by (simp add: last)
qed

lemma interleaved_read:
  assumes "object_store E V" "k \<notin> target J ` I \<union> F" "(\<Union>e \<in> set es. event_of e) \<subseteq> I"
    and "stays_in E J F (\<lambda>_. None, h) es" "turns E J (\<lambda>_. None, h) es = (ts, W', h')"
    and "steady E V r k f h" "od_reader_read E (Ptr a r) offset len True err h' = (n, e, out, h2)" "n \<noteq> - 1"
  shows "out = Some (take (unat len) (drop (unat offset) f))"
proof -
  have "crew_keys E J (\<lambda>_. None) h" by (simp add: crew_keys_def)
  from turns_extend [OF assms(1) this assms(2-5)] assms(6) have "steady E V r k f h'" by blast
  from read_delivers [OF assms(1) this assms(7,8)] show ?thesis by blast
qed

text \<open>Two threads on one store, and a third that deletes another file meanwhile.\<close>

definition two_jobs :: jobs where
  "two_jobs i = (full_operator, if i = 0 then ''a'' else ''b'')"

definition two_threads :: "event list" where
  "two_threads = [Opening 0, Opening 1, Calling 1 (WriteOp ''x''), Calling 0 (WriteOp ''yz''),
     Elsewhere (Delete (od_op full_operator) ''c''), Calling 0 CloseOp, Calling 1 CloseOp]"

definition two_bufs :: "nat \<Rightarrow> bytes list" where
  "two_bufs i = (if i = 0 then [''yz''] else [''x''])"

lemma two_ok:
  "inj_on (target two_jobs) {0, 1}" "{(0, ''c'')} \<inter> target two_jobs ` {0, 1} = {}"
  "(\<Union>e \<in> set two_threads. event_of e) \<subseteq> {0, 1}" "stays_in E two_jobs {(0, ''c'')} s two_threads"
  "i \<in> {0, 1} \<Longrightarrow> part i two_threads = script i (two_bufs i)"
  "i \<in> {0, 1} \<Longrightarrow> cap_write (od_cap (fst (two_jobs i))) \<and> utf8_valid (snd (two_jobs i)) \<and> list_all (\<lambda>d. length d < 2 ^ 63) (two_bufs i)"
       apply (simp_all add: two_jobs_def two_threads_def two_bufs_def target_def full_operator_def is_ascii_def)
  by (auto simp: part_def script_def started_def)

section \<open>Properties\<close>

text \<open>
  C5: writers do not disturb one another: on any store that keeps the contract, let threads with
  distinct targets open, write, close and abort their writers in any interleaving, with any other
  calls in between that leave the targets alone.  Every thread that was answered 0 for its opening, its
  writes and its close has exactly its own bytes, in its order, at its path, whatever failed for the
  others; and nothing changed but the targets, what the other calls touched, and directories above.
\<close>

theorem interleaved_writers:
  assumes "object_store E V" "inj_on (target J) I" "F \<inter> target J ` I = {}" "(\<Union>e \<in> set es. event_of e) \<subseteq> I"
    and "stays_in E J F (\<lambda>_. None, h) es" "turns E J (\<lambda>_. None, h) es = (ts, W', h')"
  shows "(\<forall>i \<in> I. \<forall>bufs. list_all (\<lambda>d. length d < 2 ^ 63) bufs \<and> own i ts = done_ok bufs
      \<longrightarrow> V h' (fst (target J i)) (snd (target J i)) = Some (FileNode (concat bufs)))
    \<and> unchanged_but (target J ` I \<union> F) (V h) (V h')"
  by (rule turns_published [OF assms])

theorem interleaved_writers_witness:
  "\<exists>ts W h. turns mem_env two_jobs (\<lambda>_. None, []) two_threads = (ts, W, h) \<and> own 0 ts = done_ok [''yz'']
     \<and> mem_view h 0 ''a'' = Some (FileNode ''yz'')"
proof -
  obtain ts W h where t: "turns mem_env two_jobs (\<lambda>_. None, []) two_threads = (ts, W, h)" by (metis surj_pair)
  have "own 0 ts = done_ok (two_bufs 0)"
    by (rule turns_answered [OF mem_dependable two_ok(1-4) t two_ok(6,5)]) simp_all
  moreover from this have "mem_view h (fst (target two_jobs 0)) (snd (target two_jobs 0)) = Some (FileNode (concat (two_bufs 0)))"
    using conjunct1 [OF interleaved_writers [OF mem_store two_ok(1-4) t], rule_format, of 0 "two_bufs 0"]
    by (simp add: two_bufs_def)
  ultimately show ?thesis using t by (simp add: two_bufs_def target_def two_jobs_def full_operator_def)
qed

text \<open>
  C14: concurrent writers succeed: on a dependable store, when each thread of a schedule opens a
  writer the operator allows on a path of its own, writes its buffers and closes, every call of every
  thread is answered 0 under every interleaving, and all the files are there at the end.
\<close>

theorem interleaved_files_land:
  assumes "dependable E V" "inj_on (target J) I" "F \<inter> target J ` I = {}" "(\<Union>e \<in> set es. event_of e) \<subseteq> I"
    and "stays_in E J F (\<lambda>_. None, h) es" "turns E J (\<lambda>_. None, h) es = (ts, W', h')"
    and "\<And>i. i \<in> I \<Longrightarrow> cap_write (od_cap (fst (J i))) \<and> utf8_valid (snd (J i)) \<and> list_all (\<lambda>d. length d < 2 ^ 63) (bufs i)"
    and "\<And>i. i \<in> I \<Longrightarrow> part i es = script i (bufs i)" "i \<in> I"
  shows "own i ts = done_ok (bufs i)
    \<and> V h' (fst (target J i)) (snd (target J i)) = Some (FileNode (concat (bufs i)))"
proof -
  have "own i ts = done_ok (bufs i)" by (rule turns_answered [OF assms])
  with turns_published [OF dependable_store [OF assms(1)] assms(2-6)] assms(7,9) show ?thesis by simp
qed

theorem interleaved_files_land_witness:
  "\<exists>ts W h. turns mem_env two_jobs (\<lambda>_. None, []) two_threads = (ts, W, h)
     \<and> mem_view h 0 ''a'' = Some (FileNode ''yz'') \<and> mem_view h 0 ''b'' = Some (FileNode ''x'')"
proof -
  obtain ts W h where t: "turns mem_env two_jobs (\<lambda>_. None, []) two_threads = (ts, W, h)" by (metis surj_pair)
  note land = interleaved_files_land [OF mem_dependable two_ok(1-4) t two_ok(6,5)]
  from land [of 0] land [of 1] t show ?thesis
    by (simp add: two_bufs_def target_def two_jobs_def full_operator_def)
qed

end
