(* ===== verification/Scans.thy ===== *)
theory Scans
  imports Usage
begin

text \<open>
  Table scans on a store that keeps its contract: the rows of a recursive list scan and of a glob scan
  are those of the files in the store's tree.
\<close>

section \<open>Rows of a tree\<close>

text \<open>
  Rows that, as far as files go (mode 1), are the files of a tree in some set, each once and with its
  length.
\<close>

definition rows_report :: "tree \<Rightarrow> string set \<Rightarrow> od_entry_row list \<Rightarrow> bool" where
  "rows_report T S rows \<longleftrightarrow> distinct (map er_path rows)
     \<and> set (map (\<lambda>r. (the (er_path r), unat (em_content_length (er_metadata r))))
          (filter (\<lambda>r. em_mode (er_metadata r) = 1) rows))
       = {(q, file_size T q) |q. q \<in> S \<and> is_file_at T q}"

lemma row_of_entry:
  assumes "representable E (q, m)"
  shows "er_path (borrowed (row_of E (q, m))) = Some q"
    and "em_content_length (er_metadata (borrowed (row_of E (q, m)))) = content_length m"
    and "em_mode (er_metadata (borrowed (row_of E (q, m)))) = 1 \<longleftrightarrow> is_file m"
proof -
  from row_of_representable [OF assms] have "owned_from_parts E q m = Inr (row_of E (q, m))" by (simp add: owned_new_def)
  from owned_from_parts_Inr [OF this] show "er_path (borrowed (row_of E (q, m))) = Some q"
    "em_content_length (er_metadata (borrowed (row_of E (q, m)))) = content_length m"
    "em_mode (er_metadata (borrowed (row_of E (q, m)))) = 1 \<longleftrightarrow> is_file m"
    by (simp_all add: borrowed_def mode_number_def is_file_def split: entry_mode.split)
qed

lemma accurate_rows:
  assumes "accurate T S es" "list_all (representable E) es"
  shows "rows_report T S (map (\<lambda>x. borrowed (row_of E x)) es)"
proof -
  let ?row = "\<lambda>x. borrowed (row_of E x)"
  have rep: "representable E (q, m)" if "(q, m) \<in> set es" for q m using assms(2) that by (auto simp: list_all_iff)
  have paths: "map er_path (map ?row es) = map Some (map fst es)"
    using rep row_of_entry(1) by (auto simp: comp_def)
  have files: "{q. \<exists>m. (q, m) \<in> set es \<and> is_file m} = {q \<in> S. is_file_at T q}"
    and sizes: "(q, m) \<in> set es \<Longrightarrow> is_file m \<Longrightarrow> unat (content_length m) = file_size T q" for q m
    using assms(1) by (auto simp: accurate_def)
  let ?view = "\<lambda>r. (the (er_path r), unat (em_content_length (er_metadata r)))"
  have "filter (\<lambda>r. em_mode (er_metadata r) = 1) (map ?row es) = map ?row (filter (\<lambda>x. is_file (snd x)) es)"
    unfolding filter_map comp_def using rep row_of_entry(3)
    by (intro arg_cong [of _ _ "map ?row"] filter_cong) auto
  moreover have "map ?view (map ?row (filter (\<lambda>x. is_file (snd x)) es))
      = map (\<lambda>(q, m). (q, file_size T q)) (filter (\<lambda>x. is_file (snd x)) es)"
    using rep row_of_entry(1,2) sizes by (auto simp: comp_def)
  moreover have "set (map (\<lambda>(q, m). (q, file_size T q)) (filter (\<lambda>x. is_file (snd x)) es))
      = (\<lambda>q. (q, file_size T q)) ` {q. \<exists>m. (q, m) \<in> set es \<and> is_file m}"
    by force
  ultimately have "set (map ?view (filter (\<lambda>r. em_mode (er_metadata r) = 1) (map ?row es)))
      = {(q, file_size T q) |q. q \<in> S \<and> is_file_at T q}" unfolding files by (simp only:) blast
  moreover have "distinct (map er_path (map ?row es))"
  proof -
    have "distinct (map Some ps) \<longleftrightarrow> distinct ps" for ps :: "string list" by (simp add: distinct_map)
    with assms(1) show ?thesis unfolding paths by (simp only: accurate_def)
  qed
  ultimately show ?thesis by (simp add: rows_report_def)
qed

section \<open>The scan\<close>

text \<open>That no string of what a cursor's lister yields has a NUL byte, so that each entry is a row.\<close>

definition rows_after :: "env \<Rightarrow> od_table_cursor \<Rightarrow> history \<Rightarrow> bool" where
  "rows_after E c h \<longleftrightarrow> (\<forall>n k x. tc_source c = ListSource n \<and> on_entry E (h @ pulls n (Suc k)) = ROk (Some x) \<longrightarrow> representable E x)"

text \<open>The rows a scan gives, when it is stepped to its end.\<close>

definition scan_rows :: "env \<Rightarrow> od_table_cursor ptr \<Rightarrow> history \<Rightarrow> od_entry_row list \<Rightarrow> bool" where
  "scan_rows E p h rows \<longleftrightarrow>
     (\<forall>steps slot old. length rows < steps \<longrightarrow> collect table_step steps (E, slot, p, old, h) = Some (map (Pair 1) rows))"

definition passes :: "string option \<Rightarrow> string \<Rightarrow> bool" where
  "passes glob q \<longleftrightarrow> (case glob of None \<Rightarrow> True | Some g \<Rightarrow> glob_matches g q)"

lemma list_cursor_on_tree:
  assumes "object_store E V" "walking E V"
    and "od_table_list_open E (Ptr a op) (Some path) glob raw err h = (Some c, e, h')"
    and "list_options raw = Inr recursive_opts" "T = V h (service (od_op op))"
    and "\<forall>q x. T q = Some x \<longrightarrow> measurable x" "rows_after E c h'"
  shows "V h' = V h \<and> (\<exists>rows. scan_rows E (Ptr b c) h' rows
    \<and> rows_report T {q. prefix (trim_start_char CHR ''/'' path) q
        \<and> q \<notin> {trim_char CHR ''/'' path, trim_char CHR ''/'' path @ ''/''} \<and> passes glob q} rows)"
proof -
  let ?c = "ListerOptions (od_op op) path recursive_opts"
  from assms(3,4) obtain g n where h': "h' = h @ [?c]" "on_handle E h' = ROk n"
    and g: "optional_cstr glob ''glob'' = Inr g"
    and c: "c = \<lparr>tc_source = ListSource n, tc_glob = g, tc_self_path = Some (trim_char CHR ''/'' path), tc_current = None\<rparr>"
    by (elim list_open_Some) (auto simp: cstr_def split: if_splits)
  have "g = glob" using g by (auto simp: optional_cstr_def cstr_def split: option.splits if_splits)
  from assms(2) [unfolded walking_def, rule_format, of h "od_op op" path n] assms(5,6) h'
  obtain es where es: "lists T (trim_start_char CHR ''/'' path) es" "lister_yields E n h' es" by auto
  have rep: "list_all (representable E) es"
    unfolding list_all_length
  proof (intro allI impI)
    fix k assume "k < length es"
    with es(2) have "on_entry E (h' @ pulls n (Suc k)) = ROk (Some (es ! k))" by (simp add: lister_yields_def del: replicate.simps)
    moreover have "tc_source c = ListSource n" by (simp add: c)
    ultimately show "representable E (es ! k)" using assms(7) unfolding rows_after_def by blast
  qed
  let ?P = "\<lambda>q. q \<notin> {trim_char CHR ''/'' path, trim_char CHR ''/'' path @ ''/''} \<and> passes glob q"
  have shown: "shown c es = filter (\<lambda>x. ?P (fst x)) es"
    unfolding shown_def
    by (rule filter_cong)
      (auto simp: c \<open>g = glob\<close> shows_path_def is_self_iff glob_rejects_def passes_def split: option.split)
  let ?rows = "map (\<lambda>x. borrowed (row_of E x)) (shown c es)"
  have src: "tc_source c = ListSource n" by (simp add: c)
  have "scan_rows E (Ptr b c) h' ?rows"
    unfolding scan_rows_def
  proof (intro allI impI)
    fix steps slot old assume "length ?rows < steps"
    with scan_list [OF es(2) rep src, of steps slot b old]
    show "collect table_step steps (E, slot, Ptr b c, old, h') = Some (map (Pair 1) ?rows)" by (simp add: comp_def)
  qed
  moreover have "rows_report T {q. prefix (trim_start_char CHR ''/'' path) q \<and> ?P q} ?rows"
    using lists_accurate [OF es(1), of ?P] rep by (intro accurate_rows) (auto simp: shown list_all_iff)
  ultimately show ?thesis using store_quiet [OF assms(1), of h ?c] h'(1) by auto
qed

section \<open>A small tree\<close>

lemma small_tree_measurable: "\<forall>q x. mem_view small_tree 0 q = Some x \<longrightarrow> measurable x"
  by (auto simp: small_tree_view measurable_def split: if_splits)

lemma small_tree_open_list:
  assumes "prefix (trim_start_char CHR ''/'' p) ''d/a.csv''" "utf8_valid p" "case glob of None \<Rightarrow> True | Some g \<Rightarrow> utf8_valid g"
  shows "\<exists>c h'. od_table_list_open mem_env (Ptr 1 full_operator) (Some p) glob (plain_list_options\<lparr>ol_recursive := 1\<rparr>) None small_tree
      = (Some c, None, h') \<and> rows_after mem_env c h'"
proof -
  let ?o = "plain_list_options\<lparr>ol_recursive := 1\<rparr>" and ?h = "small_tree @ [ListerOptions (od_op full_operator) p recursive_opts]"
  let ?c = "\<lparr>tc_source = ListSource 2, tc_glob = glob, tc_self_path = Some (trim_char CHR ''/'' p), tc_current = None\<rparr>"
  have len: "length ?h = 2" by (simp add: small_tree_def)
  have "od_table_list_open mem_env (Ptr 1 full_operator) (Some p) glob ?o None small_tree = (Some ?c, None, ?h)"
    using assms(2,3)
    by (auto simp: od_table_list_open_def od_table_list_open_body_def ffi_guard_def decode_or_leave_def cstr_def set_ok_def
        optional_cstr_def require_def full_operator_def list_options_def plain_list_options_def list_checks_def
        default_list_opts_def require_option_def invoke_def small_tree_def eval_nat_numeral split: option.splits)
  note open_list = this
  have "mem_lister ?h 2 = [(''d/a.csv'', node_meta (FileNode ''xy''))]"
    using assms(1) by (simp add: mem_lister_def small_tree_def mem_def full_operator_def)
  with mem_lister_yields [of small_tree "ListerOptions (od_op full_operator) p recursive_opts", unfolded len]
  have "lister_yields mem_env 2 ?h [(''d/a.csv'', node_meta (FileNode ''xy''))]" by simp
  moreover have "representable mem_env (''d/a.csv'', node_meta (FileNode ''xy''))"
    by (simp add: representable_def owned_new_def owned_from_parts_def sorted_user_metadata_def plain_file_def node_meta_def
        cstring_def cstring_new_def optional_string_def mem_env_def)
  ultimately have "rows_after mem_env ?c ?h"
    by (auto simp: rows_after_def lister_yields_def simp del: replicate.simps split: if_splits)
  with open_list show ?thesis by blast
qed


lemma small_tree_rows:
  assumes "rows_report (mem_view small_tree 0) S rows" "''d/a.csv'' \<in> S"
  shows "set (map (\<lambda>r. (the (er_path r), unat (em_content_length (er_metadata r))))
    (filter (\<lambda>r. em_mode (er_metadata r) = 1) rows)) = {(''d/a.csv'', 2)}"
proof -
  have "{(q, file_size (mem_view small_tree 0) q) |q. q \<in> S \<and> is_file_at (mem_view small_tree 0) q} = {(''d/a.csv'', 2)}"
    using assms(2) by (auto simp: small_tree_view is_file_at_def file_size_def split: if_splits)
  with assms(1) show ?thesis by (simp add: rows_report_def)
qed

section \<open>Properties\<close>



end
