(* ===== verification/Tuning.thy ===== *)
theory Tuning
  imports Boundary
begin

text \<open>
  From an option to a call: the \<open>io\<close> options given to \<open>od_operator_new\<close> (\<open>config/io.rs\<close>) are carried
  by the operator handle and passed, with the values their texts denote, to the calls that open
  readers and writers (\<open>reader.rs\<close>, \<open>writer.rs\<close>).
\<close>

section \<open>An option loop sets a field from its key\<close>

lemma apply_options_field:
  assumes "\<And>v c d. f k v c = Ret (Inr d) \<Longrightarrow> R v (g d)" and "\<And>k' v c d. k' \<noteq> k \<Longrightarrow> f k' v c = Ret (Inr d) \<Longrightarrow> g d = g c"
  shows "apply_options f kvs c = Ret (Inr c') \<Longrightarrow> distinct (map fst kvs) \<Longrightarrow>
    (case map_of kvs k of Some v \<Rightarrow> R v (g c') | None \<Rightarrow> g c' = g c)"
proof (induction kvs arbitrary: c)
  case (Cons kv kvs)
  obtain k' v where kv: "kv = (k', v)" by (cases kv)
  with Cons.prems obtain d where d: "f k' v c = Ret (Inr d)" "apply_options f kvs d = Ret (Inr c')" by (auto simp: result_iff)
  from Cons.IH [OF d(2)] Cons.prems(2) have IH: "case map_of kvs k of Some v \<Rightarrow> R v (g c') | None \<Rightarrow> g c' = g d" by simp
  show ?case
  proof (cases "k' = k")
    case True
    with kv Cons.prems(2) have "map_of kvs k = None" by (simp add: map_of_eq_None_iff)
    with IH have "g c' = g d" by simp
    with assms(1) d(1) True kv show ?thesis by simp
  next
    case False
    with assms(2) [OF False d(1)] IH kv show ?thesis by (auto split: option.splits)
  qed
qed simp

text \<open>The section an option ends up in holds, for each key, the last value given for it.\<close>

lemma collected_section:
  assumes "collect_sections kvs [] = Inr ss" "CHR ''.'' \<notin> set sec"
  shows "map_of (section_of ss sec) k = map_of (rev kvs) (sec @ CHR ''.'' # k)" "distinct (map fst (section_of ss sec))"
proof -
  have "section_of ss sec = bt.of_list (section_kvs sec kvs)"
    using collect_sections_section_of [OF assms(1)] by (simp add: bt.of_list_def section_of_def bt_ok_def)
  with bt.of_list_lookup [of "section_kvs sec kvs"] map_of_section_kvs [OF assms(2), of "rev kvs" k]
  show "map_of (section_of ss sec) k = map_of (rev kvs) (sec @ CHR ''.'' # k)" "distinct (map fst (section_of ss sec))"
    by (simp_all add: section_kvs_rev bt_ok_def strict_sorted_iff)
qed

section \<open>What the texts denote\<close>

definition size_of_text :: "text_env \<Rightarrow> string \<Rightarrow> u64 option" where
  "size_of_text te v = (case parse_bytes te v of Ret b \<Rightarrow> b | Panic \<Rightarrow> None)"

text \<open>A parameter as it is passed on: absent without the option, else the positive value of its text.\<close>

definition tuned :: "(string \<Rightarrow> u64 option) \<Rightarrow> string option \<Rightarrow> u64 option \<Rightarrow> bool" where
  "tuned denotes given x \<longleftrightarrow> (case given of None \<Rightarrow> x = None | Some v \<Rightarrow> x = denotes v \<and> x \<noteq> None \<and> x \<noteq> Some 0)"

lemma io_parse_tuned:
  assumes "io_parse te kvs = Ret (Inr io)" "distinct (map fst kvs)"
  shows "tuned parse_u64 (map_of kvs ''read.concurrent'') (concurrent (io_read io))"
    and "tuned (size_of_text te) (map_of kvs ''read.chunk_size'') (read_chunk io)"
    and "tuned parse_u64 (map_of kvs ''write.concurrent'') (concurrent (io_write io))"
    and "tuned (size_of_text te) (map_of kvs ''write.chunk_size'') (write_chunk io)"
proof -
  have field: "tuned denotes (map_of kvs k) (g io)"
    if "g default_io = None"
      and "\<And>v c d. io_option te k v c = Ret (Inr d) \<Longrightarrow> g d = denotes v \<and> g d \<noteq> None \<and> g d \<noteq> Some 0"
      and "\<And>k' v c d. k' \<noteq> k \<Longrightarrow> io_option te k' v c = Ret (Inr d) \<Longrightarrow> g d = g c"
    for denotes k and g :: "io_config \<Rightarrow> u64 option"
  proof -
    have "case map_of kvs k of Some v \<Rightarrow> g io = denotes v \<and> g io \<noteq> None \<and> g io \<noteq> Some 0 | None \<Rightarrow> g io = g default_io"
    proof (rule apply_options_field [where f = "io_option te" and k = k and g = g
          and R = "\<lambda>v x. x = denotes v \<and> x \<noteq> None \<and> x \<noteq> Some 0"])
      show "apply_options (io_option te) kvs default_io = Ret (Inr io)" using assms(1) by (simp add: io_parse_def)
    qed (fact that(2) that(3) assms(2))+
    with that(1) show ?thesis unfolding tuned_def by (cases "map_of kvs k") (simp_all only: option.case, metis)
  qed
  show "tuned parse_u64 (map_of kvs ''read.concurrent'') (concurrent (io_read io))"
    by (rule field)
      (auto simp: default_io_def default_direction_def io_option_def positive_usize_def result_iff split: if_splits option.splits)
  show "tuned parse_u64 (map_of kvs ''write.concurrent'') (concurrent (io_write io))"
    by (rule field)
      (auto simp: default_io_def default_direction_def io_option_def positive_usize_def result_iff split: if_splits option.splits)
  have size: "byte_size_parse te ''io'' k v = Ret (Inr b) \<Longrightarrow> size_of_text te v = Some (size_get b)" for k v b
    by (auto simp: byte_size_parse_def size_of_text_def outcome_bind_def split: outcome.splits option.splits)
  show "tuned (size_of_text te) (map_of kvs ''read.chunk_size'') (read_chunk io)"
    by (rule field)
      (auto simp: default_io_def default_direction_def io_option_def read_chunk_def result_iff size split: if_splits)
  show "tuned (size_of_text te) (map_of kvs ''write.chunk_size'') (write_chunk io)"
    by (rule field)
      (auto simp: default_io_def default_direction_def io_option_def write_chunk_def result_iff size split: if_splits)
qed

lemma operator_tuned:
  assumes "od_operator_new E S te uri keys vals n okeys ovals on ns err h = (Some op, e, h1)"
    and "collect_pairs okeys ovals on = Inr opts"
  shows "tuned parse_u64 (map_of (rev opts) ''io.read.concurrent'') (concurrent (io_read (od_io op)))"
    and "tuned (size_of_text te) (map_of (rev opts) ''io.read.chunk_size'') (read_chunk (od_io op))"
    and "tuned parse_u64 (map_of (rev opts) ''io.write.concurrent'') (concurrent (io_write (od_io op)))"
    and "tuned (size_of_text te) (map_of (rev opts) ''io.write.chunk_size'') (write_chunk (od_io op))"
proof -
  from assms obtain c a where c: "config_parse te opts (cstr ns) = Ret (Inr c)" "op = operator_handle S (od_scheme op) c a"
    by (elim operator_new_Some) simp
  then have io: "od_io op = oc_io c" by (metis operator_handle_def od_operator.select_convs(3))
  from c(1) obtain ss where ss: "collect_sections opts [] = Inr ss" "io_parse te (section_of ss ''io'') = Ret (Inr (od_io op))"
    unfolding io by (rule config_parse_parts)
  have dot: "CHR ''.'' \<notin> set ''io''" by simp
  note tuned = io_parse_tuned [OF ss(2) collected_section(2) [OF ss(1) dot], unfolded collected_section(1) [OF ss(1) dot]]
  from tuned show "tuned parse_u64 (map_of (rev opts) ''io.read.concurrent'') (concurrent (io_read (od_io op)))"
    "tuned (size_of_text te) (map_of (rev opts) ''io.read.chunk_size'') (read_chunk (od_io op))"
    "tuned parse_u64 (map_of (rev opts) ''io.write.concurrent'') (concurrent (io_write (od_io op)))"
    "tuned (size_of_text te) (map_of (rev opts) ''io.write.chunk_size'') (write_chunk (od_io op))"
    by simp_all
qed

section \<open>Properties\<close>

text \<open>
  C20: tuning reaches the service: a reader and a writer opened on an operator make one call each,
  which carries the concurrency and the chunk size of the operator's options: the value that the last
  text given for the key denotes, never zero, and no value when the key was not given.
\<close>

theorem io_options_reach_calls:
  assumes "od_operator_new E S te uri keys vals n okeys ovals on ns err h = (Some op, e, h1)"
    and "collect_pairs okeys ovals on = Inr opts"
    and "od_reader_open E (Ptr a op) (Some p) err2 h2 = (Some r, e2, h3)"
    and "od_writer_open E (Ptr b op) (Some q) err4 h4 = (Some w, e4, h5)"
  shows "\<exists>rc rk wc wk. h3 = h2 @ [ReaderWith (od_op op) p rc rk] \<and> h5 = h4 @ [WriterWith (od_op op) q wc wk]
    \<and> tuned parse_u64 (map_of (rev opts) ''io.read.concurrent'') rc
    \<and> tuned (size_of_text te) (map_of (rev opts) ''io.read.chunk_size'') rk
    \<and> tuned parse_u64 (map_of (rev opts) ''io.write.concurrent'') wc
    \<and> tuned (size_of_text te) (map_of (rev opts) ''io.write.chunk_size'') wk"
proof -
  from assms(3) have "h3 = h2 @ [ReaderWith (od_op op) p (concurrent (io_read (od_io op))) (read_chunk (od_io op))]"
    by (auto simp: od_reader_open_def od_reader_open_body_def ffi_guard_def check_guard_def decode_or_leave_def
        await_or_leave_def invoke_def cstr_def split: sum.splits if_splits reply.splits)
  moreover from assms(4) have "h5 = h4 @ [WriterWith (od_op op) q (concurrent (io_write (od_io op))) (write_chunk (od_io op))]"
    by (auto simp: od_writer_open_def od_writer_open_body_def ffi_guard_def check_guard_def decode_or_leave_def
        await_or_leave_def invoke_def cstr_def split: sum.splits if_splits reply.splits)
  ultimately show ?thesis using operator_tuned [OF assms(1,2)] by blast
qed

theorem io_options_reach_calls_witness:
  "\<exists>op h1 wc wk. fst (snd (od_writer_open calm_env (Ptr 1 op) (Some ''f'') None h1)) = None
     \<and> snd (snd (od_writer_open calm_env (Ptr 1 op) (Some ''f'') None h1)) = h1 @ [WriterWith (od_op op) ''f'' wc wk]
     \<and> wc = Some 4 \<and> wk = None"
proof -
  let ?S = "\<lparr>uri_scheme = \<lambda>_ _. ROk ''memory'', capability_of = \<lambda>_. od_cap full_operator, root_of = \<lambda>_. ''/''\<rparr>"
  let ?te = "\<lparr>uni_numeric = \<lambda>_. False, parse_iec = \<lambda>_. None, parse_duration = \<lambda>_. None\<rparr>"
  let ?ks = "Some [Some ''io.write.concurrent'', Some ''io.write.concurrent'']" and ?vs = "Some [Some ''8'', Some ''4'']"
  let ?opts = "[(''io.write.concurrent'', ''8''), (''io.write.concurrent'', ''4'')]"
  have pairs: "collect_pairs ?ks ?vs 2 = Inr [(''io.write.concurrent'', ''8''), (''io.write.concurrent'', ''4'')]"
    by (simp add: collect_pairs_def cstr_def is_ascii_def eval_nat_numeral)
  obtain c where c: "config_parse ?te ?opts None = Ret (Inr c)" "oc_cache c = None"
    by (simp add: config_parse_def known_section_def section_insert_def section_of_def io_parse_def io_option_def
        retry_parse_def timeout_parse_def cache_parse_def positive_usize_def parse_u64_def is_digit_def digit_value_def)
  obtain op e h1 where op: "od_operator_new calm_env ?S ?te (Some ''memory'') None None 0 ?ks ?vs 2 None None [] = (Some op, e, h1)"
    "od_cap op = od_cap full_operator"
    using c pairs
    by (simp add: od_operator_new_def od_operator_new_body_def ffi_guard_def cstr_def is_ascii_def build_operator_def invoke_def
        collect_pairs_def [of None] apply_layers_def operator_handle_def Let_def)
  obtain r e2 h3 where r: "od_reader_open calm_env (Ptr 1 op) (Some ''f'') None [] = (Some r, e2, h3)"
    using op(2) by (simp add: od_reader_open_def od_reader_open_body_def ffi_guard_def require_def decode_or_leave_def cstr_def
        is_ascii_def invoke_def full_operator_def)
  obtain w h5 where w: "od_writer_open calm_env (Ptr 1 op) (Some ''f'') None h1 = (Some w, None, h5)"
    using op(2) by (simp add: od_writer_open_def od_writer_open_body_def ffi_guard_def require_def decode_or_leave_def cstr_def
        is_ascii_def invoke_def full_operator_def set_ok_def)
  have four: "parse_u64 ''4'' = Some 4" by (simp add: parse_u64_def is_digit_def digit_value_def)
  from io_options_reach_calls [OF op(1) pairs r w] obtain wc wk where h5: "h5 = h1 @ [WriterWith (od_op op) ''f'' wc wk]"
    and "tuned parse_u64 (Some ''4'') wc" "tuned (size_of_text ?te) None wk" by auto
  then have "wc = Some 4" "wk = None" using four by (simp_all add: tuned_def)
  with w h5 have "fst (snd (od_writer_open calm_env (Ptr 1 op) (Some ''f'') None h1)) = None
     \<and> snd (snd (od_writer_open calm_env (Ptr 1 op) (Some ''f'') None h1)) = h1 @ [WriterWith (od_op op) ''f'' wc wk]
     \<and> wc = Some 4 \<and> wk = None" by simp
  then show ?thesis by (intro exI)
qed

end
