(* ===== verification/Trials.thy ===== *)
theory Trials
  imports Probes Build Conformance "HOL-Library.Countable"
begin

text \<open>
  The end-to-end tests of \<open>lib.rs\<close> that reach outside the services: the version found at build time,
  the name an operator takes from its URI, and the directory of a disk cache.  As in theory
  Scenarios, a test is a program that fails with \<open>None\<close>.
\<close>

section \<open>The tests\<close>

definition opendal_version_roundtrip :: "string \<Rightarrow> unit option" where
  "opendal_version_roundtrip opendal_version = do {
     s \<leftarrow> cstr (od_opendal_version opendal_version);
     assert_that (s \<noteq> '''' \<and> s \<noteq> ''unknown'');
     assert_that (case s of c # _ \<Rightarrow> is_digit c | [] \<Rightarrow> False)
   }"

text \<open>\<open>op.info().name()\<close> is a parameter.\<close>

definition s3_operator_from_uri_extracts_bucket ::
  "env \<Rightarrow> service_env \<Rightarrow> (operator \<Rightarrow> string) \<Rightarrow> text_env \<Rightarrow> crypto_env \<Rightarrow> unit parsed option \<Rightarrow> history \<Rightarrow> unit option" where
  "s3_operator_from_uri_extracts_bucket E S name_of te c cell h = do {
     _ \<leftarrow> init_library c cell;
     let keys = map Some [''endpoint'', ''region'', ''access_key_id'', ''secret_access_key''];
     let vals = map Some [''http://127.0.0.1:1'', ''us-east-1'', ''x'', ''y''];
     let (new, err, h) = od_operator_new E S te (Some ''s3://my-bucket'') (Some keys) (Some vals) (length keys)
       None None 0 None no_error h;
     op \<leftarrow> new;
     assert_that (name_of (od_op op) = ''my-bucket'');
     assert_that (od_scheme op = ''s3'')
   }"

text \<open>\<open>vec![7u8; 4096]\<close>, and the three reads; \<open>read_dir\<close> is a parameter.\<close>

definition cached_block :: bytes where
  "cached_block = replicate 4096 (CHR 0x07)"

fun read_block :: "env \<Rightarrow> od_operator \<Rightarrow> nat \<Rightarrow> history \<Rightarrow> history option" where
  "read_block E op 0 h = Some h"
| "read_block E op (Suc n) h = do {
     let (reader, serr, h) = od_reader_open E (Ptr 0 op) (Some ''disk_cached.txt'') no_error h;
     r \<leftarrow> reader;
     let (got, serr, buf, h) = od_reader_read E (Ptr 0 r) 0 4096 True serr h;
     assert_that (got = 4096);
     bytes \<leftarrow> buf;
     assert_that (bytes ! 0 = CHR 0x07);
     read_block E op n h
   }"

definition memory_operator_with_disk_cache ::
  "env \<Rightarrow> service_env \<Rightarrow> text_env \<Rightarrow> (history \<Rightarrow> string \<Rightarrow> string list option) \<Rightarrow> string \<Rightarrow> history \<Rightarrow> unit option" where
  "memory_operator_with_disk_cache E S te listdir place h = do {
     (op, h) \<leftarrow> memory_operator E S te
       [(''cache.memory_size'', ''16 MiB''), (''cache.disk_path'', place), (''cache.disk_size'', ''64 MiB''),
        (''cache.block_size'', ''1 MiB'')] h;
     h \<leftarrow> seed_file E op ''disk_cached.txt'' cached_block h;
     h \<leftarrow> read_block E op 3 h;
     entries \<leftarrow> listdir h place;
     assert_that (entries \<noteq> [])
   }"

section \<open>The version\<close>

lemma version_passes:
  assumes "utf8_valid v" "nul_free v" "v \<noteq> ''unknown''" "v \<noteq> []" "is_digit (hd v)"
  shows "opendal_version_roundtrip v = Some ()"
  using assms by (cases v) (simp_all add: opendal_version_roundtrip_def od_opendal_version_def cstring_new_def cstr_def)

section \<open>The name\<close>

text \<open>What is relied on of the s3 service: it builds from a URI, and is named by the URI's authority.\<close>

definition s3_service :: "env \<Rightarrow> service_env \<Rightarrow> (operator \<Rightarrow> string) \<Rightarrow> bool" where
  "s3_service E S name_of \<longleftrightarrow>
     (\<forall>bucket cfg. CHR ''/'' \<notin> set bucket \<longrightarrow> uri_scheme S (''s3://'' @ bucket) cfg = ROk ''s3''
        \<and> (\<forall>h. \<exists>n. on_handle E (h @ [BuildOperator (''s3://'' @ bucket) cfg]) = ROk n
             \<and> (\<forall>ls. name_of \<lparr>service = n, layers = ls\<rparr> = bucket)))"

lemma s3_passes:
  assumes "s3_service E S name_of" "crypto_ready c"
  shows "s3_operator_from_uri_extracts_bucket E S name_of te c None h = Some ()"
proof -
  let ?cfg = "[(''endpoint'', ''http://127.0.0.1:1''), (''region'', ''us-east-1''), (''access_key_id'', ''x''), (''secret_access_key'', ''y'')]"
  obtain cell where init: "init_library c None = Some cell" using init_library_val [OF assms(2)] by blast
  from assms(1) [unfolded s3_service_def, rule_format, of "''my-bucket''" ?cfg] obtain n where
    n: "uri_scheme S ''s3://my-bucket'' ?cfg = ROk ''s3''" "on_handle E (h @ [BuildOperator ''s3://my-bucket'' ?cfg]) = ROk n"
    "\<And>ls. name_of \<lparr>service = n, layers = ls\<rparr> = ''my-bucket''"
    by fastforce
  then show ?thesis
    using init
    by (simp add: s3_operator_from_uri_extracts_bucket_def od_operator_new_def od_operator_new_body_def collect_pairs_def
        cstr_def is_ascii_def no_options build_operator_def invoke_def apply_layers_def io_apply_layer_def default_io_def
        operator_handle_def ffi_guard_def)
qed

section \<open>The disk cache\<close>

text \<open>The calls that remove something from a file system.\<close>

fun removes :: "call \<Rightarrow> bool" where
  "removes (Delete _ _) \<longleftrightarrow> True"
| "removes (DeleteRecursive _ _) \<longleftrightarrow> True"
| "removes (Rename _ _ _) \<longleftrightarrow> True"
| "removes _ \<longleftrightarrow> False"

text \<open>
  What is relied on of the local file system: a directory that was made is an entry of the one it was
  made in, until something is removed; and of the cache library: making the directory in a writable
  place succeeds, and the builders answer, with a cache or with an error.
\<close>

definition local_dirs :: "env \<Rightarrow> (history \<Rightarrow> string \<Rightarrow> string list option) \<Rightarrow> bool" where
  "local_dirs E listdir \<longleftrightarrow>
     (\<forall>h g d n. on_unit E (h @ [CreateDirAll (path_join d n)]) = ROk () \<and> n \<noteq> [] \<and> CHR ''/'' \<notin> set n \<and> \<not> list_ex removes g
        \<longrightarrow> (\<exists>es. listdir (h @ CreateDirAll (path_join d n) # g) d = Some es \<and> n \<in> set es))"

definition disk_cache_library :: "env \<Rightarrow> string \<Rightarrow> bool" where
  "disk_cache_library E d \<longleftrightarrow>
     (\<forall>h n. on_unit E (h @ [CreateDirAll (path_join d n)]) = ROk ())
   \<and> (\<forall>h p s. on_handle E (h @ [FsDevice p s]) \<noteq> RPanic)
   \<and> (\<forall>h m s b. on_handle E (h @ [CacheBuild m s b]) \<noteq> RPanic)"

lemma disk_sizes:
  assumes "parse_iec te ''16 MiB'' = Some (2 ^ 24)" "parse_iec te ''64 MiB'' = Some (2 ^ 26)"
  shows "byte_size_parse te sec k ''16 MiB'' = Ret (Inr (ByteSize (2 ^ 24)))"
    "byte_size_parse te sec k ''64 MiB'' = Ret (Inr (ByteSize (2 ^ 26)))"
  using assms
  by (simp_all add: byte_size_parse_def parse_bytes_def str_chars_ascii is_ascii_def trim_chars_def
      is_whitespace_def parse_u64_def is_digit_def digit_value_def Let_def)

lemma disk_config_parse:
  assumes "human_units te" "parse_iec te ''16 MiB'' = Some (2 ^ 24)" "parse_iec te ''64 MiB'' = Some (2 ^ 26)" "d \<noteq> []"
  shows "\<exists>c cc. config_parse te [(''cache.memory_size'', ''16 MiB''), (''cache.disk_path'', d), (''cache.disk_size'', ''64 MiB''),
        (''cache.block_size'', ''1 MiB'')] None = Ret (Inr c)
     \<and> oc_cache c = Some cc \<and> disk_path cc = Some d \<and> oc_cache_namespace c = None"
  using assms(4)
  by (simp add: section_parsers unit_cache_default [OF assms(1)] unit_sizes [OF assms(1)] disk_sizes [OF assms(2,3)]
      non_empty_path_def)

lemma disk_layers_build:
  assumes "disk_cache_library E d" "oc_cache c = Some cc" "disk_path cc = Some d" "oc_cache_namespace c = None"
  shows "\<exists>rest. \<not> list_ex removes rest
    \<and> (\<forall>op. \<exists>applied. apply_layers E c op h = (Ret applied, h @ CreateDirAll (path_join d ''default'') # rest))"
proof -
  let ?p = "path_join d ''default''" and ?f = "FsDevice (path_join d ''default'') (size_get (disk_size cc))"
  let ?h2 = "(h @ [CreateDirAll ?p]) @ [?f]"
  have mk: "on_unit E (h @ [CreateDirAll ?p]) = ROk ()" and f: "on_handle E ?h2 \<noteq> RPanic"
    and b: "\<And>m s x. on_handle E (?h2 @ [CacheBuild m s x]) \<noteq> RPanic"
    using assms(1) by (simp_all add: disk_cache_library_def del: append_assoc)
  show ?thesis
  proof (cases "on_handle E ?h2")
    case (ROk dev)
    let ?b = "CacheBuild (size_get (memory_size cc)) (shards cc) (Some (dev, size_get (block_size cc)))"
    have "\<exists>applied. apply_layers E c op h = (Ret applied, h @ CreateDirAll ?p # [?f, ?b])" for op
      using ROk mk b [of "size_get (memory_size cc)" "shards cc" "Some (dev, size_get (block_size cc))"] assms(2-4)
      by (cases "on_handle E (?h2 @ [?b])")
        (simp_all add: apply_layers_def cache_apply_def build_layer_def build_step_def invoke_def Let_def)
    then show ?thesis by (intro exI [of _ "[?f, ?b]"]) simp
  next
    case (RErr e)
    then have "\<exists>applied. apply_layers E c op h = (Ret applied, h @ CreateDirAll ?p # [?f])" for op
      using mk assms(2-4) by (simp add: apply_layers_def cache_apply_def build_layer_def build_step_def invoke_def Let_def)
    then show ?thesis by (intro exI [of _ "[?f]"]) simp
  qed (use f in simp)
qed

lemma reader_calls_keep:
  "od_reader_open E p path err h = (q, e, h') \<Longrightarrow> \<exists>g. h' = h @ g \<and> \<not> list_ex removes g"
  "od_reader_read E (Ptr a r) offset len b err h = (n, e, buf, h') \<Longrightarrow> \<exists>g. h' = h @ g \<and> \<not> list_ex removes g"
  by (auto simp: od_reader_open_def od_reader_open_body_def od_reader_read_def od_reader_read_body_def ffi_guard_def
      check_guard_def decode_or_leave_def await_or_leave_def invoke_def cstr_def
      split: sum.splits if_splits reply.splits option.splits ptr.splits outcome.splits)

lemma read_block_val:
  assumes "dependable E V" "cap_read (od_cap op)"
  shows "V h (service (od_op op)) ''disk_cached.txt'' = Some (FileNode cached_block) \<Longrightarrow>
    \<exists>g. read_block E op n h = Some (h @ g) \<and> \<not> list_ex removes g"
proof (induction n arbitrary: h)
  case 0
  show ?case by (intro exI [of _ "[]"]) simp
next
  case (Suc n)
  note store = dependable_store [OF assms(1)]
  have valid: "utf8_valid ''disk_cached.txt''" by (simp add: is_ascii_def)
  have len: "length cached_block = 4096" "cached_block ! 0 = CHR 0x07" by (simp_all add: cached_block_def)
  obtain r h1 where r: "od_reader_open E (Ptr 0 op) (Some ''disk_cached.txt'') no_error h = (Some r, no_error, h1)"
    using reader_open_val [OF assms valid Suc.prems, of 0 no_error] by auto
  with reader_open_steady [OF store _ Suc.prems]
  have s: "steady E V r (service (od_op op), ''disk_cached.txt'') cached_block h1" "V h1 = V h" by blast+
  from read_val [OF assms(1) s(1), of 4096 0 0 no_error] len obtain h2 where
    h2: "od_reader_read E (Ptr 0 r) 0 4096 True no_error h1 = (4096, no_error, Some cached_block, h2)" "V h2 = V h1"
    by (auto simp: isize_max_def)
  obtain g1 g2 where g: "h1 = h @ g1" "\<not> list_ex removes g1" "h2 = h1 @ g2" "\<not> list_ex removes g2"
    using reader_calls_keep(1) [OF r] reader_calls_keep(2) [OF h2(1)] by blast
  from Suc.IH [of h2] Suc.prems s(2) h2(2) obtain g3 where "read_block E op n h2 = Some (h2 @ g3)" "\<not> list_ex removes g3" by auto
  with r h2(1) len(2) g show ?case by (intro exI [of _ "g1 @ g2 @ g3"]) simp
qed

lemma disk_cache_passes:
  assumes "dependable E V" "memory_service E S" "human_units te" "parse_iec te ''16 MiB'' = Some (2 ^ 24)"
    and "parse_iec te ''64 MiB'' = Some (2 ^ 26)" "disk_cache_library E d" "local_dirs E listdir" "d \<noteq> []" "utf8_valid d"
  shows "memory_operator_with_disk_cache E S te listdir d h = Some ()"
proof -
  let ?options = "[(''cache.memory_size'', ''16 MiB''), (''cache.disk_path'', d), (''cache.disk_size'', ''64 MiB''),
        (''cache.block_size'', ''1 MiB'')]"
  let ?mk = "CreateDirAll (path_join d ''default'')" and ?h1 = "h @ [BuildOperator ''memory'' []]"
  obtain c cc where c: "config_parse te ?options None = Ret (Inr c)" "oc_cache c = Some cc" "disk_path cc = Some d"
    "oc_cache_namespace c = None"
    using disk_config_parse [OF assms(3-5,8)] by blast
  obtain rest where rest: "\<not> list_ex removes rest"
    and layers: "\<And>op. \<exists>applied. apply_layers E c op ?h1 = (Ret applied, h @ BuildOperator ''memory'' [] # ?mk # rest)"
    using disk_layers_build [OF assms(6) c(2-4), of ?h1] by auto
  obtain op where op: "memory_operator E S te ?options h = Some (op, h @ BuildOperator ''memory'' [] # ?mk # rest)" "cap_read (od_cap op)"
    by (rule memory_operator_layers [OF assms(2) c(1) _ layers]) (simp_all add: is_ascii_def assms(9))
  let ?h2 = "h @ BuildOperator ''memory'' [] # ?mk # rest" and ?w = "WriteAll (od_op op) ''disk_cached.txt'' cached_block"
  obtain h3 where seed: "seed_file E op ''disk_cached.txt'' cached_block ?h2 = Some h3"
    "V h3 (service (od_op op)) ''disk_cached.txt'' = Some (FileNode cached_block)"
    using seed_file_val [OF assms(1)] by blast
  then have h3: "h3 = ?h2 @ [?w]" by (auto simp: seed_file_def invoke_def split: reply.splits)
  obtain g where g: "read_block E op 3 h3 = Some (h3 @ g)" "\<not> list_ex removes g"
    using read_block_val [OF assms(1) op(2) seed(2), of 3] by blast
  have "on_unit E (?h1 @ [?mk]) = ROk ()" using assms(6) unfolding disk_cache_library_def by blast
  with assms(7) [unfolded local_dirs_def, rule_format, of ?h1 d "''default''" "rest @ [?w] @ g"] rest g(2)
  obtain es where "listdir (?h1 @ ?mk # rest @ [?w] @ g) d = Some es" "''default'' \<in> set es" by auto
  then have "listdir (h3 @ g) d = Some es" "es \<noteq> []" by (auto simp: h3)
  with op(1) seed(1) g(1) show ?thesis by (simp add: memory_operator_with_disk_cache_def)
qed

section \<open>Properties\<close>

text \<open>Services, a file system and crates as the tests assume them.\<close>

definition named_env :: env where
  "named_env = calm_env\<lparr>on_handle := \<lambda>h. ROk (case last h of BuildOperator u _ \<Rightarrow> to_nat u | _ \<Rightarrow> 0)\<rparr>"

definition sample_name :: "operator \<Rightarrow> string" where
  "sample_name op = drop 5 (from_nat (service op))"

definition sample_s3 :: service_env where
  "sample_s3 = sample_memory\<lparr>uri_scheme := \<lambda>_ _. ROk ''s3''\<rparr>"

definition sample_dirs :: "history \<Rightarrow> string \<Rightarrow> string list option" where
  "sample_dirs h d = Some (concat (map (\<lambda>c. case c of
     CreateDirAll p \<Rightarrow> if prefix d p then [drop (length (path_join d [])) p] else [] | _ \<Rightarrow> []) h))"

definition sample_cache_units :: text_env where
  "sample_cache_units = sample_units\<lparr>parse_iec := (parse_iec sample_units)(''16 MiB'' \<mapsto> 2 ^ 24, ''64 MiB'' \<mapsto> 2 ^ 26)\<rparr>"

lemma sample_trials:
  "s3_service named_env sample_s3 sample_name" "local_dirs mem_env sample_dirs" "disk_cache_library mem_env d"
  "human_units sample_cache_units" "parse_iec sample_cache_units ''16 MiB'' = Some (2 ^ 24)"
  "parse_iec sample_cache_units ''64 MiB'' = Some (2 ^ 26)"
proof -
  show "s3_service named_env sample_s3 sample_name"
    by (simp add: s3_service_def named_env_def sample_s3_def sample_name_def)
  have "prefix d (path_join d n)" "drop (length (path_join d [])) (path_join d n) = n" if "n \<noteq> []" "CHR ''/'' \<notin> set n" for d n
    using that by (cases n; auto simp: path_join_def)+
  then show "local_dirs mem_env sample_dirs"
    by (auto simp: local_dirs_def sample_dirs_def)
  show "disk_cache_library mem_env d" by (simp add: disk_cache_library_def mem_unit_def)
  show "human_units sample_cache_units" "parse_iec sample_cache_units ''16 MiB'' = Some (2 ^ 24)"
    "parse_iec sample_cache_units ''64 MiB'' = Some (2 ^ 26)"
    by (simp_all add: human_units_def sample_cache_units_def sample_units_def)
qed

lemma sample_version: "read_locked_version sample_build (path_join ''/r/opendal'' ''Cargo.lock'') ''opendal'' = Some ''0.58.0 (git a1b2c3d)''"
  by code_simp



end
