(* ===== verification/Spec2Isabelle.thy ===== *)
theory Spec2Isabelle
  imports Uri Stat Reader Writer Mutate Cursor Du Copy Boundary Usage Probes Handles Runtime Build Conformance
    Interleave Scans Tuning Trials
begin

text \<open>
  \<^bold>\<open>duckdb-opendal: the Rust core.\<close>

  The extension gives DuckDB's C++ file system access to object stores through OpenDAL.  Its core
  is the static library under \<open>src/opendal/src\<close>: a C interface whose entry points decode C
  strings, check what the service can do, call OpenDAL on a process-wide runtime, and answer with a
  value and an error slot.  Around it there are a parser for the cross-service options, a URL
  resolver, a glob matcher, and the cursors behind the table functions \<open>opendal_ls\<close>, \<open>opendal_stat\<close>,
  \<open>opendal_du\<close> and \<open>opendal_copy\<close>.  This development models all of that code, and the build script
  beside it.

  \<^bold>\<open>How the code is represented.\<close>  Every structure is a record with the fields of the source,
  every enumeration a datatype with its variants, and every function a definition of the same name
  (\<open>x_body\<close> is what stands inside \<open>ffi_guard!\<close> in \<open>x\<close>).  Rust's \<open>str\<close> is its byte list, a C string
  an optional string (null or the bytes up to the terminator), \<open>u64\<close> and \<open>usize\<close> are \<open>64 word\<close>, a
  \<open>Result\<close> is a sum, and code that may unwind returns an \<open>outcome\<close>.  An entry point takes the error
  slot and returns it; a handle that is mutated is returned updated; a null pointer is a value.

  \<^bold>\<open>OpenDAL and time.\<close>  OpenDAL is not in the repository.  A call on it is a value of \<open>call\<close>
  (theory Opendal); an environment \<open>env\<close> answers each call from the whole history of calls, so it
  stands for any stateful, failing or panicking service, and the history an entry point returns is
  part of its result: what is called, with which arguments, and in which order is what many
  properties are about.  The crates for percent encoding, human units and JSON, and Unicode's
  numeric characters, are parameters in the same way, with their documented laws in the locale
  \<open>percent_codec\<close> (theory Uri) where a property needs them.

  \<^bold>\<open>The theories.\<close>

  \<^item> Prelude, Utf8, F32: Rust's strings, checked and saturating arithmetic, UTF-8 validation and
    \<open>f32\<close> parsing, as far as the sources use them.
  \<^item> Opendal: the types and calls of OpenDAL.  Errors: \<open>error.rs\<close> and \<open>ffi.rs\<close>, the contract of an
    entry point (\<open>reports\<close>: the failure value is returned exactly when the slot says failure, and a
    failure has a message) and the locale \<open>ffi_entry\<close>, which every guarded entry point interprets.
  \<^item> Btree: the interface of \<open>BTreeMap\<close> (locale \<open>ordered_map\<close>) and an implementation; used by the
    option sections and by disk usage.
  \<^item> Values, Config: \<open>config/*.rs\<close>, from option texts to the layers put on an operator.
  \<^item> Operator: \<open>operator.rs\<close> and the initialisation in \<open>lib.rs\<close>.  Capability: \<open>capability.rs\<close>.
  \<^item> Entry: what the bodies of entry points share: leaving with an error, decoding, checking,
    awaiting; with a proof rule for the contract of each.
  \<^item> Stat, Lister, Reader, Writer, Mutate: the files of the same names.  Uri: \<open>uri.rs\<close> and the URL
    entry points of \<open>lib.rs\<close>.
  \<^item> Glob, Paths, Table, Scan, Cursor, Du, Copy: \<open>table.rs\<close>.  Glob and Paths hold the matcher and the
    path helpers, Table the C structures, options and rows, Scan the protocol between a row cursor
    and its client (locale \<open>row_cursor\<close>, interpreted by the three cursors), Cursor the scans by stat,
    list and glob, Du the roll-up, Copy the copies.
  \<^item> Boundary: the entry points as one relation, and the contract that all of them keep.
  \<^item> Store: the documented behaviour of a service as a contract between its replies and a view of its
    files (\<open>object_store\<close>), and \<open>dependable\<close>, where calls also succeed.  Memory: an in-memory store that
    keeps both, so the contract can be met.  Files: the entry points on such a store.  Interleave:
    the writers of several threads on one store, their calls in any order.  Trees: tree copies on such
    a store, driven by the client's loop.  Usage, Scans: listings, disk usage, and the list and glob
    scans of the store's tree.
  \<^item> Tuning: from the \<open>io\<close> options of an operator to the calls that open its readers and writers.
  \<^item> Scenarios, Setups, Probes, Trials: the end-to-end tests of \<open>lib.rs\<close> as programs over the model,
    where each assertion and unwrap is a step that may fail.  Conformance: the unit tests of the other
    modules, in the same form.
  \<^item> Runtime: \<open>runtime.rs\<close>, with threads that call at once.  Handles: what each \<open>_free\<close> function
    releases, on an explicit heap.  Build: \<open>build.rs\<close> and \<open>od_opendal_version\<close>.

  \<^bold>\<open>What is proved.\<close>

  \<^item> End to end, on every store that keeps the contract: a file whose open, writes and close all
    reported success holds exactly those bytes, and nothing else changed; a file written is the file
    that is found, measured and read; mutations implement operations on the tree; a tree copy puts
    the bytes of each acknowledged file at its destination and touches nothing but the destinations,
    whatever fails, and on a dependable store it ends with every selected file copied (Files, Trees).
    Disk usage and listings count and measure exactly the files of the tree (Usage), and a glob scan
    gives exactly the files that match (Scans).  Threads that write to distinct paths do not disturb
    one another: under every interleaving a thread whose own calls were acknowledged has its file,
    whatever fails for the others, on a dependable store all the files land, and a reader of a file that
    none of them writes goes on delivering it (Interleave).  The
    repository's own end-to-end tests pass, not on one service but on every dependable one with the
    capabilities they need (Probes, Trials), and so do its unit tests (Conformance).
  \<^item> Globs: the memoised matcher decides exactly the declarative language of a pattern, and listing
    from the pattern's root loses no match (Glob, Paths).
  \<^item> Every entry point with an error slot answers with a well-formed slot that is a failure exactly
    when its value is one, whatever the arguments, the service's replies and the panics (Boundary).
  \<^item> Copies: a streamed copy always returns, reads the source in consecutive ranges of at most a
    chunk, delivers exactly its bytes, closes once, and on any failure aborts as its last call;
    a server copy counts without wrap-around and aborts on failure; plans keep relative paths and
    never send two sources to one destination; no condition is dropped; a scan accounts for every
    planned file (Copy).
  \<^item> Disk usage equals a reference roll-up or reports that a sum does not fit (Du); list and glob
    scans are complete, sound, ordered and end; a stat scan drops no condition (Cursor); a row shows
    the whole entry (Table).
  \<^item> The writer is a state machine with an invariant over all reachable states; it implements an
    abstract stream; a failed write is aborted at once (Writer).  Positioned reads compose (Reader),
    listings read back whatever the cache of C strings holds (Lister), the mutations implement one
    specification of a guarded request (Mutate), \<open>od_dir_exists\<close> implements the key-prefix view of
    directories (Stat), and the two ways to ask for capabilities agree (Capability).
  \<^item> Options: every configuration that parses is well-formed, depends only on the last value of each
    key, and is applied in a fixed order of layers; sizes are exact and round-trip (Values, Config); the
    concurrency and chunk sizes that were given are those of the calls that open readers and writers
    (Tuning).
    URLs: resolving keeps the path segments, and building then resolving gives the parts back (Uri).
  \<^item> At most one runtime is ever built, however threads interleave and whatever builds fail (Runtime); a
    client that releases what it obtained, by its kind and once, never goes wrong and leaks nothing
    (Handles); cargo watches exactly the Rust sources, and the version that is reported is the locked
    one (Build).
  \<^item> Divergences found: a backslash in a key does not survive a URL (\<open>url_round_trip_backslash\<close>), a
    size that ends in a multi-byte numeric character panics (\<open>od_operator_new_half_panics\<close>), and
    copying a glob with a leading slash loses the relative paths (\<open>copy_leading_slash\<close>); \<open>od_stat\<close>
    on null arguments leaves its output as it was (\<open>od_stat_null_keeps_output\<close>).

  \<^bold>\<open>Loops.\<close>  The loops of a cursor's step, of the server's copier and of the stream have no bound in
  the code, so they are \<open>partial_function (option)\<close>, where \<open>None\<close> is a call that does not return; the
  properties prove that they return (a listing that ends, a copier that stops making progress, a
  chunk that is not empty, which \<open>copy_options\<close> ensures).  A client's scan (\<open>collect\<close>) takes a
  number of steps; one more than the number of rows is always enough.

  \<^bold>\<open>Not modelled.\<close>  Suspension inside a future: an entry point makes each of its calls in one step, so
  that threads interleave between entry points (theory Interleave) and, for the runtime's cell, inside
  one (theory Runtime); the service, the other state they share, may answer by anything in the
  history.  What a destructor does besides releasing its box; what a failed read leaves in the
  caller's buffer; the identity of the pointers that rows and entries borrow.  The generator of the C
  header (cbindgen), the parser of the lock file, and the C++ client of the interface.
\<close>

end
